(* ===== verification/Prelude.thy ===== *)
theory Prelude
  imports Main "HOL-Library.Word"
begin

text \<open>
  Shared vocabulary of the development: the C integer types as machine words, byte buffers as
  byte lists, little-endian serialisation (the layout \<^verbatim>\<open>write_u16_le\<close> / \<^verbatim>\<open>write_u32_le\<close> of
  \<^verbatim>\<open>secure_blob_store.c\<close> and of every packed struct on the little-endian Cortex-M0+), the
  constant-time comparison idiom of the PIN and proof checks, and the interface of a
  fixed-width encoding, which the flash pages and the wire structs all provide.
\<close>

unbundle bit_operations_syntax

section \<open>C integer types and theorem collections\<close>

type_synonym byte = "8 word"
type_synonym u16 = "16 word"
type_synonym u32 = "32 word"
type_synonym u64 = "64 word"

text \<open>
  \<open>frame\<close>: which part of the device an operation leaves alone. \<open>sizes\<close>: lengths of
  serialised data. \<open>codec\<close>: decoding after encoding.
\<close>

named_theorems frame
named_theorems sizes
named_theorems codec

section \<open>Lists and buffers\<close>

text \<open>\<^verbatim>\<open>memcpy(buf + off, xs, len)\<close> into a buffer, for \<open>off + len\<close> inside the buffer.\<close>

definition put :: "'a list \<Rightarrow> nat \<Rightarrow> 'a list \<Rightarrow> 'a list" where
  "put buf off xs = take off buf @ xs @ drop (off + length xs) buf"

text \<open>The \<open>len\<close> bytes of a buffer from \<open>off\<close> on.\<close>

definition segment :: "nat \<Rightarrow> nat \<Rightarrow> 'a list \<Rightarrow> 'a list" where
  "segment off len xs = take len (drop off xs)"

lemma length_put [simp, sizes]: "off + length xs \<le> length buf \<Longrightarrow> length (put buf off xs) = length buf"
  by (simp add: put_def)

lemma take_put [simp]: "off \<le> length buf \<Longrightarrow> take (off + length xs) (put buf off xs) = take off buf @ xs"
  by (simp add: put_def)

lemma length_segment [simp, sizes]: "off + len \<le> length xs \<Longrightarrow> length (segment off len xs) = len"
  by (simp add: segment_def)

lemma segment_append_right [simp]: "length xs \<le> off \<Longrightarrow> segment off len (xs @ ys) = segment (off - length xs) len ys"
  by (simp add: segment_def)

lemma segment_append_left: "off + len \<le> length xs \<Longrightarrow> segment off len (xs @ ys) = segment off len xs"
  by (simp add: segment_def)

lemma segment_0 [simp]: "length xs = len \<Longrightarrow> segment 0 len (xs @ ys) = xs"
  by (simp add: segment_def)

lemma segment_all [simp]: "length xs = len \<Longrightarrow> segment 0 len xs = xs"
  by (simp add: segment_def)

lemma segment_slice: "off' + len' \<le> len \<Longrightarrow> segment off' len' (segment off len xs) = segment (off + off') len' xs"
  by (simp add: segment_def drop_take min_def add.commute)

lemma segment_Cons_Suc [simp]: "segment (Suc off) len (x # xs) = segment off len xs"
  by (simp add: segment_def)

lemma segment_nth: "i < len \<Longrightarrow> off + len \<le> length xs \<Longrightarrow> segment off len xs ! i = xs ! (off + i)"
  by (simp add: segment_def)

lemma segment_put [simp]: "off + length xs \<le> length buf \<Longrightarrow> length xs = n \<Longrightarrow> segment off n (put buf off xs) = xs"
  by (simp add: segment_def put_def)

lemma segment_put_other:
  assumes "off + length xs \<le> length buf" "off' + n \<le> off \<or> off + length xs \<le> off'" "off' + n \<le> length buf"
  shows "segment off' n (put buf off xs) = segment off' n buf"
proof (rule nth_equalityI)
  show "length (segment off' n (put buf off xs)) = length (segment off' n buf)" using assms(1,3) by simp
  fix i assume "i < length (segment off' n (put buf off xs))"
  then have i: "i < n" using assms(1,3) by simp
  show "segment off' n (put buf off xs) ! i = segment off' n buf ! i"
    using assms i by (auto simp: segment_nth put_def nth_append)
qed

lemma segment_replicate [simp]: "off + n \<le> m \<Longrightarrow> segment off n (replicate m x) = replicate n x"
  by (simp add: segment_def min_def)

lemma list_eq_replicate: "(\<forall>x \<in> set xs. x = a) \<Longrightarrow> xs = replicate (length xs) a"
  by (induction xs) auto

section \<open>Little-endian integers\<close>

definition le16 :: "u16 \<Rightarrow> byte list" where
  "le16 v = [ucast (v AND 0xFF), ucast (drop_bit 8 v AND 0xFF)]"

definition le32 :: "u32 \<Rightarrow> byte list" where
  "le32 v = [ucast (v AND 0xFF), ucast (drop_bit 8 v AND 0xFF),
             ucast (drop_bit 16 v AND 0xFF), ucast (drop_bit 24 v AND 0xFF)]"

definition un_le16 :: "byte list \<Rightarrow> u16" where
  "un_le16 bs = ucast (bs ! 0) OR push_bit 8 (ucast (bs ! 1))"

definition un_le32 :: "byte list \<Rightarrow> u32" where
  "un_le32 bs = ucast (bs ! 0) OR push_bit 8 (ucast (bs ! 1)) OR
                push_bit 16 (ucast (bs ! 2)) OR push_bit 24 (ucast (bs ! 3))"

lemma length_le16 [simp, sizes]: "length (le16 v) = 2"
  by (simp add: le16_def)

lemma length_le32 [simp, sizes]: "length (le32 v) = 4"
  by (simp add: le32_def)

lemma and_0xFF: "(x :: 'a :: len word) AND 0xFF = take_bit 8 x"
  by (simp add: take_bit_eq_mask mask_eq_exp_minus_1)

lemma ucast_and_0xFF [simp]: "ucast ((x :: 'a :: len word) AND 0xFF) = (ucast x :: byte)"
  by (rule bit_word_eqI) (simp only: and_0xFF, auto simp: bit_simps)

lemma le16_alt: "le16 v = [ucast v, ucast (drop_bit 8 v)]"
  by (simp add: le16_def del: unsigned_and_eq)

lemma le32_alt: "le32 v = [ucast v, ucast (drop_bit 8 v), ucast (drop_bit 16 v), ucast (drop_bit 24 v)]"
  by (simp add: le32_def del: unsigned_and_eq)

lemma less_32E:
  assumes "(n::nat) < 32"
  obtains "n < 8" | "8 \<le> n \<and> n < 16" | "16 \<le> n \<and> n < 24" | "24 \<le> n \<and> n < 32"
  using assms by fastforce

lemma un_le16_le16 [simp, codec]: "un_le16 (le16 v @ rest) = v"
  by (rule bit_word_eqI) (auto simp: le16_alt un_le16_def bit_simps)

lemma un_le32_le32 [simp, codec]: "un_le32 (le32 v @ rest) = v"
proof (rule bit_word_eqI)
  fix n assume "n < LENGTH(32)"
  then have "n < 32" by simp
  then show "bit (un_le32 (le32 v @ rest)) n = bit v n"
    by (cases rule: less_32E) (auto simp: le32_alt un_le32_def bit_simps)
qed

lemma le16_un_le16 [codec]: "length bs = 2 \<Longrightarrow> le16 (un_le16 bs) = bs"
proof -
  have *: "ucast (ucast a OR push_bit 8 (ucast b) :: u16) = a"
    "ucast (drop_bit 8 (ucast a OR push_bit 8 (ucast b) :: u16)) = b" for a b :: byte
    by (rule bit_word_eqI, auto simp: bit_simps dest: bit_imp_le_length)+
  assume "length bs = 2"
  then obtain a b where "bs = [a, b]" by (auto simp: length_Suc_conv numeral_2_eq_2)
  then show ?thesis using * [of a b] by (simp only: le16_alt un_le16_def nth_Cons_0 nth_Cons_Suc One_nat_def)
qed

lemma le32_un_le32 [codec]: "length bs = 4 \<Longrightarrow> le32 (un_le32 bs) = bs"
proof -
  let ?w = "\<lambda>a b c d. (ucast (a::byte) OR push_bit 8 (ucast (b::byte)) OR
      push_bit 16 (ucast (c::byte)) OR push_bit 24 (ucast (d::byte)) :: u32)"
  have *: "ucast (?w a b c d) = a" "ucast (drop_bit 8 (?w a b c d)) = b"
    "ucast (drop_bit 16 (?w a b c d)) = c" "ucast (drop_bit 24 (?w a b c d)) = d" for a b c d
    by (rule bit_word_eqI, auto simp: bit_simps dest: bit_imp_le_length)+
  assume "length bs = 4"
  then obtain a b c d where "bs = [a, b, c, d]"
    by (auto simp: length_Suc_conv numeral_eq_Suc)
  then show ?thesis using * [of a b c d] by (simp add: le32_alt un_le32_def)
qed

lemma un_le16_bare [simp, codec]: "un_le16 (le16 v) = v"
  using un_le16_le16 [of v "[]"] by simp

lemma un_le32_bare [simp, codec]: "un_le32 (le32 v) = v"
  using un_le32_le32 [of v "[]"] by simp

lemma le16_inject [simp]: "le16 v = le16 w \<longleftrightarrow> v = w"
  using un_le16_bare by metis

lemma le32_inject [simp]: "le32 v = le32 w \<longleftrightarrow> v = w"
  using un_le32_bare by metis

lemma unat_ucast_u16 [simp]: "unat (ucast (x :: byte) :: u16) = unat x"
  by transfer (simp add: take_bit_take_bit)

section \<open>Constant-time comparison\<close>

text \<open>
  \<^verbatim>\<open>diff |= a[i] ^ b[i]\<close> over all positions, then \<^verbatim>\<open>diff == 0\<close>: the loop of
  \<^verbatim>\<open>check_pin\<close>, \<^verbatim>\<open>pin_change\<close> and \<^verbatim>\<open>hmac_verify_digest\<close>. It reads every position
  whatever the data is; it decides equality of buffers of one length.
\<close>

fun xor_diff :: "byte \<Rightarrow> byte list \<Rightarrow> byte list \<Rightarrow> byte" where
  "xor_diff d (x # xs) (y # ys) = xor_diff (d OR (x XOR y)) xs ys"
| "xor_diff d _ _ = d"

lemma word_or_eq_0_iff: "(x :: 'a :: len word) OR y = 0 \<longleftrightarrow> x = 0 \<and> y = 0"
  by (auto simp: bit_eq_iff bit_simps)

lemma word_xor_eq_0_iff: "(x :: 'a :: len word) XOR y = 0 \<longleftrightarrow> x = y"
  by (auto simp: bit_eq_iff bit_simps)

lemma xor_diff_0: "length xs = length ys \<Longrightarrow> xor_diff d xs ys = 0 \<longleftrightarrow> d = 0 \<and> xs = ys"
  by (induction d xs ys rule: xor_diff.induct) (auto simp: word_or_eq_0_iff word_xor_eq_0_iff)

section \<open>Fixed-width encodings\<close>

text \<open>
  What every packed struct promises: a valid value takes \<open>width\<close> bytes, and decoding
  reads it back, whatever follows it. An exact encoding (no padding, no unused bit patterns)
  also gets back any buffer of the right width.
\<close>

locale byte_codec =
  fixes enc :: "'a \<Rightarrow> byte list" and dec :: "byte list \<Rightarrow> 'a"
    and width :: nat and valid :: "'a \<Rightarrow> bool"
  assumes enc_length: "valid x \<Longrightarrow> length (enc x) = width"
    and dec_enc: "valid x \<Longrightarrow> dec (enc x @ rest) = x"
begin

lemma dec_enc_bare: "valid x \<Longrightarrow> dec (enc x) = x"
  using dec_enc [of x "[]"] by simp

lemma enc_inject: "valid x \<Longrightarrow> valid y \<Longrightarrow> enc x = enc y \<Longrightarrow> x = y"
  by (metis dec_enc_bare)

lemma length_enc_all: "\<forall>x \<in> set xs. valid x \<Longrightarrow> length (concat (map enc xs)) = length xs * width"
  by (induction xs) (auto simp: enc_length)

lemma segment_enc_all:
  "\<forall>x \<in> set xs. valid x \<Longrightarrow> i < length xs \<Longrightarrow>
   segment (i * width) width (concat (map enc xs) @ rest) = enc (xs ! i)"
proof (induction xs arbitrary: i)
  case Nil
  then show ?case by simp
next
  case (Cons x xs)
  show ?case
  proof (cases i)
    case 0
    with Cons.prems show ?thesis by (simp add: enc_length)
  next
    case (Suc j)
    with Cons.prems have "segment (j * width) width (concat (map enc xs) @ rest) = enc (xs ! j)"
      by (intro Cons.IH) auto
    moreover have "segment (i * width) width (enc x @ concat (map enc xs) @ rest)
        = segment (j * width) width (concat (map enc xs) @ rest)"
      using Suc Cons.prems(1) by (simp add: enc_length)
    ultimately show ?thesis using Suc by simp
  qed
qed

lemma dec_all:
  "\<forall>x \<in> set xs. valid x \<Longrightarrow> n = length xs \<Longrightarrow>
   map (\<lambda>i. dec (segment (i * width) width (concat (map enc xs) @ rest))) [0..<n] = xs"
  by (rule nth_equalityI) (auto simp: segment_enc_all dec_enc_bare)

end

locale exact_codec = byte_codec +
  assumes enc_dec: "length bs = width \<Longrightarrow> enc (dec bs) = bs"
    and valid_dec: "length bs = width \<Longrightarrow> valid (dec bs)"
begin

lemma dec_inject: "length bs = width \<Longrightarrow> length cs = width \<Longrightarrow> dec bs = dec cs \<Longrightarrow> bs = cs"
  by (metis enc_dec)

end

interpretation c16: exact_codec le16 un_le16 2 "\<lambda>_. True"
  by unfold_locales (simp_all add: codec)

interpretation c32: exact_codec le32 un_le32 4 "\<lambda>_. True"
  by unfold_locales (simp_all add: codec)

end
