(* ===== verification/FIPS180.thy ===== *)
theory FIPS180
  imports Prelude
begin

text \<open>
  SHA-256 as FIPS 180-4 defines it, written without any definition of the code: the constants as
  the fractional parts of the roots of the first primes (section 4.2.2 and 5.3.3), the six logical
  functions with rotations, the message schedule as a recursion, padding and lengths as big-endian
  numbers (section 5.1.1). \<^verbatim>\<open>Sha256\<close> proves that \<^verbatim>\<open>firmware/src/sha256_raw.c\<close> computes it.
\<close>

section \<open>Constants\<close>

text \<open>The first 64 primes.\<close>

definition fips_primes :: "nat list" where
  "fips_primes = [
    2, 3, 5, 7, 11, 13, 17, 19, 23, 29, 31, 37, 41, 43, 47, 53,
    59, 61, 67, 71, 73, 79, 83, 89, 97, 101, 103, 107, 109, 113, 127, 131,
    137, 139, 149, 151, 157, 163, 167, 173, 179, 181, 191, 193, 197, 199, 211, 223,
    227, 229, 233, 239, 241, 251, 257, 263, 269, 271, 277, 281, 283, 293, 307, 311]"

text \<open>
  The first 32 bits of the fractional part of the \<open>k\<close>-th root of \<open>p\<close>: the integer part of that root
  times \<open>2 ^ 32\<close>, which is the root of \<open>p * 2 ^ (32 * k)\<close>, in a word of 32 bits.
\<close>

definition fips_root :: "nat \<Rightarrow> nat \<Rightarrow> u32" where
  "fips_root k p = of_nat (GREATEST r. r ^ k \<le> p * 2 ^ (32 * k))"

definition fips_H0 :: "u32 list" where
  "fips_H0 = map (fips_root 2) (take 8 fips_primes)"

definition fips_K :: "u32 list" where
  "fips_K = map (fips_root 3) fips_primes"

lemma fips_root_eqI:
  assumes "r ^ k \<le> p * 2 ^ (32 * k)" "p * 2 ^ (32 * k) < Suc r ^ k"
  shows "fips_root k p = of_nat r"
proof -
  have "s \<le> r" if "s ^ k \<le> p * 2 ^ (32 * k)" for s
    using power_less_imp_less_base [of s k "Suc r"] that assms(2) by simp
  with assms(1) have "(GREATEST r. r ^ k \<le> p * 2 ^ (32 * k)) = r" by (intro Greatest_equality)
  then show ?thesis by (simp add: fips_root_def)
qed

text \<open>Their values: each integer root, whose last 32 bits are the constant, is checked by its power.\<close>

lemma fips_roots:
  assumes "list_all2 (\<lambda>r p. r ^ k \<le> p * 2 ^ (32 * k) \<and> p * 2 ^ (32 * k) < Suc r ^ k) rs ps"
  shows "map (fips_root k) ps = map of_nat rs"
  using assms by (induction rule: list_all2_induct) (simp_all add: fips_root_eqI)

lemma fips_H0_eq: "fips_H0 = [
    0x6A09E667, 0xBB67AE85, 0x3C6EF372, 0xA54FF53A,
    0x510E527F, 0x9B05688C, 0x1F83D9AB, 0x5BE0CD19]"
proof -
  have "fips_H0 = map of_nat [
    0x16A09E667, 0x1BB67AE85, 0x23C6EF372, 0x2A54FF53A,
    0x3510E527F, 0x39B05688C, 0x41F83D9AB, 0x45BE0CD19]"
    unfolding fips_H0_def by (rule fips_roots) (simp_all add: fips_primes_def)
  then show ?thesis by (rule trans) simp
qed

lemma fips_K_eq: "fips_K = [
    0x428A2F98, 0x71374491, 0xB5C0FBCF, 0xE9B5DBA5,
    0x3956C25B, 0x59F111F1, 0x923F82A4, 0xAB1C5ED5,
    0xD807AA98, 0x12835B01, 0x243185BE, 0x550C7DC3,
    0x72BE5D74, 0x80DEB1FE, 0x9BDC06A7, 0xC19BF174,
    0xE49B69C1, 0xEFBE4786, 0x0FC19DC6, 0x240CA1CC,
    0x2DE92C6F, 0x4A7484AA, 0x5CB0A9DC, 0x76F988DA,
    0x983E5152, 0xA831C66D, 0xB00327C8, 0xBF597FC7,
    0xC6E00BF3, 0xD5A79147, 0x06CA6351, 0x14292967,
    0x27B70A85, 0x2E1B2138, 0x4D2C6DFC, 0x53380D13,
    0x650A7354, 0x766A0ABB, 0x81C2C92E, 0x92722C85,
    0xA2BFE8A1, 0xA81A664B, 0xC24B8B70, 0xC76C51A3,
    0xD192E819, 0xD6990624, 0xF40E3585, 0x106AA070,
    0x19A4C116, 0x1E376C08, 0x2748774C, 0x34B0BCB5,
    0x391C0CB3, 0x4ED8AA4A, 0x5B9CCA4F, 0x682E6FF3,
    0x748F82EE, 0x78A5636F, 0x84C87814, 0x8CC70208,
    0x90BEFFFA, 0xA4506CEB, 0xBEF9A3F7, 0xC67178F2]"
proof -
  have "fips_K = map of_nat [
    0x1428A2F98, 0x171374491, 0x1B5C0FBCF, 0x1E9B5DBA5,
    0x23956C25B, 0x259F111F1, 0x2923F82A4, 0x2AB1C5ED5,
    0x2D807AA98, 0x312835B01, 0x3243185BE, 0x3550C7DC3,
    0x372BE5D74, 0x380DEB1FE, 0x39BDC06A7, 0x3C19BF174,
    0x3E49B69C1, 0x3EFBE4786, 0x40FC19DC6, 0x4240CA1CC,
    0x42DE92C6F, 0x44A7484AA, 0x45CB0A9DC, 0x476F988DA,
    0x4983E5152, 0x4A831C66D, 0x4B00327C8, 0x4BF597FC7,
    0x4C6E00BF3, 0x4D5A79147, 0x506CA6351, 0x514292967,
    0x527B70A85, 0x52E1B2138, 0x54D2C6DFC, 0x553380D13,
    0x5650A7354, 0x5766A0ABB, 0x581C2C92E, 0x592722C85,
    0x5A2BFE8A1, 0x5A81A664B, 0x5C24B8B70, 0x5C76C51A3,
    0x5D192E819, 0x5D6990624, 0x5F40E3585, 0x6106AA070,
    0x619A4C116, 0x61E376C08, 0x62748774C, 0x634B0BCB5,
    0x6391C0CB3, 0x64ED8AA4A, 0x65B9CCA4F, 0x6682E6FF3,
    0x6748F82EE, 0x678A5636F, 0x684C87814, 0x68CC70208,
    0x690BEFFFA, 0x6A4506CEB, 0x6BEF9A3F7, 0x6C67178F2]"
    unfolding fips_K_def by (rule fips_roots) (simp_all add: fips_primes_def)
  then show ?thesis by (rule trans) simp
qed

lemma length_fips_constants [simp]: "length fips_H0 = 8" "length fips_K = 64"
  by (simp_all add: fips_H0_eq fips_K_eq)

section \<open>The compression function\<close>

definition fips_Ch :: "u32 \<Rightarrow> u32 \<Rightarrow> u32 \<Rightarrow> u32" where
  "fips_Ch x y z = (x AND y) XOR (NOT x AND z)"

definition fips_Maj :: "u32 \<Rightarrow> u32 \<Rightarrow> u32 \<Rightarrow> u32" where
  "fips_Maj x y z = (x AND y) XOR (x AND z) XOR (y AND z)"

definition fips_Sigma0 :: "u32 \<Rightarrow> u32" where
  "fips_Sigma0 x = word_rotr 2 x XOR word_rotr 13 x XOR word_rotr 22 x"

definition fips_Sigma1 :: "u32 \<Rightarrow> u32" where
  "fips_Sigma1 x = word_rotr 6 x XOR word_rotr 11 x XOR word_rotr 25 x"

definition fips_sigma0 :: "u32 \<Rightarrow> u32" where
  "fips_sigma0 x = word_rotr 7 x XOR word_rotr 18 x XOR drop_bit 3 x"

definition fips_sigma1 :: "u32 \<Rightarrow> u32" where
  "fips_sigma1 x = word_rotr 17 x XOR word_rotr 19 x XOR drop_bit 10 x"

definition fips_word :: "byte list \<Rightarrow> u32" where
  "fips_word M = word_cat (M ! 0) (word_cat (M ! 1) (word_cat (M ! 2) (M ! 3) :: 16 word) :: 24 word)"

function fips_W :: "byte list \<Rightarrow> nat \<Rightarrow> u32" where
  "fips_W M t =
     (if t < 16 then fips_word (drop (4 * t) M)
      else fips_sigma1 (fips_W M (t - 2)) + fips_W M (t - 7)
           + fips_sigma0 (fips_W M (t - 15)) + fips_W M (t - 16))"
  by pat_completeness auto
termination
  by (relation "measure snd") auto

declare fips_W.simps [simp del]

type_synonym fips_working = "u32 \<times> u32 \<times> u32 \<times> u32 \<times> u32 \<times> u32 \<times> u32 \<times> u32"

fun fips_round :: "(nat \<Rightarrow> u32) \<Rightarrow> nat \<Rightarrow> fips_working \<Rightarrow> fips_working" where
  "fips_round W t (a, b, c, d, e, f, g, h) =
     (let T1 = h + fips_Sigma1 e + fips_Ch e f g + fips_K ! t + W t;
          T2 = fips_Sigma0 a + fips_Maj a b c
      in (T1 + T2, a, b, c, d + T1, e, f, g))"

definition fips_compress :: "u32 list \<Rightarrow> byte list \<Rightarrow> u32 list" where
  "fips_compress H M =
     (let (a, b, c, d, e, f, g, h) = fold (fips_round (fips_W M)) [0..<64]
            (H ! 0, H ! 1, H ! 2, H ! 3, H ! 4, H ! 5, H ! 6, H ! 7)
      in map2 (+) [a, b, c, d, e, f, g, h] H)"

section \<open>Padding and digest\<close>

text \<open>A number as \<open>k\<close> bytes, the most significant first.\<close>

definition fips_bytes :: "nat \<Rightarrow> nat \<Rightarrow> byte list" where
  "fips_bytes k n = map (\<lambda>i. of_nat (n div 256 ^ (k - 1 - i))) [0..<k]"

definition sha_pad :: "byte list \<Rightarrow> byte list" where
  "sha_pad msg = msg @ [0x80] @ replicate ((119 - length msg mod 64) mod 64) 0 @ fips_bytes 8 (8 * length msg)"

fun sha_absorb :: "(u32 list \<Rightarrow> byte list \<Rightarrow> u32 list) \<Rightarrow> u32 list \<Rightarrow> byte list \<Rightarrow> u32 list" where
  "sha_absorb f st bs = (if length bs < 64 then st else sha_absorb f (f st (take 64 bs)) (drop 64 bs))"

declare sha_absorb.simps [simp del]

definition sha_spec :: "byte list \<Rightarrow> byte list" where
  "sha_spec msg = concat (map (\<lambda>w. fips_bytes 4 (unat w)) (sha_absorb fips_compress fips_H0 (sha_pad msg)))"

lemma length_fips_bytes [simp, sizes]: "length (fips_bytes k n) = k"
  by (simp add: fips_bytes_def)

lemma fips_compress_length: "length H = 8 \<Longrightarrow> length (fips_compress H M) = 8"
  by (simp add: fips_compress_def Let_def split: prod.split)

lemma length_sha_absorb: "length st = 8 \<Longrightarrow> length (sha_absorb fips_compress st bs) = 8"
proof (induction fips_compress st bs rule: sha_absorb.induct)
  case (1 st bs)
  then show ?case by (subst sha_absorb.simps) (simp add: fips_compress_length)
qed

lemma length_fips_words: "length (concat (map (\<lambda>w. fips_bytes k (unat w)) ws)) = k * length ws"
  by (induction ws) simp_all

lemma length_sha_spec [simp, sizes]: "length (sha_spec msg) = 32"
  by (simp add: sha_spec_def length_fips_words length_sha_absorb)

end
