(* ===== verification/Sha256.thy ===== *)
theory Sha256
  imports FIPS180
begin

text \<open>
  The SHA-256 of \<^verbatim>\<open>firmware/src/sha256_raw.c\<close>: the compression function, the streaming
  context (\<^verbatim>\<open>sha256_raw_ctx_t\<close>) with \<^verbatim>\<open>init\<close>, \<^verbatim>\<open>update\<close> and \<^verbatim>\<open>final\<close>, and the one-shot
  \<^verbatim>\<open>sha256_raw\<close>. Words keep their widths (32-bit state and schedule, 64-bit bit counter,
  both with wrap-around); buffer fill counts, at most 64, are naturals. The file's static
  scratch arrays hold no data between calls and are not part of the state.

  The reference is \<open>sha_spec\<close> of \<^verbatim>\<open>FIPS180\<close>, which shares no definition with the code. The main
  lemmas: the code's constants, byte order and compression are the standard's; a context that has absorbed a message in any pieces holds
  \<open>sha_inv\<close>; finalising it gives the digest of the concatenation.
\<close>

section \<open>The compression function\<close>

definition ROTR32 :: "u32 \<Rightarrow> nat \<Rightarrow> u32" where
  "ROTR32 x n = drop_bit n x OR push_bit (32 - n) x"

definition sha256_H0 :: "u32 list" where
  "sha256_H0 = [0x6a09e667, 0xbb67ae85, 0x3c6ef372, 0xa54ff53a,
                0x510e527f, 0x9b05688c, 0x1f83d9ab, 0x5be0cd19]"

definition sha256_K :: "u32 list" where
  "sha256_K = [
    0x428A2F98, 0x71374491, 0xB5C0FBCF, 0xE9B5DBA5,
    0x3956C25B, 0x59F111F1, 0x923F82A4, 0xAB1C5ED5,
    0xD807AA98, 0x12835B01, 0x243185BE, 0x550C7DC3,
    0x72BE5D74, 0x80DEB1FE, 0x9BDC06A7, 0xC19BF174,
    0xE49B69C1, 0xEFBE4786, 0x0FC19DC6, 0x240CA1CC,
    0x2DE92C6F, 0x4A7484AA, 0x5CB0A9DC, 0x76F988DA,
    0x983E5152, 0xA831C66D, 0xB00327C8, 0xBF597FC7,
    0xC6E00BF3, 0xD5A79147, 0x06CA6351, 0x14292967,
    0x27B70A85, 0x2E1B2138, 0x4D2C6DFC, 0x53380D13,
    0x650A7354, 0x766A0ABB, 0x81C2C92E, 0x92722C85,
    0xA2BFE8A1, 0xA81A664B, 0xC24B8B70, 0xC76C51A3,
    0xD192E819, 0xD6990624, 0xF40E3585, 0x106AA070,
    0x19A4C116, 0x1E376C08, 0x2748774C, 0x34B0BCB5,
    0x391C0CB3, 0x4ED8AA4A, 0x5B9CCA4F, 0x682E6FF3,
    0x748F82EE, 0x78A5636F, 0x84C87814, 0x8CC70208,
    0x90BEFFFA, 0xA4506CEB, 0xBEF9A3F7, 0xC67178F2]"

definition be32_load :: "byte list \<Rightarrow> u32" where
  "be32_load b = push_bit 24 (ucast (b ! 0)) OR push_bit 16 (ucast (b ! 1)) OR
                 push_bit 8 (ucast (b ! 2)) OR ucast (b ! 3)"

text \<open>The loop \<^verbatim>\<open>for (i = 16; i < 64; i++)\<close> on the schedule array, \<open>W\<close> growing by one.\<close>

definition schedule_step :: "u32 list \<Rightarrow> u32 list" where
  "schedule_step W =
     (let i = length W;
          s0 = ROTR32 (W ! (i - 15)) 7 XOR ROTR32 (W ! (i - 15)) 18 XOR drop_bit 3 (W ! (i - 15));
          s1 = ROTR32 (W ! (i - 2)) 17 XOR ROTR32 (W ! (i - 2)) 19 XOR drop_bit 10 (W ! (i - 2))
      in W @ [W ! (i - 16) + s0 + W ! (i - 7) + s1])"

definition sha256_schedule :: "byte list \<Rightarrow> u32 list" where
  "sha256_schedule block =
     (schedule_step ^^ 48) (map (\<lambda>i. be32_load (drop (4 * i) block)) [0..<16])"

type_synonym working = "u32 \<times> u32 \<times> u32 \<times> u32 \<times> u32 \<times> u32 \<times> u32 \<times> u32"

fun sha256_round :: "u32 \<times> u32 \<Rightarrow> working \<Rightarrow> working" where
  "sha256_round (k, w) (a, b, c, d, e, f, g, h) =
     (let s1 = ROTR32 e 6 XOR ROTR32 e 11 XOR ROTR32 e 25;
          t1 = h + s1 + ((e AND f) XOR (NOT e AND g)) + k + w;
          s0 = ROTR32 a 2 XOR ROTR32 a 13 XOR ROTR32 a 22;
          t2 = s0 + ((a AND b) XOR (a AND c) XOR (b AND c))
      in (t1 + t2, a, b, c, d + t1, e, f, g))"

fun load_working :: "u32 list \<Rightarrow> working" where
  "load_working [a, b, c, d, e, f, g, h] = (a, b, c, d, e, f, g, h)"
| "load_working _ = (0, 0, 0, 0, 0, 0, 0, 0)"

fun add_working :: "u32 list \<Rightarrow> working \<Rightarrow> u32 list" where
  "add_working [s0, s1, s2, s3, s4, s5, s6, s7] (a, b, c, d, e, f, g, h) =
     [s0 + a, s1 + b, s2 + c, s3 + d, s4 + e, s5 + f, s6 + g, s7 + h]"
| "add_working s _ = s"

definition sha256_compress :: "u32 list \<Rightarrow> byte list \<Rightarrow> u32 list" where
  "sha256_compress st block =
     add_working st (fold sha256_round (zip sha256_K (sha256_schedule block)) (load_working st))"

section \<open>The streaming context\<close>

record sha256_raw_ctx =
  ctx_state :: "u32 list"
  ctx_length :: u64
  ctx_curlen :: nat
  ctx_buf :: "byte list"

definition sha256_raw_ctx_init :: "sha256_raw_ctx \<Rightarrow> sha256_raw_ctx" where
  "sha256_raw_ctx_init ctx = ctx\<lparr>ctx_state := sha256_H0, ctx_length := 0, ctx_curlen := 0\<rparr>"

text \<open>A cleared context: \<^verbatim>\<open>memset(ctx, 0, sizeof(*ctx))\<close>.\<close>

definition sha256_ctx_zero :: sha256_raw_ctx where
  "sha256_ctx_zero = \<lparr>ctx_state = replicate 8 0, ctx_length = 0, ctx_curlen = 0,
                      ctx_buf = replicate 64 0\<rparr>"

text \<open>
  The loop of \<^verbatim>\<open>update\<close>. It is never entered with a full buffer (\<open>sha_inv\<close> below), where
  the C loop would make no progress; the guard \<open>64 \<le> ctx_curlen ctx\<close> only makes the
  recursion total.
\<close>

definition sha256_full_block :: "sha256_raw_ctx \<Rightarrow> byte list \<Rightarrow> sha256_raw_ctx" where
  "sha256_full_block ctx block =
     ctx\<lparr>ctx_state := sha256_compress (ctx_state ctx) block, ctx_length := ctx_length ctx + 512\<rparr>"

definition sha256_buffer :: "sha256_raw_ctx \<Rightarrow> byte list \<Rightarrow> sha256_raw_ctx" where
  "sha256_buffer ctx xs =
     (let ctx' = ctx\<lparr>ctx_buf := put (ctx_buf ctx) (ctx_curlen ctx) xs,
                     ctx_curlen := ctx_curlen ctx + length xs\<rparr>
      in if ctx_curlen ctx' = 64
         then (sha256_full_block ctx' (ctx_buf ctx'))\<lparr>ctx_curlen := 0\<rparr>
         else ctx')"

function sha256_raw_ctx_update :: "sha256_raw_ctx \<Rightarrow> byte list \<Rightarrow> sha256_raw_ctx" where
  "sha256_raw_ctx_update ctx data =
     (if data = [] \<or> 64 \<le> ctx_curlen ctx then ctx
      else if ctx_curlen ctx = 0 \<and> 64 \<le> length data
      then sha256_raw_ctx_update (sha256_full_block ctx (take 64 data)) (drop 64 data)
      else let n = min (64 - ctx_curlen ctx) (length data)
           in sha256_raw_ctx_update (sha256_buffer ctx (take n data)) (drop n data))"
  by pat_completeness auto
termination
  by (relation "measure (\<lambda>(ctx, data). length data)") auto

declare sha256_raw_ctx_update.simps [simp del]

definition be32_bytes :: "u32 \<Rightarrow> byte list" where
  "be32_bytes w = [ucast (drop_bit 24 w), ucast (drop_bit 16 w), ucast (drop_bit 8 w), ucast w]"

definition be64_bytes :: "u64 \<Rightarrow> byte list" where
  "be64_bytes w = [ucast (drop_bit 56 w), ucast (drop_bit 48 w), ucast (drop_bit 40 w),
     ucast (drop_bit 32 w), ucast (drop_bit 24 w), ucast (drop_bit 16 w), ucast (drop_bit 8 w), ucast w]"

definition sha256_raw_ctx_final :: "sha256_raw_ctx \<Rightarrow> byte list \<times> sha256_raw_ctx" where
  "sha256_raw_ctx_final ctx =
     (let len = ctx_length ctx + of_nat (ctx_curlen ctx) * 8;
          buf = put (ctx_buf ctx) (ctx_curlen ctx) [0x80];
          cur = ctx_curlen ctx + 1;
          (st, cur, buf) =
            (if 56 < cur
             then let buf = put buf cur (replicate (64 - cur) 0)
                  in (sha256_compress (ctx_state ctx) buf, 0, buf)
             else (ctx_state ctx, cur, buf));
          buf = put buf cur (replicate (56 - cur) 0);
          buf = put buf 56 (be64_bytes len);
          st = sha256_compress st buf
      in (concat (map be32_bytes st), sha256_ctx_zero))"

definition sha256_raw :: "byte list \<Rightarrow> byte list" where
  "sha256_raw msg =
     fst (sha256_raw_ctx_final (sha256_raw_ctx_update (sha256_raw_ctx_init sha256_ctx_zero) msg))"

section \<open>The code's compression is the standard's\<close>

lemma ROTR32_rotr: "0 < n \<Longrightarrow> n < 32 \<Longrightarrow> ROTR32 x n = word_rotr n x"
proof (rule bit_word_eqI)
  fix m assume n: "0 < n" "n < 32" and "m < LENGTH(32)"
  then have m: "m < 32" by simp
  show "bit (ROTR32 x n) m = bit (word_rotr n x) m"
  proof (cases "m + n < 32")
    case True
    with m n show ?thesis
      by (auto simp: ROTR32_def bit_simps mod_less add.commute)
  next
    case False
    then have "(m + n) mod 32 = m + n - 32"
      using m n by (simp add: mod_if)
    with False m n show ?thesis
      by (auto simp: ROTR32_def bit_simps add.commute dest: bit_imp_le_length)
  qed
qed

lemma be32_load_fips: "be32_load bs = fips_word bs"
proof (rule bit_word_eqI)
  fix n assume "n < LENGTH(32)"
  then have "n < 32" by simp
  then show "bit (be32_load bs) n = bit (fips_word bs) n"
    by (cases rule: less_32E)
       (auto simp: be32_load_def fips_word_def bit_word_cat_iff bit_or_iff bit_push_bit_iff
          bit_unsigned_iff dest: bit_imp_le_length)
qed

lemma constants_fips: "sha256_H0 = fips_H0" "sha256_K = fips_K"
  by (simp_all add: sha256_H0_def fips_H0_eq sha256_K_def fips_K_eq)

lemma length_8E:
  assumes "length xs = 8"
  obtains a b c d e f g h where "xs = [a, b, c, d, e, f, g, h]"
  using assms by (auto simp: numeral_eq_Suc length_Suc_conv)

lemma compress_fips:
  assumes "length st = 8"
  shows "sha256_compress st block = fips_compress st block"
proof -
  have W: "(schedule_step ^^ k) (map (\<lambda>i. be32_load (drop (4 * i) block)) [0..<16])
      = map (fips_W block) [0..<16 + k]" for k
  proof (induction k)
    case 0
    have "be32_load (drop (4 * i) block) = fips_W block i" if "i < 16" for i
      using that by (subst fips_W.simps) (simp add: be32_load_fips)
    then show ?case by simp
  next
    case (Suc k)
    have "fips_W block (16 + k) = fips_W block k
        + fips_sigma0 (fips_W block (Suc k)) + fips_W block (9 + k) + fips_sigma1 (fips_W block (14 + k))"
      by (subst fips_W.simps) (simp add: ac_simps)
    moreover have upt: "[0..<16 + Suc k] = [0..<16 + k] @ [16 + k]"
      by (simp only: add_Suc_right upt_Suc) simp
    ultimately have "schedule_step (map (fips_W block) [0..<16 + k]) = map (fips_W block) [0..<16 + Suc k]"
      unfolding upt by (simp add: schedule_step_def Let_def ROTR32_rotr fips_sigma0_def fips_sigma1_def)
    then show ?case by (simp add: Suc.IH)
  qed
  have K: "length sha256_K = 64" by (simp add: constants_fips)
  have "zip sha256_K (map (fips_W block) [0..<64]) = map (\<lambda>t. (sha256_K ! t, fips_W block t)) [0..<64]"
    by (rule nth_equalityI) (simp_all add: K del: upt_Suc)
  moreover have "sha256_schedule block = map (fips_W block) [0..<64]"
    using W [of 48] by (simp add: sha256_schedule_def)
  moreover have "sha256_round (sha256_K ! t, w t) x = fips_round w t x" for t w x
    by (cases x; cases "snd (snd (snd (snd (snd (snd x)))))")
       (simp add: ROTR32_rotr fips_Sigma0_def fips_Sigma1_def fips_Ch_def fips_Maj_def constants_fips Let_def)
  then have round: "(\<lambda>t. sha256_round (sha256_K ! t, w t)) = fips_round w" for w by blast
  moreover obtain s0 s1 s2 s3 s4 s5 s6 s7 where st: "st = [s0, s1, s2, s3, s4, s5, s6, s7]" using assms by (rule length_8E)
  ultimately show ?thesis
    by (simp add: sha256_compress_def fips_compress_def fold_map comp_def ac_simps split: prod.split)
qed

text \<open>And the code's byte order.\<close>

lemma byte_of_nat: "(ucast (drop_bit (8 * j) (of_nat n :: 'a::len word)) :: byte) = of_nat (n div 256 ^ j)"
  if "8 * j + 8 \<le> LENGTH('a)"
proof (rule bit_word_eqI)
  fix i assume "i < LENGTH(8)"
  moreover have "(256 :: nat) ^ j = 2 ^ (8 * j)" by (simp add: power_mult)
  ultimately show "bit (ucast (drop_bit (8 * j) (of_nat n :: 'a word)) :: byte) i = bit (of_nat (n div 256 ^ j) :: byte) i"
    using that by (simp add: bit_simps flip: drop_bit_eq_div)
qed

lemma bytes_fips: "be32_bytes w = fips_bytes 4 (unat w)" "be64_bytes (of_nat n) = fips_bytes 8 n"
proof -
  have "[0..<4] = [0, 1, 2, 3]" "[0..<8] = [0, 1, 2, 3, 4, 5, 6, 7]" by (simp_all add: upt_conv_Cons)
  then show "be32_bytes w = fips_bytes 4 (unat w)" "be64_bytes (of_nat n) = fips_bytes 8 n"
    using byte_of_nat [of 0 "unat w", where 'a = 32] byte_of_nat [of 1 "unat w", where 'a = 32] byte_of_nat [of 2 "unat w", where 'a = 32]
      byte_of_nat [of 3 "unat w", where 'a = 32] byte_of_nat [of 0 n, where 'a = 64] byte_of_nat [of 1 n, where 'a = 64]
      byte_of_nat [of 2 n, where 'a = 64] byte_of_nat [of 3 n, where 'a = 64] byte_of_nat [of 4 n, where 'a = 64]
      byte_of_nat [of 5 n, where 'a = 64] byte_of_nat [of 6 n, where 'a = 64] byte_of_nat [of 7 n, where 'a = 64]
    by (simp_all add: be32_bytes_def be64_bytes_def fips_bytes_def)
qed

section \<open>The streaming context against the standard\<close>

lemma sha_absorb_Nil [simp]: "sha_absorb f st [] = st"
  by (simp add: sha_absorb.simps)

lemma sha_absorb_block: "length b = 64 \<Longrightarrow> sha_absorb f st (b @ rest) = sha_absorb f (f st b) rest"
  by (simp add: sha_absorb.simps [of f st "b @ rest"])

lemma sha_absorb_append:
  "length full = 64 * k \<Longrightarrow> sha_absorb f st (full @ rest) = sha_absorb f (sha_absorb f st full) rest"
proof (induction k arbitrary: st full)
  case 0
  then show ?case by simp
next
  case (Suc k)
  define b where "b = take 64 full"
  have b: "full = b @ drop 64 full" "length b = 64" "length (drop 64 full) = 64 * k"
    using Suc.prems by (auto simp: b_def)
  have "sha_absorb f st (full @ rest) = sha_absorb f (f st b) (drop 64 full @ rest)"
    using sha_absorb_block [OF b(2), of f st "drop 64 full @ rest"]
    by (simp only: append_assoc [symmetric] b(1) [symmetric])
  moreover have "sha_absorb f st full = sha_absorb f (f st b) (drop 64 full)"
    using sha_absorb_block [OF b(2), of f st "drop 64 full"] b(1) by simp
  ultimately show ?case by (simp only: Suc.IH [OF b(3)])
qed

text \<open>
  The context holds the state after the whole blocks \<open>full\<close> and, in the buffer, the bytes
  \<open>pend\<close> that follow them.
\<close>

definition sha_inv :: "sha256_raw_ctx \<Rightarrow> byte list \<Rightarrow> byte list \<Rightarrow> bool" where
  "sha_inv ctx full pend \<longleftrightarrow>
     length (ctx_buf ctx) = 64 \<and> length pend < 64 \<and> 64 dvd length full \<and>
     ctx_curlen ctx = length pend \<and> take (length pend) (ctx_buf ctx) = pend \<and>
     ctx_state ctx = sha_absorb sha256_compress sha256_H0 full \<and>
     ctx_length ctx = of_nat (8 * length full)"

definition absorbed :: "sha256_raw_ctx \<Rightarrow> byte list \<Rightarrow> bool" where
  "absorbed ctx msg \<longleftrightarrow> (\<exists>full pend. msg = full @ pend \<and> sha_inv ctx full pend)"

lemma absorb_fips: "length st = 8 \<Longrightarrow> sha_absorb sha256_compress st bs = sha_absorb fips_compress st bs"
proof (induction sha256_compress st bs rule: sha_absorb.induct)
  case (1 st bs)
  then show ?case
    unfolding sha_absorb.simps [of sha256_compress st bs] sha_absorb.simps [of fips_compress st bs]
    by (simp add: compress_fips fips_compress_length)
qed

lemma absorbed_init: "length (ctx_buf ctx) = 64 \<Longrightarrow> absorbed (sha256_raw_ctx_init ctx) []"
  by (simp add: absorbed_def sha_inv_def sha256_raw_ctx_init_def)

lemma sha_inv_full_block:
  assumes "sha_inv ctx full []" "length b = 64"
  shows "sha_inv (sha256_full_block ctx b) (full @ b) []"
proof -
  from assms(1) obtain k where k: "length full = 64 * k" by (auto simp: sha_inv_def)
  show ?thesis
    using assms sha_absorb_append [OF k, of sha256_compress sha256_H0 b] sha_absorb_block [of b _ _ "[]"]
    by (simp add: sha_inv_def sha256_full_block_def k algebra_simps)
qed

lemma sha_inv_buffer:
  assumes inv: "sha_inv ctx full pend" and len: "length pend + length xs \<le> 64"
  shows "if length pend + length xs = 64 then sha_inv (sha256_buffer ctx xs) (full @ pend @ xs) []
         else sha_inv (sha256_buffer ctx xs) full (pend @ xs)"
proof -
  let ?buf = "put (ctx_buf ctx) (length pend) xs"
  have t: "take (length pend + length xs) ?buf = pend @ xs"
    using inv by (simp add: sha_inv_def)
  show ?thesis
  proof (cases "length pend + length xs = 64")
    case True
    with t inv have "?buf = pend @ xs" by (simp add: sha_inv_def)
    moreover from inv obtain k where k: "length full = 64 * k" by (auto simp: sha_inv_def)
    ultimately show ?thesis
      using True inv sha_absorb_append [OF k, of sha256_compress sha256_H0 "pend @ xs"]
        sha_absorb_block [of "pend @ xs" _ _ "[]"]
      by (simp add: sha_inv_def sha256_buffer_def sha256_full_block_def k algebra_simps Let_def)
  next
    case False
    with t inv len show ?thesis by (simp add: sha_inv_def sha256_buffer_def)
  qed
qed

lemma absorbed_update: "absorbed ctx msg \<Longrightarrow> absorbed (sha256_raw_ctx_update ctx data) (msg @ data)"
proof (induction ctx data arbitrary: msg rule: sha256_raw_ctx_update.induct)
  case (1 ctx data)
  from "1.prems" obtain full pend where msg: "msg = full @ pend" and inv: "sha_inv ctx full pend"
    by (auto simp: absorbed_def)
  then have cur: "ctx_curlen ctx = length pend" "length pend < 64" by (auto simp: sha_inv_def)
  show ?case
  proof (cases "data = []")
    case True
    with "1.prems" show ?thesis by (simp add: sha256_raw_ctx_update.simps)
  next
    case ne: False
    show ?thesis
    proof (cases "ctx_curlen ctx = 0 \<and> 64 \<le> length data")
      case True
      then have "sha_inv (sha256_full_block ctx (take 64 data)) (full @ take 64 data) []"
        using inv cur by (intro sha_inv_full_block) auto
      then have "absorbed (sha256_full_block ctx (take 64 data)) (msg @ take 64 data)"
        using msg True cur by (auto simp: absorbed_def)
      with "1.IH"(1) ne True cur show ?thesis
        by (subst sha256_raw_ctx_update.simps) fastforce
    next
      case False
      define n where "n = min (64 - ctx_curlen ctx) (length data)"
      have "length pend + length (take n data) \<le> 64" using cur by (simp add: n_def)
      note buf = sha_inv_buffer [OF inv this]
      then have "absorbed (sha256_buffer ctx (take n data)) (msg @ take n data)"
        using msg by (auto simp: absorbed_def split: if_splits)
      then have "absorbed (sha256_raw_ctx_update (sha256_buffer ctx (take n data)) (drop n data))
          ((msg @ take n data) @ drop n data)"
        by (intro "1.IH"(2) [OF _ _ n_def]) (use ne False cur in auto)
      then have "absorbed (sha256_raw_ctx_update (sha256_buffer ctx (take n data)) (drop n data))
          (msg @ data)"
        by simp
      moreover have "sha256_raw_ctx_update ctx data
          = sha256_raw_ctx_update (sha256_buffer ctx (take n data)) (drop n data)"
        using ne False cur by (subst sha256_raw_ctx_update.simps) (simp only: n_def Let_def, simp)
      ultimately show ?thesis by simp
    qed
  qed
qed

lemma length_be64_bytes [simp, sizes]: "length (be64_bytes w) = 8"
  by (simp add: be64_bytes_def)

lemma length_be32_bytes [simp, sizes]: "length (be32_bytes w) = 4"
  by (simp add: be32_bytes_def)

text \<open>The bit count of \<open>final\<close> is that of the whole message.\<close>

lemma sha_inv_length:
  "sha_inv ctx full pend \<Longrightarrow>
   ctx_length ctx + of_nat (ctx_curlen ctx) * 8 = of_nat (8 * length (full @ pend))"
  by (simp add: sha_inv_def algebra_simps)

lemma sha_pad_blocks:
  assumes "64 dvd length full" "length pend < 64"
  shows "sha_pad (full @ pend) = full @ pend @ [0x80] @
    replicate (if length pend < 56 then 55 - length pend else 119 - length pend) 0 @
    fips_bytes 8 (8 * length (full @ pend))"
proof -
  have "(length full + length pend) mod 64 = length pend" using assms by auto
  moreover have "(119 - length pend) mod 64 = (if length pend < 56 then 55 - length pend else 119 - length pend)"
    using assms(2) by (auto simp: mod_if)
  ultimately show ?thesis by (simp add: sha_pad_def)
qed

lemma put_end: "take off buf = a \<Longrightarrow> off + length xs = length buf \<Longrightarrow> put buf off xs = a @ xs"
  by (simp add: put_def)

lemma put_after: "take off buf = a \<Longrightarrow> off + length xs \<le> length buf \<Longrightarrow> take (off + length xs) (put buf off xs) = a @ xs"
  by simp

lemma final_digest:
  assumes "absorbed ctx msg"
  shows "sha256_raw_ctx_final ctx = (sha_spec msg, sha256_ctx_zero)"
proof -
  from assms obtain full pend where msg: "msg = full @ pend" and inv: "sha_inv ctx full pend"
    by (auto simp: absorbed_def)
  then obtain k where k: "length full = 64 * k" and lp: "length pend < 64"
    and cur: "ctx_curlen ctx = length pend" and buf: "length (ctx_buf ctx) = 64"
    and tk: "take (length pend) (ctx_buf ctx) = pend"
    and st: "ctx_state ctx = sha_absorb sha256_compress sha256_H0 full"
    by (auto simp: sha_inv_def)
  define len where "len = be64_bytes (of_nat (8 * length msg))"
  have len_fips: "len = fips_bytes 8 (8 * length msg)" unfolding len_def by (rule bytes_fips)
  have st8: "length (ctx_state ctx) = 8" by (simp add: st absorb_fips length_sha_absorb constants_fips)
  define b1 where "b1 = put (ctx_buf ctx) (length pend) [0x80]"
  have b1: "length b1 = 64" "take (length pend + 1) b1 = pend @ [0x80]"
    using buf lp tk by (auto simp: b1_def put_def)
  have pad: "sha_pad msg = full @ pend @ [0x80] @
      replicate (if length pend < 56 then 55 - length pend else 119 - length pend) 0 @ len"
    using sha_pad_blocks [of full pend] k lp by (simp add: msg len_fips)
  have spec: "sha_spec msg = concat (map be32_bytes (sha_absorb sha256_compress (ctx_state ctx)
      (pend @ [0x80] @ replicate (if length pend < 56 then 55 - length pend else 119 - length pend) 0 @ len)))"
    using sha_absorb_append [OF k, of fips_compress fips_H0]
    by (simp add: sha_spec_def pad absorb_fips [OF st8] flip: bytes_fips(1)) (simp add: st absorb_fips constants_fips)
  show ?thesis
  proof (cases "length pend < 56")
    case True
    have "take 56 (put b1 (length pend + 1) (replicate (55 - length pend) 0))
        = pend @ [0x80] @ replicate (55 - length pend) 0"
      using b1 True put_after [of "length pend + 1" b1 _ "replicate (55 - length pend) 0"] by simp
    then have "put (put b1 (length pend + 1) (replicate (55 - length pend) 0)) 56 len
        = pend @ [0x80] @ replicate (55 - length pend) 0 @ len"
      using b1 True by (subst put_end) (auto simp: len_def)
    then show ?thesis
      using True sha_inv_length [OF inv] sha_absorb_block [of "pend @ [0x80] @ replicate (55 - length pend) 0 @ len" _ _ "[]"]
      by (simp add: sha256_raw_ctx_final_def cur Let_def spec b1_def [symmetric] msg [symmetric] len_def [symmetric])
         (simp add: len_def)
  next
    case False
    define b2 where "b2 = put b1 (length pend + 1) (replicate (63 - length pend) 0)"
    have b2: "b2 = pend @ [0x80] @ replicate (63 - length pend) 0" "length b2 = 64"
      using b1 lp False by (auto simp: b2_def put_end)
    have b3: "put (put b2 0 (replicate 56 0)) 56 len = replicate 56 0 @ len"
      using b2(2) by (subst put_end) (auto simp: len_def put_def)
    have "replicate (119 - length pend) (0::byte) = replicate (63 - length pend) 0 @ replicate 56 0"
      using False lp by (simp flip: replicate_add)
    then have e: "pend @ [0x80] @ replicate (if length pend < 56 then 55 - length pend else 119 - length pend) 0
        @ len = b2 @ (replicate 56 0 @ len)"
      using False by (simp add: b2(1))
    have "sha_absorb sha256_compress s (b2 @ (replicate 56 0 @ len))
        = sha256_compress (sha256_compress s b2) (replicate 56 0 @ len)" for s
      using sha_absorb_block [OF b2(2)] sha_absorb_block [of "replicate 56 0 @ len" _ _ "[]"]
      by (simp add: len_def)
    then have "sha_spec msg = concat (map be32_bytes
        (sha256_compress (sha256_compress (ctx_state ctx) b2) (replicate 56 0 @ len)))"
      by (simp only: spec e)
    moreover have "sha256_raw_ctx_final ctx = (concat (map be32_bytes
        (sha256_compress (sha256_compress (ctx_state ctx) b2) (put (put b2 0 (replicate 56 0)) 56 len))),
        sha256_ctx_zero)"
      using False sha_inv_length [OF inv]
      by (simp add: sha256_raw_ctx_final_def cur Let_def b1_def b2_def len_def msg algebra_simps)
    ultimately show ?thesis by (simp add: b3)
  qed
qed

section \<open>The interface: streaming hashes\<close>

text \<open>
  What HMAC and the tag digest of the blob store rely on: a context absorbs pieces, and
  finalising it gives the hash of everything absorbed since \<open>init\<close>.
\<close>

locale stream_hash =
  fixes init :: "'c \<Rightarrow> 'c" and upd :: "'c \<Rightarrow> byte list \<Rightarrow> 'c" and fin :: "'c \<Rightarrow> byte list \<times> 'c"
    and good :: "'c \<Rightarrow> bool" and holds :: "'c \<Rightarrow> byte list \<Rightarrow> bool"
    and H :: "byte list \<Rightarrow> byte list" and size :: nat
  assumes holds_init: "good c \<Longrightarrow> holds (init c) []"
    and holds_upd: "holds c m \<Longrightarrow> holds (upd c xs) (m @ xs)"
    and fin_digest: "holds c m \<Longrightarrow> fst (fin c) = H m"
    and good_fin: "good (snd (fin c))"
    and H_length: "length (H m) = size"
begin

lemma holds_fold: "holds c m \<Longrightarrow> holds (fold (\<lambda>xs c. upd c xs) pieces c) (m @ concat pieces)"
proof (induction pieces arbitrary: c m)
  case Nil
  then show ?case by simp
next
  case (Cons xs pieces)
  from Cons.IH [OF holds_upd [OF Cons.prems]] show ?case by simp
qed

lemma fin_pieces: "good c \<Longrightarrow> fst (fin (fold (\<lambda>xs c. upd c xs) pieces (init c))) = H (concat pieces)"
  using holds_fold [OF holds_init] fin_digest by fastforce

lemma fin_one: "good c \<Longrightarrow> fst (fin (upd (init c) xs)) = H xs"
  using fin_pieces [of c "[xs]"] by simp

end

definition sha_ready :: "sha256_raw_ctx \<Rightarrow> bool" where
  "sha_ready ctx \<longleftrightarrow> length (ctx_buf ctx) = 64"

lemma snd_final [simp]: "snd (sha256_raw_ctx_final ctx) = sha256_ctx_zero"
  by (simp add: sha256_raw_ctx_final_def Let_def split_def)

lemma sha_ready_zero [simp]: "sha_ready sha256_ctx_zero"
  by (simp add: sha_ready_def sha256_ctx_zero_def)

lemma sha_ready_init [simp]: "sha_ready (sha256_raw_ctx_init ctx) = sha_ready ctx"
  by (simp add: sha_ready_def sha256_raw_ctx_init_def)

lemma sha_ready_update: "sha_ready ctx \<Longrightarrow> sha_ready (sha256_raw_ctx_update ctx data)"
proof (induction ctx data rule: sha256_raw_ctx_update.induct)
  case (1 ctx data)
  have full: "sha_ready (sha256_full_block ctx b)" for b
    using "1.prems" by (simp add: sha_ready_def sha256_full_block_def)
  have buf: "sha_ready (sha256_buffer ctx xs)" if "ctx_curlen ctx + length xs \<le> 64" for xs
    using "1.prems" that by (simp add: sha_ready_def sha256_buffer_def sha256_full_block_def Let_def)
  show ?case
  proof (cases "data = [] \<or> 64 \<le> ctx_curlen ctx")
    case True
    with "1.prems" show ?thesis by (subst sha256_raw_ctx_update.simps) simp
  next
    case False
    then have "sha_ready (sha256_buffer ctx (take (min (64 - ctx_curlen ctx) (length data)) data))"
      by (intro buf) auto
    with "1.IH" False full show ?thesis by (subst sha256_raw_ctx_update.simps) (auto simp: Let_def)
  qed
qed

interpretation sha: stream_hash sha256_raw_ctx_init sha256_raw_ctx_update sha256_raw_ctx_final
    sha_ready absorbed sha_spec 32
  by unfold_locales
     (auto simp: absorbed_init absorbed_update final_digest sha_ready_def sha256_ctx_zero_def)

lemma sha256_raw_spec: "sha256_raw msg = sha_spec msg"
  by (simp add: sha256_raw_def sha.fin_one)

section \<open>Properties\<close>

text \<open>
  C29: However a message is cut into pieces for \<^verbatim>\<open>update\<close>, and whatever an earlier use left in
  the context's buffer, the digest is the FIPS 180-4 SHA-256 of the whole message.
\<close>

theorem sha256_any_split:
  assumes "sha_ready ctx"
  shows "fst (sha256_raw_ctx_final (fold (\<lambda>xs c. sha256_raw_ctx_update c xs) pieces (sha256_raw_ctx_init ctx)))
    = sha_spec (concat pieces)"
  by (rule sha.fin_pieces [OF assms])

lemma sha256_any_split_witness:
  "sha_ready sha256_ctx_zero \<and>
   fst (sha256_raw_ctx_final (fold (\<lambda>xs c. sha256_raw_ctx_update c xs) [[1, 2], [], [3]]
     (sha256_raw_ctx_init sha256_ctx_zero))) = sha_spec [1, 2, 3]"
  using sha256_any_split [of sha256_ctx_zero "[[1, 2], [], [3]]"] by simp

end
