(* ===== verification/Hmac.thy ===== *)
theory Hmac
  imports Sha256
begin

text \<open>
  HMAC-SHA-256 and HKDF of \<^verbatim>\<open>firmware/src/sha256_raw.c\<close>: the streaming HMAC context
  (\<^verbatim>\<open>hmac_sha256_raw_ctx_t\<close>, an inner and an outer SHA-256 context), the one-shot
  \<^verbatim>\<open>hmac_sha256_raw\<close>, and \<^verbatim>\<open>hkdf_extract_sha256\<close> / \<^verbatim>\<open>hkdf_expand_sha256\<close>. The static pads
  and contexts are cleared by the code between calls and enter here as their cleared values.

  The references are RFC 2104 (\<open>hmac_spec\<close>) and RFC 5869 (\<open>hkdf_expand_spec\<close>). HMAC with
  a fixed key is again a streaming hash: it interprets the interface of \<^verbatim>\<open>Sha256\<close>.
\<close>

section \<open>HMAC\<close>

record hmac_sha256_raw_ctx =
  hmac_inner :: sha256_raw_ctx
  hmac_outer :: sha256_raw_ctx

definition hmac_ctx_zero :: hmac_sha256_raw_ctx where
  "hmac_ctx_zero = \<lparr>hmac_inner = sha256_ctx_zero, hmac_outer = sha256_ctx_zero\<rparr>"

definition hmac_key_pad :: "byte list \<Rightarrow> byte list" where
  "hmac_key_pad key =
     (let pad = replicate 64 0
      in if 64 < length key
         then put pad 0 (fst (sha256_raw_ctx_final
                (sha256_raw_ctx_update (sha256_raw_ctx_init sha256_ctx_zero) key)))
         else put pad 0 key)"

definition hmac_sha256_raw_init :: "hmac_sha256_raw_ctx \<Rightarrow> byte list \<Rightarrow> hmac_sha256_raw_ctx" where
  "hmac_sha256_raw_init ctx key =
     (let pad = map (\<lambda>b. b XOR 0x36) (hmac_key_pad key);
          inner = sha256_raw_ctx_update (sha256_raw_ctx_init (hmac_inner ctx)) pad;
          pad = map (\<lambda>b. b XOR 0x6a) pad;
          outer = sha256_raw_ctx_update (sha256_raw_ctx_init (hmac_outer ctx)) pad
      in ctx\<lparr>hmac_inner := inner, hmac_outer := outer\<rparr>)"

definition hmac_sha256_raw_update :: "hmac_sha256_raw_ctx \<Rightarrow> byte list \<Rightarrow> hmac_sha256_raw_ctx" where
  "hmac_sha256_raw_update ctx data = ctx\<lparr>hmac_inner := sha256_raw_ctx_update (hmac_inner ctx) data\<rparr>"

definition hmac_sha256_raw_final :: "hmac_sha256_raw_ctx \<Rightarrow> byte list \<times> hmac_sha256_raw_ctx" where
  "hmac_sha256_raw_final ctx =
     (let (inner_hash, _) = sha256_raw_ctx_final (hmac_inner ctx);
          (mac, _) = sha256_raw_ctx_final (sha256_raw_ctx_update (hmac_outer ctx) inner_hash)
      in (mac, hmac_ctx_zero))"

definition hmac_sha256_raw :: "byte list \<Rightarrow> byte list \<Rightarrow> byte list" where
  "hmac_sha256_raw key msg =
     fst (hmac_sha256_raw_final (hmac_sha256_raw_update (hmac_sha256_raw_init hmac_ctx_zero key) msg))"

text \<open>RFC 2104, with the block size 64 of SHA-256.\<close>

definition hmac_K0 :: "byte list \<Rightarrow> byte list" where
  "hmac_K0 key = (let k = if 64 < length key then sha_spec key else key
                  in k @ replicate (64 - length k) 0)"

definition hmac_spec :: "byte list \<Rightarrow> byte list \<Rightarrow> byte list" where
  "hmac_spec key msg =
     sha_spec (map (\<lambda>b. b XOR 0x5c) (hmac_K0 key) @
               sha_spec (map (\<lambda>b. b XOR 0x36) (hmac_K0 key) @ msg))"

lemma hmac_key_pad_K0: "hmac_key_pad key = hmac_K0 key"
  by (simp add: hmac_key_pad_def hmac_K0_def sha.fin_one put_def)

lemma xor_6a_36: "(b XOR 0x36) XOR 0x6a = (b XOR 0x5c :: byte)"
  by (simp add: xor.assoc)

definition hmac_ready :: "hmac_sha256_raw_ctx \<Rightarrow> bool" where
  "hmac_ready ctx \<longleftrightarrow> sha_ready (hmac_inner ctx) \<and> sha_ready (hmac_outer ctx)"

text \<open>The contexts of an HMAC under \<open>key\<close> that has been fed \<open>msg\<close>.\<close>

definition hmac_holds :: "byte list \<Rightarrow> hmac_sha256_raw_ctx \<Rightarrow> byte list \<Rightarrow> bool" where
  "hmac_holds key ctx msg \<longleftrightarrow>
     absorbed (hmac_inner ctx) (map (\<lambda>b. b XOR 0x36) (hmac_K0 key) @ msg) \<and>
     absorbed (hmac_outer ctx) (map (\<lambda>b. b XOR 0x5c) (hmac_K0 key))"

lemma hmac_holds_init: "hmac_ready ctx \<Longrightarrow> hmac_holds key (hmac_sha256_raw_init ctx key) []"
  using sha.holds_upd [OF sha.holds_init]
  by (fastforce simp: hmac_holds_def hmac_ready_def hmac_sha256_raw_init_def Let_def hmac_key_pad_K0
      comp_def xor_6a_36)

lemma hmac_holds_update: "hmac_holds key ctx msg \<Longrightarrow> hmac_holds key (hmac_sha256_raw_update ctx xs) (msg @ xs)"
  using sha.holds_upd [of "hmac_inner ctx" _ xs]
  by (fastforce simp: hmac_holds_def hmac_sha256_raw_update_def)

lemma hmac_final_digest:
  "hmac_holds key ctx msg \<Longrightarrow> hmac_sha256_raw_final ctx = (hmac_spec key msg, hmac_ctx_zero)"
  by (auto simp: hmac_holds_def hmac_sha256_raw_final_def hmac_spec_def final_digest split_def
      dest: sha.fin_digest [OF sha.holds_upd])

lemma hmac_ready_zero [simp]: "hmac_ready hmac_ctx_zero"
  by (simp add: hmac_ready_def hmac_ctx_zero_def)

lemma length_hmac_spec [simp, sizes]: "length (hmac_spec key msg) = 32"
  by (simp add: hmac_spec_def)

interpretation hm: stream_hash "\<lambda>ctx. hmac_sha256_raw_init ctx key" hmac_sha256_raw_update
    hmac_sha256_raw_final hmac_ready "hmac_holds key" "hmac_spec key" 32 for key
proof
  show "hmac_ready (snd (hmac_sha256_raw_final c))" for c
    by (simp add: hmac_sha256_raw_final_def split_def)
qed (auto simp: hmac_holds_init hmac_holds_update hmac_final_digest)

lemma hmac_sha256_raw_spec: "hmac_sha256_raw key msg = hmac_spec key msg"
  by (simp add: hmac_sha256_raw_def hm.fin_one)

section \<open>HKDF\<close>

text \<open>\<open>None\<close> is the null pointer.\<close>

definition hkdf_extract_sha256 :: "byte list option \<Rightarrow> byte list \<Rightarrow> byte list" where
  "hkdf_extract_sha256 salt ikm =
     (let salt = (case salt of None \<Rightarrow> replicate 32 0
                  | Some s \<Rightarrow> if s = [] then replicate 32 0 else s)
      in hmac_sha256_raw salt ikm)"

text \<open>One block \<open>T(i)\<close>, by the streaming calls of the loop body.\<close>

definition hkdf_block :: "byte list \<Rightarrow> byte list \<Rightarrow> byte \<Rightarrow> byte list \<Rightarrow> byte list" where
  "hkdf_block prk info counter block =
     (let ctx = hmac_sha256_raw_init hmac_ctx_zero prk;
          ctx = if 1 < counter then hmac_sha256_raw_update ctx block else ctx;
          ctx = if info \<noteq> [] then hmac_sha256_raw_update ctx info else ctx;
          ctx = hmac_sha256_raw_update ctx [counter]
      in fst (hmac_sha256_raw_final ctx))"

text \<open>The loop: \<open>left\<close> is \<^verbatim>\<open>out_len - done\<close>; the counter is a byte and wraps.\<close>

function hkdf_expand_loop :: "byte list \<Rightarrow> byte list \<Rightarrow> byte \<Rightarrow> byte list \<Rightarrow> nat \<Rightarrow> byte list" where
  "hkdf_expand_loop prk info counter block left =
     (if left = 0 then []
      else let counter = counter + 1;
               block = hkdf_block prk info counter block;
               n = min left 32
           in take n block @ hkdf_expand_loop prk info counter block (left - n))"
  by pat_completeness auto
termination
  by (relation "measure (\<lambda>(prk, info, counter, block, left). left)") auto

declare hkdf_expand_loop.simps [simp del]

definition hkdf_expand_sha256 :: "byte list \<Rightarrow> byte list \<Rightarrow> nat \<Rightarrow> byte list" where
  "hkdf_expand_sha256 prk info out_len = hkdf_expand_loop prk info 0 (replicate 32 0) out_len"

text \<open>RFC 5869, section 2.3.\<close>

fun hkdf_T :: "byte list \<Rightarrow> byte list \<Rightarrow> nat \<Rightarrow> byte list" where
  "hkdf_T prk info 0 = []"
| "hkdf_T prk info (Suc i) = hmac_spec prk (hkdf_T prk info i @ info @ [of_nat (Suc i)])"

definition hkdf_expand_spec :: "byte list \<Rightarrow> byte list \<Rightarrow> nat \<Rightarrow> byte list" where
  "hkdf_expand_spec prk info L =
     take L (concat (map (hkdf_T prk info) [1..<Suc ((L + 31) div 32)]))"

lemma hkdf_block_spec:
  "hkdf_block prk info counter block =
     hmac_spec prk ((if 1 < counter then block else []) @ info @ [counter])"
proof -
  let ?pieces = "(if 1 < counter then [block] else []) @ (if info \<noteq> [] then [info] else []) @ [[counter]]"
  have "hkdf_block prk info counter block =
      fst (hmac_sha256_raw_final (fold (\<lambda>xs c. hmac_sha256_raw_update c xs) ?pieces
        (hmac_sha256_raw_init hmac_ctx_zero prk)))"
    by (simp add: hkdf_block_def Let_def)
  also have "\<dots> = hmac_spec prk (concat ?pieces)"
    by (rule hm.fin_pieces) simp
  finally show ?thesis by (simp split: if_splits)
qed

lemma length_hkdf_T: "0 < i \<Longrightarrow> length (hkdf_T prk info i) = 32"
  by (cases i) auto

lemma hkdf_block_T: "i < 255 \<Longrightarrow> hkdf_block prk info (of_nat (Suc i)) (if i = 0 then blk else hkdf_T prk info i)
    = hkdf_T prk info (Suc i)"
proof -
  assume "i < 255"
  then have "(1 :: byte) < of_nat (Suc i) \<longleftrightarrow> 0 < i"
    by (simp add: word_less_nat_alt unat_of_nat del: of_nat_Suc)
  then show ?thesis by (simp add: hkdf_block_spec del: of_nat_Suc)
qed

lemma hkdf_expand_loop_spec:
  "i + (left + 31) div 32 \<le> 255 \<Longrightarrow>
   hkdf_expand_loop prk info (of_nat i) (if i = 0 then blk else hkdf_T prk info i) left
     = take left (concat (map (hkdf_T prk info) [Suc i..<Suc i + (left + 31) div 32]))"
proof (induction left arbitrary: i rule: less_induct)
  case (less left)
  show ?case
  proof (cases "left = 0")
    case True
    then show ?thesis by (simp add: hkdf_expand_loop.simps)
  next
    case False
    define n where "n = min left 32"
    have n: "(left + 31) div 32 = Suc ((left - n + 31) div 32)" "n \<le> left" "left - n < left"
      using False by (auto simp: n_def min_def)
    have blk: "hkdf_block prk info (of_nat (Suc i)) (if i = 0 then blk else hkdf_T prk info i)
        = hkdf_T prk info (Suc i)"
      using less.prems n by (intro hkdf_block_T) linarith
    have "hkdf_expand_loop prk info (of_nat i) (if i = 0 then blk else hkdf_T prk info i) left
        = take n (hkdf_T prk info (Suc i)) @
          hkdf_expand_loop prk info (of_nat (Suc i)) (hkdf_T prk info (Suc i)) (left - n)"
      using False blk by (subst hkdf_expand_loop.simps) (simp add: Let_def n_def add.commute del: hkdf_T.simps)
    also have "hkdf_expand_loop prk info (of_nat (Suc i)) (hkdf_T prk info (Suc i)) (left - n)
        = take (left - n) (concat (map (hkdf_T prk info) [Suc (Suc i)..<Suc (Suc i) + (left - n + 31) div 32]))"
      using less.IH [OF n(3), of "Suc i"] less.prems n(1) by (simp del: hkdf_T.simps)
    also have "take n (hkdf_T prk info (Suc i)) @ \<dots> = take left (hkdf_T prk info (Suc i) @
        concat (map (hkdf_T prk info) [Suc (Suc i)..<Suc (Suc i) + (left - n + 31) div 32]))"
      by (cases "left \<le> 32") (auto simp: n_def length_hkdf_T simp del: hkdf_T.simps)
    also have "[Suc i..<Suc i + (left + 31) div 32]
        = Suc i # [Suc (Suc i)..<Suc (Suc i) + (left - n + 31) div 32]"
      using n(1) by (simp add: upt_conv_Cons del: upt_Suc)
    ultimately show ?thesis by (simp del: hkdf_T.simps upt_Suc)
  qed
qed

text \<open>\<^verbatim>\<open>hkdf_expand_sha256\<close> is HKDF-Expand up to the 255 blocks that RFC 5869 allows.\<close>

lemma hkdf_expand_RFC5869: "L \<le> 8160 \<Longrightarrow> hkdf_expand_sha256 prk info L = hkdf_expand_spec prk info L"
  using hkdf_expand_loop_spec [of 0 L prk info "replicate 32 0"]
  by (simp add: hkdf_expand_sha256_def hkdf_expand_spec_def del: upt_Suc)

lemma length_hkdf_expand_loop:
  "length (hkdf_expand_loop prk info counter block left) = left"
proof (induction prk info counter block left rule: hkdf_expand_loop.induct)
  case (1 prk info counter block left)
  show ?case
  proof (cases "left = 0")
    case True
    then show ?thesis by (simp add: hkdf_expand_loop.simps)
  next
    case False
    from "1.IH" [OF False refl refl refl] False show ?thesis
      by (subst hkdf_expand_loop.simps) (simp add: Let_def hkdf_block_spec)
  qed
qed

lemma length_hkdf_expand [simp, sizes]: "length (hkdf_expand_sha256 prk info L) = L"
  by (simp add: hkdf_expand_sha256_def length_hkdf_expand_loop)

text \<open>For one block, which is every call of the firmware: \<open>HMAC(PRK, info || 0x01)\<close>.\<close>

lemma hkdf_expand_block: "hkdf_expand_sha256 prk info 32 = hmac_spec prk (info @ [1])"
proof -
  have "hkdf_expand_spec prk info 32 = hkdf_T prk info (Suc 0)"
    by (simp add: hkdf_expand_spec_def)
  then show ?thesis by (simp add: hkdf_expand_RFC5869)
qed

lemma hkdf_extract_spec:
  "hkdf_extract_sha256 salt ikm = hmac_spec (case salt of Some (b # bs) \<Rightarrow> b # bs | _ \<Rightarrow> replicate 32 0) ikm"
  by (auto simp: hkdf_extract_sha256_def hmac_sha256_raw_spec Let_def split: option.splits list.splits)

section \<open>Properties\<close>

text \<open>
  The streaming HMAC, for a key of any length (longer than a block included) and a
  message in any pieces, is the HMAC of RFC 2104 of the whole message.
\<close>

theorem hmac_any_split:
  assumes "hmac_ready ctx"
  shows "fst (hmac_sha256_raw_final (fold (\<lambda>xs c. hmac_sha256_raw_update c xs) pieces (hmac_sha256_raw_init ctx key)))
    = hmac_spec key (concat pieces)"
  by (rule hm.fin_pieces [OF assms])

lemma hmac_any_split_witness:
  "hmac_ready hmac_ctx_zero \<and>
   fst (hmac_sha256_raw_final (fold (\<lambda>xs c. hmac_sha256_raw_update c xs) [[1], [2, 3]]
     (hmac_sha256_raw_init hmac_ctx_zero (replicate 80 9)))) = hmac_spec (replicate 80 9) [1, 2, 3]"
  using hmac_any_split [of hmac_ctx_zero "[[1], [2, 3]]" "replicate 80 9"] by simp

text \<open>
  C30: HKDF as coded, with its one-byte block counter, is the HKDF-Expand of RFC 5869 up to
  the RFC's limit of 255 blocks, and gives exactly the length asked for.
\<close>

theorem hkdf_expand_is_RFC5869:
  assumes "L \<le> 255 * 32"
  shows "hkdf_expand_sha256 prk info L = hkdf_expand_spec prk info L \<and> length (hkdf_expand_sha256 prk info L) = L"
  by (intro conjI hkdf_expand_RFC5869 length_hkdf_expand) (use assms in simp)

lemma hkdf_expand_is_RFC5869_witness:
  "(42 :: nat) \<le> 255 * 32 \<and> hkdf_expand_sha256 [1] [2] 42 = hkdf_expand_spec [1] [2] 42"
  using hkdf_expand_is_RFC5869 [of 42 "[1]" "[2]"] by simp

end
