(* ===== verification/Platform.thy ===== *)
theory Platform
  imports Prelude
begin

text \<open>
  The code the firmware calls that is not part of the repository, as one parameter of the
  model: the constants that the build generates into \<^verbatim>\<open>secrets.h\<close>, AES-256-GCM of wolfSSL,
  and the flash controller calls of TI's DriverLib. The model's definitions take a \<open>platform\<close>
  as an argument; what the theorems assume of it is stated here by name, in terms of the
  documented behaviour of that code.
\<close>

text \<open>\<^verbatim>\<open>group_permission_t\<close> of \<^verbatim>\<open>security.h\<close>, and the wire form's permission kinds.\<close>

record group_permission =
  perm_group_id :: u16
  perm_read :: bool
  perm_write :: bool
  perm_receive :: bool

datatype permission = PERM_READ | PERM_WRITE | PERM_RECEIVE

type_synonym flash_mem = "nat \<Rightarrow> byte"

text \<open>
  \<open>wc_gcm_encrypt key iv aad pt\<close> stands for \<^verbatim>\<open>wc_AesGcmSetKey\<close> followed by
  \<^verbatim>\<open>wc_AesGcmEncrypt\<close>: \<open>None\<close> for a nonzero return, otherwise ciphertext and tag; likewise
  \<open>wc_gcm_decrypt key iv aad ct tag\<close>. The flash calls take the number of flash commands
  issued so far, so that a call may fail at one time and succeed at another:
  \<open>dl_erase t mem addr\<close> is \<^verbatim>\<open>DL_FlashCTL_eraseMemoryFromRAM\<close> (false: the status
  \<^verbatim>\<open>FAILED\<close>) with the memory it leaves, \<open>dl_program t mem addr data\<close> is
  \<^verbatim>\<open>DL_FlashCTL_programMemoryBlockingFromRAM64WithECCGenerated\<close>, and \<open>dl_wait t\<close> is
  \<^verbatim>\<open>DL_FlashCTL_waitForCmdDone\<close>.
\<close>

record platform =
  GLOBAL_SECRETS :: "byte list"
  HSM_PIN :: "byte list"
  global_permissions :: "group_permission list"
  wc_gcm_encrypt :: "byte list \<Rightarrow> byte list \<Rightarrow> byte list \<Rightarrow> byte list \<Rightarrow> (byte list \<times> byte list) option"
  wc_gcm_decrypt :: "byte list \<Rightarrow> byte list \<Rightarrow> byte list \<Rightarrow> byte list \<Rightarrow> byte list \<Rightarrow> byte list option"
  dl_erase :: "nat \<Rightarrow> flash_mem \<Rightarrow> nat \<Rightarrow> bool \<times> flash_mem"
  dl_program :: "nat \<Rightarrow> flash_mem \<Rightarrow> nat \<Rightarrow> byte list \<Rightarrow> bool \<times> flash_mem"
  dl_wait :: "nat \<Rightarrow> bool"

section \<open>What the theorems assume of it\<close>

text \<open>
  The generated secrets: \<^verbatim>\<open>GLOBAL_SECRETS\<close> holds at least the fields before the group list,
  the permission array has \<^verbatim>\<open>MAX_PERMS\<close> entries.
\<close>

definition secrets_ok :: "platform \<Rightarrow> bool" where
  "secrets_ok P \<longleftrightarrow> 129 \<le> length (GLOBAL_SECRETS P) \<and> length (global_permissions P) = 8"

text \<open>
  AES-256-GCM: encryption under a 32-byte key and a 12-byte nonce gives a ciphertext of the
  plaintext's length and a 16-byte tag; decryption succeeds on exactly the pairs of
  ciphertext and tag that encryption gives, and then returns the plaintext.
\<close>

definition gcm_ok :: "platform \<Rightarrow> bool" where
  "gcm_ok P \<longleftrightarrow> (\<forall>key iv aad. length key = 32 \<longrightarrow> length iv = 12 \<longrightarrow>
     (\<forall>pt. \<exists>ct tag. wc_gcm_encrypt P key iv aad pt = Some (ct, tag) \<and>
                    length ct = length pt \<and> length tag = 16) \<and>
     (\<forall>ct tag pt. wc_gcm_decrypt P key iv aad ct tag = Some pt \<longleftrightarrow>
                  wc_gcm_encrypt P key iv aad pt = Some (ct, tag)))"

text \<open>
  The flash controller. A command touches only the 1024-byte sector, or the range it
  programs. If erasing succeeds the sector reads as 0xFF; if programming succeeds and the
  range was erased, the range reads as the data.
\<close>

definition sector_of :: "nat \<Rightarrow> nat \<Rightarrow> bool" where
  "sector_of addr a \<longleftrightarrow> a div 1024 = addr div 1024"

definition in_range :: "nat \<Rightarrow> nat \<Rightarrow> nat \<Rightarrow> bool" where
  "in_range addr len a \<longleftrightarrow> addr \<le> a \<and> a < addr + len"

definition flash_ok :: "platform \<Rightarrow> bool" where
  "flash_ok P \<longleftrightarrow>
     (\<forall>t mem addr ok mem'. dl_erase P t mem addr = (ok, mem') \<longrightarrow>
        (\<forall>a. \<not> sector_of addr a \<longrightarrow> mem' a = mem a) \<and>
        (ok \<and> dl_wait P t \<longrightarrow> (\<forall>a. sector_of addr a \<longrightarrow> mem' a = 0xFF))) \<and>
     (\<forall>t mem addr data ok mem'. dl_program P t mem addr data = (ok, mem') \<longrightarrow>
        (\<forall>a. \<not> in_range addr (length data) a \<longrightarrow> mem' a = mem a) \<and>
        (ok \<and> dl_wait P t \<and> (\<forall>a. in_range addr (length data) a \<longrightarrow> mem a = 0xFF) \<longrightarrow>
         (\<forall>i < length data. mem' (addr + i) = data ! i)))"

text \<open>A controller whose commands never fail: what the liveness theorems add.\<close>

definition flash_reliable :: "platform \<Rightarrow> bool" where
  "flash_reliable P \<longleftrightarrow> (\<forall>t. dl_wait P t) \<and> (\<forall>t mem addr. fst (dl_erase P t mem addr)) \<and>
     (\<forall>t mem addr data. fst (dl_program P t mem addr data))"

lemma gcm_encryptE:
  assumes "gcm_ok P" "length key = 32" "length iv = 12"
  obtains ct tag where "wc_gcm_encrypt P key iv aad pt = Some (ct, tag)" "length ct = length pt" "length tag = 16"
  using assms unfolding gcm_ok_def by meson

lemma gcm_encrypt_length:
  assumes "gcm_ok P" "length key = 32" "length iv = 12" "wc_gcm_encrypt P key iv aad pt = Some (ct, tag)"
  shows "length ct = length pt" "length tag = 16"
  using gcm_encryptE [OF assms(1-3), of aad pt] assms(4) by auto

lemma gcm_decrypt_iff:
  "gcm_ok P \<Longrightarrow> length key = 32 \<Longrightarrow> length iv = 12 \<Longrightarrow>
   wc_gcm_decrypt P key iv aad ct tag = Some pt \<longleftrightarrow> wc_gcm_encrypt P key iv aad pt = Some (ct, tag)"
  unfolding gcm_ok_def by meson

lemma flash_ok_eraseD:
  assumes "flash_ok P" "dl_erase P t mem addr = (ok, mem')"
  shows "(\<forall>a. \<not> sector_of addr a \<longrightarrow> mem' a = mem a) \<and>
    (ok \<and> dl_wait P t \<longrightarrow> (\<forall>a. sector_of addr a \<longrightarrow> mem' a = 0xFF))"
  using assms(1) unfolding flash_ok_def
  by (elim conjE) (drule spec [of _ t], drule spec [of _ mem], drule spec [of _ addr],
      drule spec [of _ ok], drule spec [of _ mem'], erule mp, rule assms(2))

lemma flash_ok_erase:
  assumes "flash_ok P" "dl_erase P t mem addr = (ok, mem')"
  shows "\<not> sector_of addr a \<Longrightarrow> mem' a = mem a"
    and "ok \<Longrightarrow> dl_wait P t \<Longrightarrow> sector_of addr a \<Longrightarrow> mem' a = 0xFF"
  using conjunct1 [OF flash_ok_eraseD [OF assms]] conjunct2 [OF flash_ok_eraseD [OF assms]]
  by (iprover, iprover)

lemma flash_ok_programD:
  assumes "flash_ok P" "dl_program P t mem addr data = (ok, mem')"
  shows "(\<forall>a. \<not> in_range addr (length data) a \<longrightarrow> mem' a = mem a) \<and>
    (ok \<and> dl_wait P t \<and> (\<forall>a. in_range addr (length data) a \<longrightarrow> mem a = 0xFF) \<longrightarrow>
      (\<forall>i < length data. mem' (addr + i) = data ! i))"
  using assms(1) unfolding flash_ok_def
  by (elim conjE) (drule spec [of _ t], drule spec [of _ t], drule spec [of _ mem], drule spec [of _ mem],
      drule spec [of _ addr], drule spec [of _ addr], drule spec [of _ data],
      drule spec [of _ ok], drule spec [of _ mem'], erule mp, rule assms(2))

lemma flash_ok_program:
  assumes "flash_ok P" "dl_program P t mem addr data = (ok, mem')"
  shows "\<not> in_range addr (length data) a \<Longrightarrow> mem' a = mem a"
    and "ok \<Longrightarrow> dl_wait P t \<Longrightarrow> \<forall>a. in_range addr (length data) a \<longrightarrow> mem a = 0xFF \<Longrightarrow>
         i < length data \<Longrightarrow> mem' (addr + i) = data ! i"
  using conjunct1 [OF flash_ok_programD [OF assms]] conjunct2 [OF flash_ok_programD [OF assms]]
  by (iprover, iprover)

end
