(* ===== verification/Reference_Platform.thy ===== *)
theory Reference_Platform
  imports Platform
begin

text \<open>
  A platform that meets every hypothesis of \<^verbatim>\<open>Platform\<close>, on which the theorems are applied to
  concrete inputs: NOR flash whose programming clears bits, and a length-preserving cipher
  whose tag depends on key and nonce. Nothing in the model refers to it.
\<close>

definition ref_permissions :: "group_permission list" where
  "ref_permissions =
     \<lparr>perm_group_id = 5, perm_read = True, perm_write = True, perm_receive = True\<rparr> #
     \<lparr>perm_group_id = 9, perm_read = True, perm_write = False, perm_receive = False\<rparr> #
     \<lparr>perm_group_id = 7, perm_read = False, perm_write = True, perm_receive = False\<rparr> #
     replicate 5 \<lparr>perm_group_id = 0, perm_read = False, perm_write = False, perm_receive = False\<rparr>"

definition xor_all :: "byte \<Rightarrow> byte list \<Rightarrow> byte list" where
  "xor_all k bs = map (\<lambda>b. Bit_Operations.xor b k) bs"

definition ref_platform :: platform where
  "ref_platform = \<lparr>GLOBAL_SECRETS = replicate 129 7, HSM_PIN = [49, 50, 51, 52, 53, 54, 0],
     global_permissions = ref_permissions,
     wc_gcm_encrypt = (\<lambda>key iv aad pt. Some (xor_all (hd key) pt, take 16 (key @ iv))),
     wc_gcm_decrypt = (\<lambda>key iv aad ct tag.
        if tag = take 16 (key @ iv) then Some (xor_all (hd key) ct) else None),
     dl_erase = (\<lambda>t mem addr. (True, \<lambda>a. if sector_of addr a then 0xFF else mem a)),
     dl_program = (\<lambda>t mem addr data. (True, \<lambda>a. if in_range addr (length data) a
        then Bit_Operations.and (mem a) (data ! (a - addr)) else mem a)),
     dl_wait = (\<lambda>t. True)\<rparr>"

lemma xor_all_twice: "xor_all k (xor_all k bs) = bs"
  by (simp add: xor_all_def comp_def xor.assoc)

lemma xor_all_eq_iff: "xor_all k bs = cs \<longleftrightarrow> xor_all k cs = bs"
  using xor_all_twice by metis

lemma ref_secrets: "secrets_ok ref_platform"
  by (simp add: secrets_ok_def ref_platform_def ref_permissions_def)

lemma ref_gcm: "gcm_ok ref_platform"
  unfolding gcm_ok_def by (auto simp: ref_platform_def xor_all_twice) (simp_all add: xor_all_def)

lemma byte_and_FF: "Bit_Operations.and (0xFF :: byte) x = x"
proof -
  have "(0xFF :: byte) = - 1" by simp
  then show ?thesis by (metis and.left_neutral)
qed

lemma ref_flash: "flash_ok ref_platform"
  unfolding flash_ok_def by (auto simp: ref_platform_def in_range_def byte_and_FF)

lemma ref_reliable: "flash_reliable ref_platform"
  by (simp add: flash_reliable_def ref_platform_def)

lemmas ref_ok = ref_secrets ref_gcm ref_flash ref_reliable

end
