(* ===== verification/Crypto.thy ===== *)
theory Crypto
  imports Hmac Platform
begin

text \<open>
  \<^verbatim>\<open>firmware/src/secure_crypto.c\<close>: the key hierarchy under \<^verbatim>\<open>K_master\<close> (HKDF with labels),
  the chunk keys, the AES-GCM wrappers over wolfSSL, and the two sign/verify pairs (writer
  and receive proof), which are HMAC over a SHA-256 digest. The file's static scratch is
  cleared by every function before it returns and carries nothing between calls. Pointer
  arguments are never null in the model; the length guards are kept.
\<close>

section \<open>Keys\<close>

record secure_crypto_root_secret =
  k_master :: "byte list"

record secure_crypto_ecc_material =
  sign_key :: "byte list"

definition cstr :: "string \<Rightarrow> byte list" where
  "cstr s = map of_char s"

definition LABEL_GROUP_ROOT :: "byte list" where "LABEL_GROUP_ROOT = cstr ''group_root''"
definition LABEL_FILE_ENC :: "byte list" where "LABEL_FILE_ENC = cstr ''file_enc_v1''"
definition LABEL_XFER_ROOT :: "byte list" where "LABEL_XFER_ROOT = cstr ''xfer_root_v1''"
definition LABEL_PIN_MAC :: "byte list" where "LABEL_PIN_MAC = cstr ''pin_mac_v1''"
definition LABEL_WRITER_SEED :: "byte list" where "LABEL_WRITER_SEED = cstr ''writer_sign_seed_v1''"
definition LABEL_RECV_SEED :: "byte list" where "LABEL_RECV_SEED = cstr ''recv_sign_seed_v1''"

definition derive_key :: "byte list \<Rightarrow> byte list \<Rightarrow> nat \<Rightarrow> byte list option" where
  "derive_key master label out_len =
     (if out_len = 0 then None
      else let prk = hkdf_extract_sha256 None master
           in Some (hkdf_expand_sha256 prk label out_len))"

text \<open>
  The file's own HMAC wrapper, which every MAC below goes through. Its only guards are on null
  pointers, so it returns true; its callers keep their branch on the result.
\<close>

definition hmac_sha256 :: "byte list \<Rightarrow> byte list \<Rightarrow> byte list option" where [simp]:
  "hmac_sha256 key msg = Some (hmac_sha256_raw key msg)"

definition derive_group_key :: "secure_crypto_root_secret \<Rightarrow> u16 \<Rightarrow> byte list" where
  "derive_group_key root group_id =
     (let salt = le16 group_id;
          prk = hkdf_extract_sha256 (Some salt) (k_master root)
      in hkdf_expand_sha256 prk LABEL_GROUP_ROOT 32)"

definition derive_group_subkey :: "secure_crypto_root_secret \<Rightarrow> u16 \<Rightarrow> byte list \<Rightarrow> nat \<Rightarrow> byte list option" where
  "derive_group_subkey root group_id label out_len =
     (if out_len = 0 then None
      else derive_key (derive_group_key root group_id) label out_len)"

definition secure_crypto_root_secret_from_global_secrets :: "byte list \<Rightarrow> secure_crypto_root_secret option" where
  "secure_crypto_root_secret_from_global_secrets secrets =
     (if length secrets < 129 then None
      else Some \<lparr>k_master = segment 97 32 secrets\<rparr>)"

definition secure_crypto_derive_file_enc_key :: "secure_crypto_root_secret \<Rightarrow> u16 \<Rightarrow> nat \<Rightarrow> byte list option" where
  "secure_crypto_derive_file_enc_key root group_id out_len =
     (if out_len = 0 then None else derive_group_subkey root group_id LABEL_FILE_ENC out_len)"

definition secure_crypto_derive_xfer_root_key :: "secure_crypto_root_secret \<Rightarrow> u16 \<Rightarrow> nat \<Rightarrow> byte list option" where
  "secure_crypto_derive_xfer_root_key root group_id out_len =
     (if out_len = 0 then None else derive_group_subkey root group_id LABEL_XFER_ROOT out_len)"

definition secure_crypto_derive_pin_mac_key :: "secure_crypto_root_secret \<Rightarrow> nat \<Rightarrow> byte list option" where
  "secure_crypto_derive_pin_mac_key root out_len =
     (if out_len \<noteq> 32 then None else hmac_sha256 (k_master root) LABEL_PIN_MAC)"

definition secure_crypto_derive_writer_seed :: "secure_crypto_root_secret \<Rightarrow> u16 \<Rightarrow> nat \<Rightarrow> byte list option" where
  "secure_crypto_derive_writer_seed root group_id out_len =
     (if out_len = 0 then None else derive_group_subkey root group_id LABEL_WRITER_SEED out_len)"

definition secure_crypto_derive_recv_seed :: "secure_crypto_root_secret \<Rightarrow> u16 \<Rightarrow> nat \<Rightarrow> byte list option" where
  "secure_crypto_derive_recv_seed root group_id out_len =
     (if out_len = 0 then None else derive_group_subkey root group_id LABEL_RECV_SEED out_len)"

definition secure_crypto_derive_writer_keypair ::
    "secure_crypto_root_secret \<Rightarrow> u16 \<Rightarrow> secure_crypto_ecc_material option" where
  "secure_crypto_derive_writer_keypair root group_id =
     map_option (\<lambda>k. \<lparr>sign_key = k\<rparr>) (secure_crypto_derive_writer_seed root group_id 32)"

definition secure_crypto_derive_recv_keypair ::
    "secure_crypto_root_secret \<Rightarrow> u16 \<Rightarrow> secure_crypto_ecc_material option" where
  "secure_crypto_derive_recv_keypair root group_id =
     map_option (\<lambda>k. \<lparr>sign_key = k\<rparr>) (secure_crypto_derive_recv_seed root group_id 32)"

definition secure_crypto_hmac_sha256 :: "byte list \<Rightarrow> byte list \<Rightarrow> nat \<Rightarrow> byte list option" where
  "secure_crypto_hmac_sha256 key msg mac_len =
     (if mac_len \<noteq> 32 then None else hmac_sha256 key msg)"

definition secure_crypto_sha256 :: "byte list \<Rightarrow> nat \<Rightarrow> byte list option" where
  "secure_crypto_sha256 msg digest_len = (if digest_len \<noteq> 32 then None else Some (sha256_raw msg))"

definition chunk_info :: "u32 \<Rightarrow> byte list" where
  "chunk_info chunk_idx = cstr ''blob_chunk_v1'' @ le32 chunk_idx"

definition secure_crypto_derive_chunk_key :: "byte list \<Rightarrow> u32 \<Rightarrow> nat \<Rightarrow> byte list option" where
  "secure_crypto_derive_chunk_key master_key chunk_idx out_len =
     (if out_len = 0 then None
      else Some (hkdf_expand_sha256 master_key (chunk_info chunk_idx) out_len))"

section \<open>AES-GCM\<close>

text \<open>
  The two static wrappers run wolfSSL's set-key and encrypt or decrypt on a cleared context,
  which is cleared again before they return; decryption clears the caller's buffer (\<open>Inl\<close>)
  when wolfSSL rejects the input.
\<close>

definition aes_gcm_encrypt ::
    "platform \<Rightarrow> byte list \<Rightarrow> byte list \<Rightarrow> byte list \<Rightarrow> byte list \<Rightarrow> (byte list \<times> byte list) option" where [simp]:
  "aes_gcm_encrypt P key iv aad pt = wc_gcm_encrypt P key iv aad pt"

definition aes_gcm_decrypt ::
    "platform \<Rightarrow> byte list \<Rightarrow> byte list \<Rightarrow> byte list \<Rightarrow> byte list \<Rightarrow> byte list \<Rightarrow> byte list + byte list" where [simp]:
  "aes_gcm_decrypt P key iv aad ct tag =
     (case wc_gcm_decrypt P key iv aad ct tag of
        None \<Rightarrow> Inl (replicate (length ct) 0)
      | Some pt \<Rightarrow> Inr pt)"

definition secure_crypto_aes_gcm_encrypt ::
    "platform \<Rightarrow> byte list \<Rightarrow> byte list \<Rightarrow> byte list \<Rightarrow> byte list \<Rightarrow> nat \<Rightarrow> (byte list \<times> byte list) option" where
  "secure_crypto_aes_gcm_encrypt P key nonce aad plaintext tag_len =
     (if length key \<noteq> 32 \<or> length nonce \<noteq> 12 \<or> tag_len \<noteq> 16 then None
      else aes_gcm_encrypt P key nonce aad plaintext)"

text \<open>
  \<open>Inl\<close> is a false return, with the bytes left in the caller's plaintext buffer: untouched
  (\<open>None\<close>) when a guard fails, cleared when wolfSSL rejects the input.
\<close>

definition secure_crypto_aes_gcm_decrypt ::
    "platform \<Rightarrow> byte list \<Rightarrow> byte list \<Rightarrow> byte list \<Rightarrow> byte list \<Rightarrow> byte list \<Rightarrow> nat \<Rightarrow>
     byte list option + byte list" where
  "secure_crypto_aes_gcm_decrypt P key nonce aad ciphertext tag pt_out_len =
     (if length key \<noteq> 32 \<or> length nonce \<noteq> 12 \<or> length tag \<noteq> 16 \<or> pt_out_len < length ciphertext
      then Inl None
      else case aes_gcm_decrypt P key nonce aad ciphertext tag of
             Inl cleared \<Rightarrow> Inl (Some cleared)
           | Inr pt \<Rightarrow> Inr pt)"

section \<open>Sign and verify\<close>

definition hmac_sign_digest :: "secure_crypto_ecc_material \<Rightarrow> byte list \<Rightarrow> nat \<Rightarrow> byte list option" where
  "hmac_sign_digest material digest sig_cap =
     (if sig_cap < 32 then None else hmac_sha256 (sign_key material) digest)"

definition hmac_verify_digest :: "secure_crypto_ecc_material \<Rightarrow> byte list \<Rightarrow> byte list \<Rightarrow> bool" where
  "hmac_verify_digest material digest signature =
     (if length signature \<noteq> 32 then False
      else case hmac_sha256 (sign_key material) digest of
             None \<Rightarrow> False
           | Some expected_mac \<Rightarrow> xor_diff 0 expected_mac signature = 0)"

definition secure_crypto_writer_sign ::
    "secure_crypto_root_secret \<Rightarrow> u16 \<Rightarrow> byte list \<Rightarrow> nat \<Rightarrow> byte list option" where
  "secure_crypto_writer_sign root group_id message sig_cap =
     (let digest = sha256_raw message
      in case secure_crypto_derive_writer_keypair root group_id of
           None \<Rightarrow> None
         | Some material \<Rightarrow> hmac_sign_digest material digest sig_cap)"

definition secure_crypto_writer_verify ::
    "secure_crypto_root_secret \<Rightarrow> u16 \<Rightarrow> byte list \<Rightarrow> byte list \<Rightarrow> bool" where
  "secure_crypto_writer_verify root group_id message signature =
     (let digest = sha256_raw message
      in case secure_crypto_derive_writer_keypair root group_id of
           None \<Rightarrow> False
         | Some material \<Rightarrow> hmac_verify_digest material digest signature)"

definition secure_crypto_receive_proof_sign ::
    "secure_crypto_root_secret \<Rightarrow> u16 \<Rightarrow> byte list \<Rightarrow> nat \<Rightarrow> byte list option" where
  "secure_crypto_receive_proof_sign root group_id message sig_cap =
     (let digest = sha256_raw message
      in case secure_crypto_derive_recv_keypair root group_id of
           None \<Rightarrow> None
         | Some material \<Rightarrow> hmac_sign_digest material digest sig_cap)"

definition secure_crypto_receive_proof_verify ::
    "secure_crypto_root_secret \<Rightarrow> u16 \<Rightarrow> byte list \<Rightarrow> byte list \<Rightarrow> bool" where
  "secure_crypto_receive_proof_verify root group_id message signature =
     (let digest = sha256_raw message
      in case secure_crypto_derive_recv_keypair root group_id of
           None \<Rightarrow> False
         | Some material \<Rightarrow> hmac_verify_digest material digest signature)"

section \<open>The key schedule in closed form\<close>

text \<open>HKDF with an absent salt and one block of output.\<close>

definition hkdf1 :: "byte list \<Rightarrow> byte list \<Rightarrow> byte list \<Rightarrow> byte list" where
  "hkdf1 salt ikm info = hmac_spec (hmac_spec salt ikm) (info @ [1])"

definition group_key_spec :: "byte list \<Rightarrow> u16 \<Rightarrow> byte list" where
  "group_key_spec master g = hkdf1 (le16 g) master (cstr ''group_root'')"

definition group_subkey_spec :: "byte list \<Rightarrow> u16 \<Rightarrow> byte list \<Rightarrow> byte list" where
  "group_subkey_spec master g label = hkdf1 (replicate 32 0) (group_key_spec master g) label"

lemma derive_group_key_spec: "derive_group_key root g = group_key_spec (k_master root) g"
  by (simp add: derive_group_key_def group_key_spec_def hkdf1_def hkdf_expand_block hkdf_extract_spec
      LABEL_GROUP_ROOT_def le16_def)

lemma derive_group_subkey_spec:
  "derive_group_subkey root g label 32 = Some (group_subkey_spec (k_master root) g label)"
  by (simp add: derive_group_subkey_def derive_key_def derive_group_key_spec group_subkey_spec_def hkdf1_def
      hkdf_expand_block hkdf_extract_spec)

lemma length_derived [simp, sizes]:
  "length (group_key_spec m g) = 32" "length (group_subkey_spec m g l) = 32" "length (hkdf1 s i f) = 32"
  by (simp_all add: group_key_spec_def group_subkey_spec_def hkdf1_def)

lemmas subkey_defs = secure_crypto_derive_file_enc_key_def secure_crypto_derive_xfer_root_key_def
  secure_crypto_derive_writer_seed_def secure_crypto_derive_recv_seed_def

lemma file_enc_key: "secure_crypto_derive_file_enc_key root g 32
    = Some (group_subkey_spec (k_master root) g LABEL_FILE_ENC)"
  by (simp add: subkey_defs derive_group_subkey_spec)

lemma writer_keypair: "secure_crypto_derive_writer_keypair root g
    = Some \<lparr>sign_key = group_subkey_spec (k_master root) g LABEL_WRITER_SEED\<rparr>"
  by (simp add: subkey_defs secure_crypto_derive_writer_keypair_def derive_group_subkey_spec)

lemma recv_keypair: "secure_crypto_derive_recv_keypair root g
    = Some \<lparr>sign_key = group_subkey_spec (k_master root) g LABEL_RECV_SEED\<rparr>"
  by (simp add: subkey_defs secure_crypto_derive_recv_keypair_def derive_group_subkey_spec)

text \<open>
  Domain separation by labels: the six labels and the chunk infos are pairwise distinct as
  HKDF inputs.
\<close>

lemma chunk_info_inject: "chunk_info i = chunk_info j \<longleftrightarrow> i = j"
  by (simp add: chunk_info_def)

lemma labels_distinct:
  "distinct [LABEL_GROUP_ROOT, LABEL_FILE_ENC, LABEL_XFER_ROOT, LABEL_PIN_MAC, LABEL_WRITER_SEED, LABEL_RECV_SEED]"
  by (simp add: LABEL_GROUP_ROOT_def LABEL_FILE_ENC_def LABEL_XFER_ROOT_def LABEL_PIN_MAC_def
      LABEL_WRITER_SEED_def LABEL_RECV_SEED_def cstr_def)

lemma chunk_key_spec:
  "secure_crypto_derive_chunk_key master i 32 = Some (hmac_spec master (chunk_info i @ [1]))"
  by (simp add: secure_crypto_derive_chunk_key_def hkdf_expand_block)

section \<open>The interface: message authentication\<close>

text \<open>
  What the peer protocol relies on: signing into a large enough buffer gives the MAC, a
  32-byte string that verifies, and nothing else verifies.
\<close>

locale mac_scheme =
  fixes sign :: "'k \<Rightarrow> byte list \<Rightarrow> nat \<Rightarrow> byte list option"
    and verify :: "'k \<Rightarrow> byte list \<Rightarrow> byte list \<Rightarrow> bool"
    and mac :: "'k \<Rightarrow> byte list \<Rightarrow> byte list"
  assumes sign_mac: "sign k m cap = (if cap < 32 then None else Some (mac k m))"
    and verify_mac: "verify k m s \<longleftrightarrow> s = mac k m"
    and mac_length: "length (mac k m) = 32"
begin

lemma complete: "sign k m cap = Some s \<Longrightarrow> verify k m s"
  by (simp add: sign_mac verify_mac split: if_splits)

lemma sound: "verify k m s \<Longrightarrow> sign k m 32 = Some s"
  by (simp add: sign_mac verify_mac)

lemma unique: "verify k m s \<Longrightarrow> verify k m s' \<Longrightarrow> s = s'"
  by (simp add: verify_mac)

lemma verify_length: "verify k m s \<Longrightarrow> length s = 32"
  by (simp add: verify_mac mac_length)

end

lemma hmac_verify_digest_iff: "hmac_verify_digest k d s \<longleftrightarrow> s = hmac_spec (sign_key k) d"
  by (auto simp: hmac_verify_digest_def hmac_sha256_raw_spec xor_diff_0)

definition mac_of :: "byte list \<Rightarrow> secure_crypto_root_secret \<times> u16 \<Rightarrow> byte list \<Rightarrow> byte list" where
  "mac_of label k m = hmac_spec (group_subkey_spec (k_master (fst k)) (snd k) label) (sha_spec m)"

lemmas sign_defs = secure_crypto_writer_sign_def secure_crypto_writer_verify_def
  secure_crypto_receive_proof_sign_def secure_crypto_receive_proof_verify_def
  hmac_sign_digest_def hmac_verify_digest_iff writer_keypair recv_keypair
  hmac_sha256_raw_spec sha256_raw_spec mac_of_def

interpretation writer: mac_scheme "\<lambda>(root, g). secure_crypto_writer_sign root g"
    "\<lambda>(root, g). secure_crypto_writer_verify root g" "mac_of LABEL_WRITER_SEED"
  by unfold_locales (auto simp: sign_defs)

interpretation recv: mac_scheme "\<lambda>(root, g). secure_crypto_receive_proof_sign root g"
    "\<lambda>(root, g). secure_crypto_receive_proof_verify root g" "mac_of LABEL_RECV_SEED"
  by unfold_locales (auto simp: sign_defs)

section \<open>AES-GCM through the wrappers\<close>

lemma gcm_wrap_roundtrip:
  assumes "gcm_ok P" "secure_crypto_aes_gcm_encrypt P key nonce aad pt 16 = Some (ct, tag)" "length pt \<le> n"
  shows "secure_crypto_aes_gcm_decrypt P key nonce aad ct tag n = Inr pt"
proof -
  from assms(2) have l: "length key = 32" "length nonce = 12"
    and e: "wc_gcm_encrypt P key nonce aad pt = Some (ct, tag)"
    by (auto simp: secure_crypto_aes_gcm_encrypt_def split: if_splits)
  with assms gcm_encrypt_length [OF assms(1) l e] gcm_decrypt_iff [OF assms(1) l, of aad ct tag pt]
  show ?thesis by (simp add: secure_crypto_aes_gcm_decrypt_def)
qed

lemma gcm_wrap_authentic:
  assumes "gcm_ok P" "secure_crypto_aes_gcm_decrypt P key nonce aad ct tag n = Inr pt"
  shows "secure_crypto_aes_gcm_encrypt P key nonce aad pt 16 = Some (ct, tag)"
  using assms gcm_decrypt_iff [OF assms(1), of key nonce aad ct tag pt]
  by (auto simp: secure_crypto_aes_gcm_decrypt_def secure_crypto_aes_gcm_encrypt_def
      split: if_splits option.splits)

lemma gcm_wrap_length:
  assumes "gcm_ok P" "secure_crypto_aes_gcm_encrypt P key nonce aad pt 16 = Some (ct, tag)"
  shows "length ct = length pt" "length tag = 16"
  using assms gcm_encrypt_length [OF assms(1), of key nonce aad pt ct tag]
  by (auto simp: secure_crypto_aes_gcm_encrypt_def split: if_splits)

lemma gcm_wrap_total:
  assumes "gcm_ok P" "length key = 32" "length nonce = 12"
  obtains ct tag where "secure_crypto_aes_gcm_encrypt P key nonce aad pt 16 = Some (ct, tag)"
    "length ct = length pt" "length tag = 16"
  using gcm_encryptE [OF assms, of aad pt] assms(2,3) by (auto simp: secure_crypto_aes_gcm_encrypt_def)

section \<open>Properties\<close>

text \<open>
  C28: Writer signatures and receive proofs are message authentication codes: under a group's
  key exactly the signer's output verifies, so a signature always verifies and nothing else
  does.
\<close>

theorem verify_iff_signed:
  "(secure_crypto_receive_proof_verify root g msg s \<longleftrightarrow> secure_crypto_receive_proof_sign root g msg 32 = Some s) \<and>
   (secure_crypto_writer_verify root g msg s \<longleftrightarrow> secure_crypto_writer_sign root g msg 32 = Some s)"
  using recv.verify_mac [of "(root, g)" msg s] recv.sign_mac [of "(root, g)" msg 32]
    writer.verify_mac [of "(root, g)" msg s] writer.sign_mac [of "(root, g)" msg 32] by auto

end
