(* ===== verification/Flash.thy ===== *)
theory Flash
  imports Reference_Platform
begin

text \<open>
  \<^verbatim>\<open>firmware/src/simple_flash.c\<close>: the erase, read and write calls over the flash controller.
  Flash is a map from addresses to bytes; \<open>flash_tick\<close> counts the controller commands
  issued. The write loop is the code's, in 64-byte chunks padded with 0xFF to whole 8-byte
  words. Addresses are naturals: every address of the firmware is a constant below
  \<^verbatim>\<open>0x40000\<close>, so the code's 32-bit address arithmetic does not wrap.

  The lemmas: an erase followed by a write of one sector reads back, and neither touches
  anything outside (\<open>flash_page\<close>, the interface the PIN page, the FAT page, the name table
  and the blob slots rest on).
\<close>

record flash_dev =
  flash_mem :: flash_mem
  flash_tick :: nat

definition FLASH_PAGE_SIZE :: nat where "FLASH_PAGE_SIZE = 1024"

definition flash_simple_erase_page :: "platform \<Rightarrow> nat \<Rightarrow> flash_dev \<Rightarrow> int \<times> flash_dev" where
  "flash_simple_erase_page P address s =
     (let (ok, m) = dl_erase P (flash_tick s) (flash_mem s) address;
          done = dl_wait P (flash_tick s);
          s' = s\<lparr>flash_mem := m, flash_tick := Suc (flash_tick s)\<rparr>
      in if \<not> ok then (- 1, s') else if \<not> done then (- 1, s') else (0, s'))"

definition flash_simple_read :: "nat \<Rightarrow> nat \<Rightarrow> flash_dev \<Rightarrow> byte list" where
  "flash_simple_read address n s = map (flash_mem s) [address..<address + n]"

definition program_words :: "nat \<Rightarrow> nat" where
  "program_words chunk_size =
     (let words = (chunk_size + 3) div 4 in if words mod 2 \<noteq> 0 then words + 1 else words)"

definition program_data :: "byte list \<Rightarrow> byte list" where
  "program_data chunk =
     take (4 * program_words (length chunk)) (chunk @ replicate (64 - length chunk) 0xFF)"

function flash_write_loop :: "platform \<Rightarrow> nat \<Rightarrow> byte list \<Rightarrow> flash_dev \<Rightarrow> int \<times> flash_dev" where
  "flash_write_loop P current_addr p s =
     (if p = [] then (0, s)
      else let chunk = take 64 p;
               (ok, m) = dl_program P (flash_tick s) (flash_mem s) current_addr (program_data chunk);
               done = dl_wait P (flash_tick s);
               s' = s\<lparr>flash_mem := m, flash_tick := Suc (flash_tick s)\<rparr>
           in if \<not> ok then (- 1, s')
              else if \<not> done then (- 1, s')
              else flash_write_loop P (current_addr + length chunk) (drop 64 p) s')"
  by pat_completeness auto
termination
  by (relation "measure (\<lambda>(P, a, p, s). length p)") auto

declare flash_write_loop.simps [simp del]

definition flash_simple_write :: "platform \<Rightarrow> nat \<Rightarrow> byte list \<Rightarrow> flash_dev \<Rightarrow> int \<times> flash_dev" where
  "flash_simple_write P address buffer s = flash_write_loop P address buffer s"

section \<open>Erasing\<close>

lemma erase_rc: "fst (flash_simple_erase_page P a s) \<in> {0, - 1}"
  by (simp add: flash_simple_erase_page_def Let_def split_def)

lemma erase_frame [frame]:
  assumes "flash_ok P" "flash_simple_erase_page P addr s = (rc, s')" "\<not> sector_of addr a"
  shows "flash_mem s' a = flash_mem s a"
  using assms flash_ok_erase(1) [OF assms(1) _ assms(3)]
  by (auto simp: flash_simple_erase_page_def Let_def split: prod.splits if_splits)

lemma erase_blank:
  assumes "flash_ok P" "flash_simple_erase_page P addr s = (0, s')" "sector_of addr a"
  shows "flash_mem s' a = 0xFF"
  using assms flash_ok_erase(2) [OF assms(1) _ _ _ assms(3)]
  by (auto simp: flash_simple_erase_page_def Let_def split: prod.splits if_splits)

lemma erase_reliable: "flash_reliable P \<Longrightarrow> fst (flash_simple_erase_page P addr s) = 0"
  by (auto simp: flash_reliable_def flash_simple_erase_page_def Let_def split_def)

section \<open>Reading\<close>

lemma length_read [simp, sizes]: "length (flash_simple_read addr n s) = n"
  by (simp add: flash_simple_read_def)

lemma read_nth: "i < n \<Longrightarrow> flash_simple_read addr n s ! i = flash_mem s (addr + i)"
  by (simp add: flash_simple_read_def)

lemma read_cong:
  "(\<And>a. in_range addr n a \<Longrightarrow> flash_mem s' a = flash_mem s a) \<Longrightarrow>
   flash_simple_read addr n s' = flash_simple_read addr n s"
  by (auto simp: flash_simple_read_def in_range_def)

lemma read_eqI:
  "length xs = n \<Longrightarrow> (\<And>i. i < n \<Longrightarrow> flash_mem s (addr + i) = xs ! i) \<Longrightarrow> flash_simple_read addr n s = xs"
  by (rule nth_equalityI) (auto simp: read_nth)

lemma read_segment: "off + len \<le> n \<Longrightarrow> segment off len (flash_simple_read addr n s) = flash_simple_read (addr + off) len s"
  by (rule nth_equalityI) (auto simp: segment_nth read_nth add.assoc)

section \<open>Writing\<close>

text \<open>Bytes actually programmed for \<open>n\<close> bytes of data: whole 8-byte words.\<close>

definition pad8 :: "nat \<Rightarrow> nat" where
  "pad8 n = 8 * ((n + 7) div 8)"

lemma pad8_ge: "n \<le> pad8 n"
  by (simp add: pad8_def)

lemma pad8_dvd: "8 dvd n \<Longrightarrow> pad8 n = n"
  by (auto simp: pad8_def)

lemma pad8_mono: "m \<le> n \<Longrightarrow> pad8 m \<le> pad8 n"
  by (auto simp: pad8_def intro!: div_le_mono)

lemma pad8_64: "pad8 (64 + n) = 64 + pad8 n"
  unfolding pad8_def by presburger

lemma words_pad8: "4 * program_words n = pad8 n"
proof -
  obtain q r where n: "n = 8 * q + r" "r < 8"
    using mult_div_mod_eq [of 8 n] by (metis mod_less_divisor zero_less_numeral)
  have "r \<in> {0, 1, 2, 3, 4, 5, 6, 7}" using n(2) by auto
  then have *: "(r + 3) div 4 = (if r = 0 then 0 else if r < 5 then 1 else 2)" "(r + 7) div 8 = (if r = 0 then 0 else 1)" 
    by auto
  have a: "(n + 3) div 4 = 2 * q + (r + 3) div 4" using n(1) by simp
  have b: "(n + 7) div 8 = q + (r + 7) div 8" using n(1) by simp
  show ?thesis unfolding program_words_def pad8_def a b Let_def * by simp
qed

lemma length_program_data: "length chunk \<le> 64 \<Longrightarrow> length (program_data chunk) = pad8 (length chunk)"
  using pad8_mono [of "length chunk" 64] by (simp add: program_data_def words_pad8 pad8_def)

lemma program_data_nth:
  "length chunk \<le> 64 \<Longrightarrow> i < pad8 (length chunk) \<Longrightarrow>
   program_data chunk ! i = (if i < length chunk then chunk ! i else 0xFF)"
  using pad8_mono [of "length chunk" 64]
  by (auto simp: program_data_def words_pad8 nth_append) (auto simp: pad8_def)

text \<open>One round of the loop: the chunk's words change, and if it succeeds the loop goes on.\<close>

lemma write_loop_step:
  assumes "flash_ok P" "p \<noteq> []" "flash_write_loop P addr p s = (rc, s')"
  obtains m where "\<forall>a. \<not> in_range addr (pad8 (length (take 64 p))) a \<longrightarrow> m a = flash_mem s a"
      and "rc = - 1" and "flash_mem s' = m"
    | s1 where "\<forall>a. \<not> in_range addr (pad8 (length (take 64 p))) a \<longrightarrow> flash_mem s1 a = flash_mem s a"
      and "(\<forall>a. in_range addr (pad8 (length (take 64 p))) a \<longrightarrow> flash_mem s a = 0xFF) \<longrightarrow>
        (\<forall>i < pad8 (length (take 64 p)). flash_mem s1 (addr + i) = program_data (take 64 p) ! i)"
      and "flash_write_loop P (addr + length (take 64 p)) (drop 64 p) s1 = (rc, s')"
      and "s1 = s\<lparr>flash_mem := snd (dl_program P (flash_tick s) (flash_mem s) addr (program_data (take 64 p))),
                   flash_tick := Suc (flash_tick s)\<rparr>"
proof -
  obtain ok m where m: "dl_program P (flash_tick s) (flash_mem s) addr (program_data (take 64 p)) = (ok, m)"
    by (cases "dl_program P (flash_tick s) (flash_mem s) addr (program_data (take 64 p))")
  note prog = flash_ok_programD [OF assms(1) m]
  have len: "length (program_data (take 64 p)) = pad8 (length (take 64 p))"
    by (rule length_program_data) simp
  show thesis
  proof (cases "ok \<and> dl_wait P (flash_tick s)")
    case True
    with assms(2,3) m have "flash_write_loop P (addr + length (take 64 p)) (drop 64 p)
        (s\<lparr>flash_mem := m, flash_tick := Suc (flash_tick s)\<rparr>) = (rc, s')"
      by (subst (asm) flash_write_loop.simps) (simp add: Let_def)
    with True prog m len show thesis by (intro that(2)) auto
  next
    case False
    with assms(2,3) m have "rc = - 1" "flash_mem s' = m"
      by (auto simp: flash_write_loop.simps [of P addr p s] Let_def split: if_splits)
    with prog len show thesis by (intro that(1) [of m]) auto
  qed
qed

lemma pad8_rest: "p \<noteq> [] \<Longrightarrow> length (p :: 'a list) < 64 \<or> pad8 (length p) = 64 + pad8 (length (drop 64 p))"
  using pad8_64 [of "length p - 64"] by (cases "length p < 64") simp_all

lemma write_loop_frame:
  assumes "flash_ok P"
  shows "flash_write_loop P addr p s = (rc, s') \<Longrightarrow> \<not> in_range addr (pad8 (length p)) a \<Longrightarrow>
         flash_mem s' a = flash_mem s a"
proof (induction "length p" arbitrary: addr p s rule: less_induct)
  case less
  show ?case
  proof (cases "p = []")
    case True
    with less.prems show ?thesis by (simp add: flash_write_loop.simps)
  next
    case False
    have chunk: "\<not> in_range addr (pad8 (length (take 64 p))) a"
      using less.prems(2) pad8_mono [of "length (take 64 p)" "length p"] by (auto simp: in_range_def)
    from assms False less.prems(1) show ?thesis
    proof (cases rule: write_loop_step)
      case (1 m)
      with chunk show ?thesis by simp
    next
      case (2 s1)
      have "\<not> in_range (addr + length (take 64 p)) (pad8 (length (drop 64 p))) a"
        using pad8_rest [OF False] less.prems(2) by (auto simp: in_range_def pad8_def)
      then have "flash_mem s' a = flash_mem s1 a"
        using less.hyps [of "drop 64 p"] False 2(3) by auto
      with 2(1) chunk show ?thesis by simp
    qed
  qed
qed

lemma write_loop_data:
  assumes "flash_ok P"
  shows "flash_write_loop P addr p s = (0, s') \<Longrightarrow>
    \<forall>a. in_range addr (pad8 (length p)) a \<longrightarrow> flash_mem s a = 0xFF \<Longrightarrow>
    i < length p \<Longrightarrow> flash_mem s' (addr + i) = p ! i"
proof (induction "length p" arbitrary: addr p s i rule: less_induct)
  case less
  have ne: "p \<noteq> []" using less.prems(3) by auto
  have sub: "in_range addr (pad8 (length p)) a" if "in_range addr (pad8 (length (take 64 p))) a" for a
    using that pad8_mono [of "length (take 64 p)" "length p"] by (auto simp: in_range_def)
  from assms ne less.prems(1) show ?case
  proof (cases rule: write_loop_step)
    case (1 m)
    then show ?thesis by simp
  next
    case (2 s1)
    have s1: "flash_mem s1 (addr + j) = p ! j" if "j < length (take 64 p)" for j
      using 2(2) less.prems(2) sub that pad8_ge [of "length (take 64 p)"]
      by (auto simp: program_data_nth)
    show ?thesis
    proof (cases "i < 64")
      case True
      have "\<not> in_range (addr + length (take 64 p)) (pad8 (length (drop 64 p))) (addr + i)"
        using True less.prems(3) by (auto simp: in_range_def)
      then have "flash_mem s' (addr + i) = flash_mem s1 (addr + i)"
        by (rule write_loop_frame [OF assms 2(3)])
      with s1 True less.prems(3) show ?thesis by simp
    next
      case False
      have len: "length (take 64 p) = 64" "pad8 (length p) = 64 + pad8 (length (drop 64 p))"
        using pad8_rest [OF ne] False less.prems(3) by auto
      have "\<forall>a. in_range (addr + 64) (pad8 (length (drop 64 p))) a \<longrightarrow> flash_mem s1 a = 0xFF"
        using 2(1) less.prems(2) len by (auto simp: in_range_def pad8_def)
      then have "flash_mem s' ((addr + 64) + (i - 64)) = drop 64 p ! (i - 64)"
        using less.hyps [of "drop 64 p" "addr + 64" s1 "i - 64"] 2(3) len less.prems(3) False ne by auto
      with False less.prems(3) show ?thesis by simp
    qed
  qed
qed

lemma write_loop_unfold:
  "flash_write_loop P addr p s =
     (if p = [] then (0, s)
      else case dl_program P (flash_tick s) (flash_mem s) addr (program_data (take 64 p)) of (ok, m) \<Rightarrow>
        let s' = s\<lparr>flash_mem := m, flash_tick := Suc (flash_tick s)\<rparr>
        in if ok \<and> dl_wait P (flash_tick s) then flash_write_loop P (addr + length (take 64 p)) (drop 64 p) s'
           else (- 1, s'))"
  by (subst flash_write_loop.simps) (simp add: Let_def split: prod.split)

lemma write_loop_reliable: "flash_reliable P \<Longrightarrow> fst (flash_write_loop P addr p s) = 0"
proof (induction "length p" arbitrary: addr p s rule: less_induct)
  case less
  then show ?case
    by (subst write_loop_unfold) (auto simp: flash_reliable_def Let_def split_def)
qed

lemma write_loop_rc: "fst (flash_write_loop P addr p s) \<in> {0, - 1}"
proof (induction "length p" arbitrary: addr p s rule: less_induct)
  case less
  show ?case
  proof (cases "p = []")
    case False
    then have "fst (flash_write_loop P a (drop 64 p) t) \<in> {0, - 1}" for a t
      by (intro less) simp
    then show ?thesis by (subst write_loop_unfold) (simp add: Let_def split_def)
  qed (simp add: flash_write_loop.simps)
qed

lemma write_frame [frame]:
  "flash_ok P \<Longrightarrow> flash_simple_write P addr p s = (rc, s') \<Longrightarrow> \<not> in_range addr (pad8 (length p)) a \<Longrightarrow>
   flash_mem s' a = flash_mem s a"
  unfolding flash_simple_write_def by (rule write_loop_frame)

lemma write_data:
  "flash_ok P \<Longrightarrow> flash_simple_write P addr p s = (0, s') \<Longrightarrow>
   \<forall>a. in_range addr (pad8 (length p)) a \<longrightarrow> flash_mem s a = 0xFF \<Longrightarrow>
   flash_simple_read addr (length p) s' = p"
  unfolding flash_simple_write_def by (rule read_eqI) (auto intro: write_loop_data)

lemma write_reliable: "flash_reliable P \<Longrightarrow> fst (flash_simple_write P addr p s) = 0"
  by (simp add: flash_simple_write_def write_loop_reliable)

lemma write_rc: "fst (flash_simple_write P addr p s) \<in> {0, - 1}"
  unfolding flash_simple_write_def by (rule write_loop_rc)

section \<open>A sector rewritten: erase, then write\<close>

lemma in_sector: "addr mod 1024 = 0 \<Longrightarrow> sector_of addr a \<longleftrightarrow> in_range addr 1024 a"
  by (auto simp: sector_of_def in_range_def)

lemma in_pad8_sector: "addr mod 1024 = 0 \<Longrightarrow> n \<le> 1024 \<Longrightarrow> in_range addr (pad8 n) a \<Longrightarrow> sector_of addr a"
  using pad8_mono [of n 1024] by (auto simp: in_sector in_range_def pad8_def)

lemma rewrite_sector:
  assumes P: "flash_ok P" and addr: "addr mod 1024 = 0" "length p \<le> 1024"
    and s1: "flash_simple_erase_page P addr s = (0, s1)"
    and s2: "flash_simple_write P addr p s1 = (0, s2)"
  shows "flash_simple_read addr (length p) s2 = p"
proof (rule write_data [OF P s2], intro allI impI)
  fix a assume "in_range addr (pad8 (length p)) a"
  with in_pad8_sector [OF addr] show "flash_mem s1 a = 0xFF" by (intro erase_blank [OF P s1])
qed

lemma write_sector_frame:
  assumes "flash_ok P" "addr mod 1024 = 0" "length p \<le> 1024"
    and "flash_simple_write P addr p s = (rc, s')" "\<not> sector_of addr a"
  shows "flash_mem s' a = flash_mem s a"
  using assms in_pad8_sector [OF assms(2,3)] by (intro write_frame) auto

section \<open>The interface: a value kept in one flash page\<close>

text \<open>
  The PIN state, the file table and the name table each live in a page: \<open>flush\<close> rewrites the
  page from the value in RAM and \<open>load\<close> reads it back at boot. The laws are the component's;
  what follows from them is shared.
\<close>

locale flash_page =
  fixes flush :: "platform \<Rightarrow> 's \<Rightarrow> flash_dev \<Rightarrow> int \<times> flash_dev"
    and load :: "flash_dev \<Rightarrow> 's" and base :: nat
    and image :: "'s \<Rightarrow> byte list" and storable :: "'s \<Rightarrow> bool"
  assumes flush_image: "flash_ok P \<Longrightarrow> storable x \<Longrightarrow> flush P x s = (0, s') \<Longrightarrow>
      flash_simple_read base (length (image x)) s' = image x"
    and flush_frame: "flash_ok P \<Longrightarrow> storable x \<Longrightarrow> flush P x s = (rc, s') \<Longrightarrow> \<not> sector_of base a \<Longrightarrow>
      flash_mem s' a = flash_mem s a"
    and load_image: "storable x \<Longrightarrow> flash_simple_read base (length (image x)) s = image x \<Longrightarrow> load s = x"
    and image_fits: "storable x \<Longrightarrow> length (image x) \<le> 1024"
    and base_sector: "base mod 1024 = 0"
begin

text \<open>The value survives a reset.\<close>

lemma load_flush: "flash_ok P \<Longrightarrow> storable x \<Longrightarrow> flush P x s = (0, s') \<Longrightarrow> load s' = x"
  by (rule load_image [OF _ flush_image])

text \<open>The page holds a value: what later reads rely on, kept by every write outside the page.\<close>

definition holds :: "'s \<Rightarrow> flash_dev \<Rightarrow> bool" where
  "holds x s \<longleftrightarrow> storable x \<and> flash_simple_read base (length (image x)) s = image x"

lemma holds_flush: "flash_ok P \<Longrightarrow> storable x \<Longrightarrow> flush P x s = (0, s') \<Longrightarrow> holds x s'"
  by (simp add: holds_def flush_image)

lemma holds_load: "holds x s \<Longrightarrow> load s = x"
  by (simp add: holds_def load_image)

lemma holds_frame:
  assumes "holds x s" "\<And>a. sector_of base a \<Longrightarrow> flash_mem s' a = flash_mem s a"
  shows "holds x s'"
proof -
  from assms(1) have "length (image x) \<le> 1024" by (simp add: holds_def image_fits)
  then have "flash_simple_read base (length (image x)) s' = flash_simple_read base (length (image x)) s"
    by (intro read_cong assms(2)) (simp add: in_sector [OF base_sector] in_range_def)
  with assms(1) show ?thesis by (simp add: holds_def)
qed

text \<open>Rewriting a page of another sector keeps it.\<close>

lemma holds_other:
  assumes "holds x s" "\<And>a. \<not> sector_of other a \<Longrightarrow> flash_mem s' a = flash_mem s a"
    and "other div 1024 \<noteq> base div 1024"
  shows "holds x s'"
  using assms by (intro holds_frame [OF assms(1)]) (auto simp: sector_of_def)

end

section \<open>Properties\<close>

text \<open>
  Erasing a page and writing up to 1024 bytes to it, both reported as successful, makes the
  page read back as the data, and changes no byte of any other page.
\<close>

theorem flash_page_rewrite:
  assumes "flash_ok P" "addr mod 1024 = 0" "length p \<le> 1024"
    and "flash_simple_erase_page P addr s = (0, s1)" "flash_simple_write P addr p s1 = (0, s2)"
  shows "flash_simple_read addr (length p) s2 = p \<and> (\<forall>a. \<not> sector_of addr a \<longrightarrow> flash_mem s2 a = flash_mem s a)"
proof -
  have "flash_mem s2 a = flash_mem s a" if "\<not> sector_of addr a" for a
    using erase_frame [OF assms(1,4) that] write_sector_frame [OF assms(1-3,5) that] by simp
  with rewrite_sector [OF assms] show ?thesis by blast
qed

lemma flash_page_rewrite_witness:
  "\<exists>s1 s2. flash_simple_erase_page ref_platform 0x3A000 \<lparr>flash_mem = (\<lambda>a. 0), flash_tick = 0\<rparr> = (0, s1) \<and>
     flash_simple_write ref_platform 0x3A000 [1, 2, 3] s1 = (0, s2) \<and> flash_simple_read 0x3A000 3 s2 = [1, 2, 3]"
proof -
  obtain s1 where 1: "flash_simple_erase_page ref_platform 0x3A000 \<lparr>flash_mem = (\<lambda>a. 0), flash_tick = 0\<rparr> = (0, s1)"
    using erase_reliable [OF ref_reliable] by (metis prod.collapse)
  obtain s2 where 2: "flash_simple_write ref_platform 0x3A000 [1, 2, 3] s1 = (0, s2)"
    using write_reliable [OF ref_reliable] by (metis prod.collapse)
  from flash_page_rewrite [OF ref_flash _ _ 1 2] 1 2 show ?thesis by (simp add: numeral_3_eq_3)
qed

end
