(* ===== verification/Trng.thy ===== *)
theory Trng
  imports Prelude "HOL-Library.Monad_Syntax"
begin

text \<open>
  \<^verbatim>\<open>firmware/src/trng.c\<close>: start-up of the random number generator and the capture loop of
  \<^verbatim>\<open>trng_read_bytes\<close>. The peripheral is a script of what the firmware observes at each poll
  of its status register: not ready, command failure, or a captured word; after the script
  the peripheral stays not ready. The outer loop retries for ever, so a call that never
  returns is the value \<open>None\<close>. The lemmas say when it returns and what it then returns.
\<close>

datatype trng_poll = TrngBusy | TrngFail | TrngReady u32

record trng_dev =
  trng_polls :: "trng_poll list"
  trng_power :: "bool list"
  trng_powered :: bool
  trng_configured :: bool

definition TRNG_POLL_LIMIT :: nat where
  "TRNG_POLL_LIMIT = 1000000"

section \<open>Start-up\<close>

text \<open>\<^verbatim>\<open>while (!DL_TRNG_isPowerEnabled(TRNG)) if (--timeout == 0u) return;\<close>\<close>

fun trng_wait_power :: "nat \<Rightarrow> bool list \<Rightarrow> bool \<times> bool list" where
  "trng_wait_power 0 ps = (False, ps)"
| "trng_wait_power (Suc n) [] = (if n = 0 then (False, []) else trng_wait_power n [])"
| "trng_wait_power (Suc n) (p # ps) =
     (if p then (True, ps) else if n = 0 then (False, ps) else trng_wait_power n ps)"

definition trng_init :: "trng_dev \<Rightarrow> trng_dev" where
  "trng_init s =
     (let s = s\<lparr>trng_powered := True\<rparr>;
          (ready, ps) = trng_wait_power TRNG_POLL_LIMIT (trng_power s);
          s = s\<lparr>trng_power := ps\<rparr>
      in if \<not> ready then s
         else let s = s\<lparr>trng_powered := False, trng_configured := False\<rparr>;
                  s = s\<lparr>trng_powered := True\<rparr>;
                  (ready, ps) = trng_wait_power TRNG_POLL_LIMIT (trng_power s);
                  s = s\<lparr>trng_power := ps\<rparr>
              in if \<not> ready then s else s\<lparr>trng_configured := True\<rparr>)"

section \<open>Reading\<close>

text \<open>
  The polls for one capture, \<open>n\<close> being \<^verbatim>\<open>timeout\<close>: a word, or \<open>None\<close> on a command failure
  or when the limit is reached (\<^verbatim>\<open>goto next_word\<close>).
\<close>

fun trng_capture :: "nat \<Rightarrow> trng_poll list \<Rightarrow> u32 option \<times> trng_poll list" where
  "trng_capture 0 ps = (None, ps)"
| "trng_capture (Suc n) [] = (if n = 0 then (None, []) else trng_capture n [])"
| "trng_capture (Suc n) (TrngReady w # ps) = (Some w, ps)"
| "trng_capture (Suc n) (TrngFail # ps) = (None, ps)"
| "trng_capture (Suc n) (TrngBusy # ps) = (if n = 0 then (None, ps) else trng_capture n ps)"

definition trng_word_bytes :: "u32 \<Rightarrow> byte list" where
  "trng_word_bytes w = map (\<lambda>i. ucast (drop_bit (8 * i) w)) [0..<4]"

partial_function (option) trng_fill :: "nat \<Rightarrow> byte list \<Rightarrow> trng_poll list \<Rightarrow> (byte list \<times> trng_poll list) option" where
  "trng_fill len buf ps =
     (if len \<le> length buf then Some (buf, ps)
      else let (w, ps) = trng_capture TRNG_POLL_LIMIT ps
           in case w of
                None \<Rightarrow> trng_fill len buf ps
              | Some w \<Rightarrow> trng_fill len (buf @ take (min (len - length buf) 4) (trng_word_bytes w)) ps)"

definition trng_read_bytes :: "nat \<Rightarrow> trng_dev \<Rightarrow> (byte list \<times> trng_dev) option" where
  "trng_read_bytes len s =
     (do { (bs, ps) \<leftarrow> trng_fill len [] (trng_polls s); Some (bs, s\<lparr>trng_polls := ps\<rparr>) })"

section \<open>When it returns, and what\<close>

text \<open>The words the peripheral will deliver, in order.\<close>

fun trng_words :: "trng_poll list \<Rightarrow> u32 list" where
  "trng_words [] = []"
| "trng_words (TrngReady w # ps) = w # trng_words ps"
| "trng_words (_ # ps) = trng_words ps"

lemma length_trng_word_bytes [simp, sizes]: "length (trng_word_bytes w) = 4"
  by (simp add: trng_word_bytes_def)

lemma trng_capture_Nil [simp]: "trng_capture n [] = (None, [])"
  by (induction n) auto

lemma trng_capture_Ready [simp]: "0 < n \<Longrightarrow> trng_capture n (TrngReady w # ps) = (Some w, ps)"
  by (cases n) auto

lemma trng_capture_word:
  "trng_capture n ps = (Some w, ps') \<Longrightarrow> trng_words ps = w # trng_words ps' \<and> length ps' < length ps"
  by (induction n ps rule: trng_capture.induct) (auto split: if_splits)

lemma trng_capture_none:
  "trng_capture n ps = (None, ps') \<Longrightarrow> trng_words ps = trng_words ps' \<and> (0 < n \<and> ps \<noteq> [] \<longrightarrow> length ps' < length ps)"
  by (induction n ps rule: trng_capture.induct) (auto split: if_splits)

lemma trng_fill_returns:
  "length buf \<le> len \<Longrightarrow> len \<le> length buf + 4 * length (trng_words ps) \<Longrightarrow>
   \<exists>ps'. trng_fill len buf ps = Some (take len (buf @ concat (map trng_word_bytes (trng_words ps))), ps')"
proof (induction "length ps" arbitrary: buf ps rule: less_induct)
  case less
  show ?case
  proof (cases "len \<le> length buf")
    case True
    with less.prems(1) show ?thesis by (simp add: trng_fill.simps)
  next
    case False
    with less.prems(2) have ps: "ps \<noteq> []" by auto
    obtain w ps1 where c: "trng_capture TRNG_POLL_LIMIT ps = (w, ps1)" by fastforce
    show ?thesis
    proof (cases w)
      case None
      with c ps have "trng_words ps = trng_words ps1" "length ps1 < length ps"
        using trng_capture_none [of TRNG_POLL_LIMIT ps ps1] by (auto simp: TRNG_POLL_LIMIT_def)
      with less c None False show ?thesis
        by (subst trng_fill.simps) simp
    next
      case (Some v)
      with c have w: "trng_words ps = v # trng_words ps1" "length ps1 < length ps"
        using trng_capture_word by blast+
      let ?buf = "buf @ take (min (len - length buf) 4) (trng_word_bytes v)"
      have "take len (?buf @ concat (map trng_word_bytes (trng_words ps1)))
          = take len (buf @ concat (map trng_word_bytes (trng_words ps)))"
        using False w(1) by (cases "len - length buf < 4") auto
      moreover have "\<exists>ps'. trng_fill len ?buf ps1
          = Some (take len (?buf @ concat (map trng_word_bytes (trng_words ps1))), ps')"
        using less.prems False w by (intro less.hyps) auto
      ultimately show ?thesis
        using c Some False by (subst trng_fill.simps) simp
    qed
  qed
qed

lemma trng_fill_needs:
  assumes "trng_fill len buf ps = Some r"
  shows "len \<le> length buf + 4 * length (trng_words ps)"
proof (rule trng_fill.raw_induct [where P = "\<lambda>len buf ps _. len \<le> length buf + 4 * length (trng_words ps)", OF _ assms])
  fix fill :: "nat \<Rightarrow> byte list \<Rightarrow> trng_poll list \<Rightarrow> (byte list \<times> trng_poll list) option"
  fix len buf ps r
  assume IH: "\<And>len buf ps r. fill len buf ps = Some r \<Longrightarrow> len \<le> length buf + 4 * length (trng_words ps)"
    and r: "(if len \<le> length buf then Some (buf, ps)
      else let (w, ps) = trng_capture TRNG_POLL_LIMIT ps
           in case w of None \<Rightarrow> fill len buf ps
              | Some w \<Rightarrow> fill len (buf @ take (min (len - length buf) 4) (trng_word_bytes w)) ps) = Some r"
  show "len \<le> length buf + 4 * length (trng_words ps)"
  proof (cases "len \<le> length buf")
    case False
    obtain w ps1 where c: "trng_capture TRNG_POLL_LIMIT ps = (w, ps1)" by fastforce
    show ?thesis
    proof (cases w)
      case None
      with c r False have "len \<le> length buf + 4 * length (trng_words ps1)" by (intro IH) simp
      with trng_capture_none [of TRNG_POLL_LIMIT ps ps1] c None show ?thesis by simp
    next
      case (Some v)
      let ?buf = "buf @ take (min (len - length buf) 4) (trng_word_bytes v)"
      from Some c r False have "fill len ?buf ps1 = Some r" by simp
      then have "len \<le> length ?buf + 4 * length (trng_words ps1)" by (rule IH)
      with trng_capture_word [of TRNG_POLL_LIMIT ps v ps1] c Some show ?thesis by simp
    qed
  qed simp
qed

text \<open>
  A read returns exactly when the peripheral delivers enough words, whatever failures and
  timeouts lie between them; the bytes are those of the words in order, cut to length.
\<close>

lemma trng_read_returns:
  assumes "len \<le> 4 * length (trng_words (trng_polls s))"
  obtains s' where "trng_read_bytes len s =
    Some (take len (concat (map trng_word_bytes (trng_words (trng_polls s)))), s')"
  using trng_fill_returns [of "[]" len "trng_polls s"] assms by (auto simp: trng_read_bytes_def)

lemma trng_read_iff:
  "(\<exists>s'. trng_read_bytes len s = Some (bs, s')) \<longleftrightarrow>
   len \<le> 4 * length (trng_words (trng_polls s)) \<and>
   bs = take len (concat (map trng_word_bytes (trng_words (trng_polls s))))"
proof
  assume "\<exists>s'. trng_read_bytes len s = Some (bs, s')"
  then obtain ps' where f: "trng_fill len [] (trng_polls s) = Some (bs, ps')"
    by (auto simp: trng_read_bytes_def bind_eq_Some_conv)
  from trng_fill_needs [OF this] have "len \<le> 4 * length (trng_words (trng_polls s))" by simp
  with trng_fill_returns [of "[]" len "trng_polls s"] f
  show "len \<le> 4 * length (trng_words (trng_polls s)) \<and>
      bs = take len (concat (map trng_word_bytes (trng_words (trng_polls s))))" by auto
qed (metis trng_read_returns)

lemma length_concat_words: "length (concat (map trng_word_bytes ws)) = 4 * length ws"
  by (induction ws) simp_all

lemma trng_read_length: "trng_read_bytes len s = Some (bs, s') \<Longrightarrow> length bs = len"
  using trng_read_iff [of len s bs] by (auto simp: length_concat_words)

text \<open>Power-up: the generator is configured if both waits see power within the limit.\<close>

lemma trng_init_configured:
  "trng_power s = True # True # ps \<Longrightarrow> trng_configured (trng_init s) \<and> trng_powered (trng_init s)"
proof -
  have "trng_wait_power n (True # ps) = (True, ps)" if "0 < n" for n ps
    using that by (cases n) auto
  from this [of TRNG_POLL_LIMIT] have "trng_wait_power TRNG_POLL_LIMIT (True # ps) = (True, ps)" for ps
    by (simp add: TRNG_POLL_LIMIT_def)
  moreover assume "trng_power s = True # True # ps"
  ultimately show ?thesis by (simp add: trng_init_def Let_def)
qed

section \<open>Properties\<close>

text \<open>
  C40: A random read returns exactly when the peripheral delivers enough words, however many
  timeouts and command failures come between, and then gives their bytes in order: no byte
  is dropped, repeated or made up.
\<close>

theorem trng_read_exact:
  "(\<exists>s'. trng_read_bytes len s = Some (bs, s')) \<longleftrightarrow>
   len \<le> 4 * length (trng_words (trng_polls s)) \<and>
   bs = take len (concat (map trng_word_bytes (trng_words (trng_polls s))))"
  by (rule trng_read_iff)

end
