(* ===== verification/Uart.thy ===== *)
theory Uart
  imports Prelude "HOL-Library.Monad_Syntax"
begin

text \<open>
  \<^verbatim>\<open>firmware/src/simple_uart.c\<close>: the byte layer of the two UARTs. Each port has a script of
  what successive polls of its receive FIFO find (a byte, or nothing) and a log of the bytes
  sent; after the script the line is silent for ever. Waiting without a limit
  (\<^verbatim>\<open>UART_RX_TIMEOUT_MS\<close>, the host port) is \<open>None\<close> when no byte ever arrives.
\<close>

record uart_dev =
  uart_rx :: "int \<Rightarrow> byte option list"
  uart_tx :: "int \<Rightarrow> byte list"

definition CONTROL_INTERFACE :: int where "CONTROL_INTERFACE = 0"
definition TRANSFER_INTERFACE :: int where "TRANSFER_INTERFACE = 1"
definition CONFIG_UART_COUNT :: int where "CONFIG_UART_COUNT = 2"
definition UART_RX_TIMEOUT_MS :: u32 where "UART_RX_TIMEOUT_MS = 0xFFFFFFFF"
definition UART_XFER_TIMEOUT_MS :: u32 where "UART_XFER_TIMEOUT_MS = 2000"
definition UART_TIMEOUT_LOOPS_PER_MS :: u64 where "UART_TIMEOUT_LOOPS_PER_MS = 4000"
definition UART_DRAIN_TIMEOUT_MS :: u32 where "UART_DRAIN_TIMEOUT_MS = 5"

definition get_uart_handle :: "int \<Rightarrow> int" where
  "get_uart_handle uart_id = (if uart_id < 0 \<or> CONFIG_UART_COUNT \<le> uart_id then 0 else uart_id)"

definition uart_try_readbyte :: "int \<Rightarrow> uart_dev \<Rightarrow> byte option \<times> uart_dev" where
  "uart_try_readbyte uart_id u =
     (let h = get_uart_handle uart_id
      in case uart_rx u h of
           [] \<Rightarrow> (None, u)
         | b # rest \<Rightarrow> (b, u\<lparr>uart_rx := (uart_rx u)(h := rest)\<rparr>))"

text \<open>\<^verbatim>\<open>for (;;)\<close>: the wait without a limit, and \<^verbatim>\<open>DL_UART_receiveDataBlocking\<close>.\<close>

partial_function (option) uart_wait :: "int \<Rightarrow> uart_dev \<Rightarrow> (byte \<times> uart_dev) option" where
  "uart_wait uart_id u =
     (case uart_try_readbyte uart_id u of
        (Some b, u) \<Rightarrow> Some (b, u)
      | (None, u) \<Rightarrow> uart_wait uart_id u)"

definition uart_readbyte :: "int \<Rightarrow> uart_dev \<Rightarrow> (byte \<times> uart_dev) option" where
  "uart_readbyte uart_id u = uart_wait uart_id u"

text \<open>\<^verbatim>\<open>while (loops > 0u)\<close>.\<close>

fun uart_poll :: "nat \<Rightarrow> int \<Rightarrow> uart_dev \<Rightarrow> byte option \<times> uart_dev" where
  "uart_poll 0 uart_id u = (None, u)"
| "uart_poll (Suc loops) uart_id u =
     (case uart_try_readbyte uart_id u of
        (Some b, u) \<Rightarrow> (Some b, u)
      | (None, u) \<Rightarrow> uart_poll loops uart_id u)"

definition uart_loops :: "u32 \<Rightarrow> nat" where
  "uart_loops timeout_ms =
     (let loops64 = (ucast timeout_ms :: u64) * UART_TIMEOUT_LOOPS_PER_MS
      in if 0xFFFFFFFF < loops64 then 0xFFFFFFFF else unat loops64)"

definition uart_readbyte_timeout :: "int \<Rightarrow> u32 \<Rightarrow> uart_dev \<Rightarrow> (byte option \<times> uart_dev) option" where
  "uart_readbyte_timeout uart_id timeout_ms u =
     (if timeout_ms = UART_RX_TIMEOUT_MS
      then do { (b, u) \<leftarrow> uart_wait uart_id u; Some (Some b, u) }
      else Some (uart_poll (uart_loops timeout_ms) uart_id u))"

definition uart_writebyte :: "int \<Rightarrow> byte \<Rightarrow> uart_dev \<Rightarrow> uart_dev" where
  "uart_writebyte uart_id data u =
     (let h = get_uart_handle uart_id in u\<lparr>uart_tx := (uart_tx u)(h := uart_tx u h @ [data])\<rparr>)"

partial_function (option) uart_drain_rx :: "int \<Rightarrow> uart_dev \<Rightarrow> uart_dev option" where
  "uart_drain_rx uart_id u =
     (do { (b, u) \<leftarrow> uart_readbyte_timeout uart_id UART_DRAIN_TIMEOUT_MS u;
           if b \<noteq> None then uart_drain_rx uart_id u else Some u })"

section \<open>The ports\<close>

lemma handles [simp]: "get_uart_handle CONTROL_INTERFACE = 0" "get_uart_handle TRANSFER_INTERFACE = 1"
  by (simp_all add: get_uart_handle_def CONTROL_INTERFACE_def TRANSFER_INTERFACE_def CONFIG_UART_COUNT_def)

lemma handle_cases: "get_uart_handle i \<in> {0, 1}"
  by (auto simp: get_uart_handle_def CONFIG_UART_COUNT_def)

text \<open>Reading sends nothing, and leaves the other port alone; sending receives nothing.\<close>

definition rx_only :: "int \<Rightarrow> uart_dev \<Rightarrow> uart_dev \<Rightarrow> bool" where
  "rx_only h u u' \<longleftrightarrow> uart_tx u' = uart_tx u \<and> (\<forall>k. k \<noteq> h \<longrightarrow> uart_rx u' k = uart_rx u k) \<and>
     length (uart_rx u' h) \<le> length (uart_rx u h)"

lemma rx_only_refl [simp]: "rx_only h u u"
  by (simp add: rx_only_def)

lemma rx_only_trans: "rx_only h u v \<Longrightarrow> rx_only h v w \<Longrightarrow> rx_only h u w"
  by (auto simp: rx_only_def)

lemma try_rx_only: "uart_try_readbyte i u = (b, u') \<Longrightarrow> rx_only (get_uart_handle i) u u'"
  by (auto simp: uart_try_readbyte_def rx_only_def Let_def split: list.splits)

section \<open>Waiting without a limit\<close>

text \<open>A wait returns exactly when a byte is to come, and then returns the first.\<close>

lemma uart_wait_returns:
  "dropWhile (\<lambda>p. p = None) (uart_rx u (get_uart_handle i)) = Some b # rest \<Longrightarrow>
   uart_wait i u = Some (b, u\<lparr>uart_rx := (uart_rx u)(get_uart_handle i := rest)\<rparr>)"
proof (induction "uart_rx u (get_uart_handle i)" arbitrary: u)
  case Nil
  then show ?case by simp
next
  case (Cons p ps)
  show ?case
  proof (cases p)
    case None
    let ?u = "u\<lparr>uart_rx := (uart_rx u)(get_uart_handle i := ps)\<rparr>"
    have "uart_wait i ?u = Some (b, ?u\<lparr>uart_rx := (uart_rx ?u)(get_uart_handle i := rest)\<rparr>)"
      using Cons.prems None by (intro Cons.hyps(1)) (auto simp flip: Cons.hyps(2))
    then show ?thesis
      using None by (subst uart_wait.simps) (simp add: uart_try_readbyte_def flip: Cons.hyps(2))
  next
    case (Some c)
    with Cons.prems show ?thesis
      by (subst uart_wait.simps) (simp add: uart_try_readbyte_def flip: Cons.hyps(2))
  qed
qed

lemma uart_wait_needs:
  assumes "uart_wait i u = Some r"
  shows "\<exists>b. Some b \<in> set (uart_rx u (get_uart_handle i))"
proof (rule uart_wait.raw_induct [where P = "\<lambda>i u _. \<exists>b. Some b \<in> set (uart_rx u (get_uart_handle i))", OF _ assms])
  fix wait :: "int \<Rightarrow> uart_dev \<Rightarrow> (byte \<times> uart_dev) option" and i u r
  assume IH: "\<And>i u r. wait i u = Some r \<Longrightarrow> \<exists>b. Some b \<in> set (uart_rx u (get_uart_handle i))"
    and r: "(case uart_try_readbyte i u of (Some b, u) \<Rightarrow> Some (b, u) | (None, u) \<Rightarrow> wait i u) = Some r"
  show "\<exists>b. Some b \<in> set (uart_rx u (get_uart_handle i))"
  proof (cases "uart_rx u (get_uart_handle i)")
    case Nil
    with r have "wait i u = Some r" by (simp add: uart_try_readbyte_def)
    then show ?thesis by (rule IH)
  next
    case (Cons p ps)
    show ?thesis
    proof (cases p)
      case None
      with Cons r have "wait i (u\<lparr>uart_rx := (uart_rx u)(get_uart_handle i := ps)\<rparr>) = Some r"
        by (simp add: uart_try_readbyte_def)
      from IH [OF this] Cons show ?thesis by auto
    qed (use Cons in auto)
  qed
qed

lemma dropWhile_None:
  "Some b \<in> set ps \<Longrightarrow> \<exists>c rest. dropWhile (\<lambda>p. p = None) ps = Some c # rest \<and> length rest < length ps"
proof (induction ps)
  case (Cons p ps)
  then show ?case by (cases p) fastforce+
qed simp

lemma uart_wait_iff: "uart_wait i u \<noteq> None \<longleftrightarrow> (\<exists>b. Some b \<in> set (uart_rx u (get_uart_handle i)))"
proof
  assume "\<exists>b. Some b \<in> set (uart_rx u (get_uart_handle i))"
  with dropWhile_None uart_wait_returns [of u i] show "uart_wait i u \<noteq> None" by (metis option.discI)
next
  assume "uart_wait i u \<noteq> None"
  with uart_wait_needs [of i u] show "\<exists>b. Some b \<in> set (uart_rx u (get_uart_handle i))" by auto
qed

section \<open>Waiting with a limit\<close>

lemma uart_loops_xfer [simp]: "uart_loops UART_XFER_TIMEOUT_MS = 8000000"
  by (simp add: uart_loops_def UART_XFER_TIMEOUT_MS_def UART_TIMEOUT_LOOPS_PER_MS_def)

lemma uart_poll_silent [simp]: "uart_rx u (get_uart_handle i) = [] \<Longrightarrow> uart_poll n i u = (None, u)"
  by (induction n) (auto simp: uart_try_readbyte_def)

lemma uart_poll_byte:
  "uart_rx u (get_uart_handle i) = Some b # rest \<Longrightarrow> 0 < n \<Longrightarrow>
   uart_poll n i u = (Some b, u\<lparr>uart_rx := (uart_rx u)(get_uart_handle i := rest)\<rparr>)"
  by (cases n) (auto simp: uart_try_readbyte_def)

text \<open>After \<open>n\<close> empty polls, not before, the read gives up.\<close>

lemma uart_poll_spec:
  "uart_poll n i u =
     (let ps = uart_rx u (get_uart_handle i); k = length (takeWhile (\<lambda>p. p = None) ps)
      in if k < n \<and> k < length ps
         then (ps ! k, u\<lparr>uart_rx := (uart_rx u)(get_uart_handle i := drop (Suc k) ps)\<rparr>)
         else (None, u\<lparr>uart_rx := (uart_rx u)(get_uart_handle i := drop n ps)\<rparr>))"
proof (induction n arbitrary: u)
  case 0
  then show ?case by simp
next
  case (Suc n)
  show ?case
  proof (cases "uart_rx u (get_uart_handle i)")
    case Nil
    then have "(uart_rx u)(get_uart_handle i := []) = uart_rx u" by (metis fun_upd_triv)
    with Nil show ?thesis by (simp add: uart_try_readbyte_def)
  next
    case (Cons p ps)
    then show ?thesis
      by (cases p) (simp_all add: uart_try_readbyte_def Suc.IH Let_def)
  qed
qed

lemma uart_poll_rx_only: "uart_poll n i u = (b, u') \<Longrightarrow> rx_only (get_uart_handle i) u u'"
proof (induction n arbitrary: u)
  case (Suc n)
  obtain c u1 where "uart_try_readbyte i u = (c, u1)" by fastforce
  with Suc try_rx_only [OF this] show ?case
    by (cases c) (auto intro: rx_only_trans)
qed simp

lemma uart_wait_rx_only:
  assumes "uart_wait i u = Some (b, u')"
  shows "rx_only (get_uart_handle i) u u' \<and> length (uart_rx u' (get_uart_handle i)) < length (uart_rx u (get_uart_handle i))"
proof -
  from uart_wait_needs [OF assms] dropWhile_None obtain c rest where
    d: "dropWhile (\<lambda>p. p = None) (uart_rx u (get_uart_handle i)) = Some c # rest"
      "length rest < length (uart_rx u (get_uart_handle i))"
    by metis
  with uart_wait_returns [OF d(1)] assms
  have "u' = u\<lparr>uart_rx := (uart_rx u)(get_uart_handle i := rest)\<rparr>" by simp
  with d(2) show ?thesis by (simp add: rx_only_def)
qed

lemma readbyte_timeout_rx_only:
  "uart_readbyte_timeout i ms u = Some (b, u') \<Longrightarrow> rx_only (get_uart_handle i) u u'"
  by (auto simp: uart_readbyte_timeout_def bind_eq_Some_conv split: if_splits
      dest: uart_poll_rx_only uart_wait_rx_only)

text \<open>Only the host port, whose timeout is unbounded, can wait for ever.\<close>

lemma readbyte_timeout_returns: "ms \<noteq> UART_RX_TIMEOUT_MS \<Longrightarrow> uart_readbyte_timeout i ms u \<noteq> None"
  by (simp add: uart_readbyte_timeout_def)

lemma readbyte_timeout_byte:
  assumes "uart_rx u (get_uart_handle i) = Some b # rest" "0 < uart_loops ms"
  shows "uart_readbyte_timeout i ms u = Some (Some b, u\<lparr>uart_rx := (uart_rx u)(get_uart_handle i := rest)\<rparr>)"
  using assms by (simp add: uart_readbyte_timeout_def uart_wait_returns uart_poll_byte)

section \<open>Properties\<close>

text \<open>
  A timed byte read returns the first byte that arrives within \<^verbatim>\<open>timeout_ms\<close> times 4000 polls
  and consumes the line up to it; otherwise it reports a timeout after exactly that many polls.
  It always returns.
\<close>

theorem uart_timed_read:
  assumes "ms \<noteq> UART_RX_TIMEOUT_MS"
  shows "uart_readbyte_timeout i ms u =
     (let ps = uart_rx u (get_uart_handle i); k = length (takeWhile (\<lambda>p. p = None) ps); n = uart_loops ms
      in if k < n \<and> k < length ps
         then Some (ps ! k, u\<lparr>uart_rx := (uart_rx u)(get_uart_handle i := drop (Suc k) ps)\<rparr>)
         else Some (None, u\<lparr>uart_rx := (uart_rx u)(get_uart_handle i := drop n ps)\<rparr>))"
  using assms by (simp add: uart_readbyte_timeout_def uart_poll_spec Let_def)

lemma uart_timed_read_witness:
  "UART_XFER_TIMEOUT_MS \<noteq> UART_RX_TIMEOUT_MS \<and>
   uart_readbyte_timeout 1 UART_XFER_TIMEOUT_MS \<lparr>uart_rx = (\<lambda>_. [None, Some 7, Some 8]), uart_tx = (\<lambda>_. [])\<rparr>
     = Some (Some 7, \<lparr>uart_rx = (\<lambda>_. [None, Some 7, Some 8])(1 := [Some 8]), uart_tx = (\<lambda>_. [])\<rparr>)"
  using uart_timed_read [of UART_XFER_TIMEOUT_MS 1 "\<lparr>uart_rx = (\<lambda>_. [None, Some 7, Some 8]), uart_tx = (\<lambda>_. [])\<rparr>"]
    uart_loops_xfer
  by (simp add: UART_XFER_TIMEOUT_MS_def UART_RX_TIMEOUT_MS_def get_uart_handle_def CONFIG_UART_COUNT_def Let_def)

text \<open>
  The unlimited read of the host port returns exactly when some byte arrives; on a silent
  line it never does.
\<close>

lemma uart_blocking_read:
  "(uart_readbyte_timeout i UART_RX_TIMEOUT_MS u \<noteq> None) \<longleftrightarrow> (\<exists>b. Some b \<in> set (uart_rx u (get_uart_handle i)))"
  using uart_wait_iff [of i u] by (auto simp: uart_readbyte_timeout_def bind_eq_None_conv split: option.splits)

end
