(* ===== verification/Messaging.thy ===== *)
theory Messaging
  imports Uart
begin

text \<open>
  \<^verbatim>\<open>firmware/src/host_messaging.c\<close>: the framing of both UARTs. A frame is the magic byte, an
  opcode and a little-endian length, then the payload; the receiver acknowledges the header
  and every 256-byte block, except for ACK, DEBUG and ERROR frames. Every call is
  \<open>None\<close> when it waits on the host port for a byte that never comes. Buffers are never null
  in the model. The main lemmas: what a sender puts on the line, what a receiver makes of it
  (a round trip), how many acknowledgements each consumes, and what the length limit does.
\<close>

datatype msg_status = MSG_OK | MSG_BAD_PTR | MSG_TIMEOUT | MSG_NO_ACK | MSG_BAD_LEN

definition MSG_MAGIC :: byte where "MSG_MAGIC = 0x25"

abbreviation LIST_MSG :: byte where "LIST_MSG \<equiv> 0x4c"
abbreviation READ_MSG :: byte where "READ_MSG \<equiv> 0x52"
abbreviation WRITE_MSG :: byte where "WRITE_MSG \<equiv> 0x57"
abbreviation RECEIVE_MSG :: byte where "RECEIVE_MSG \<equiv> 0x43"
abbreviation INTERROGATE_MSG :: byte where "INTERROGATE_MSG \<equiv> 0x49"
abbreviation LISTEN_MSG :: byte where "LISTEN_MSG \<equiv> 0x4e"
abbreviation ACK_MSG :: byte where "ACK_MSG \<equiv> 0x41"
abbreviation DEBUG_MSG :: byte where "DEBUG_MSG \<equiv> 0x44"
abbreviation ERROR_MSG :: byte where "ERROR_MSG \<equiv> 0x45"
abbreviation ECHO_MSG :: byte where "ECHO_MSG \<equiv> 0xEE"
abbreviation DELETE_FILE_MSG :: byte where "DELETE_FILE_MSG \<equiv> 0x58"
abbreviation CHANGE_PIN_MSG :: byte where "CHANGE_PIN_MSG \<equiv> 0x50"
abbreviation BOOT_FLAG_MSG :: byte where "BOOT_FLAG_MSG \<equiv> 0x47"
abbreviation DIGEST_MSG :: byte where "DIGEST_MSG \<equiv> 0x48"

definition uart_frame_timeout_ms :: "int \<Rightarrow> u32" where
  "uart_frame_timeout_ms uart_id =
     (if uart_id = CONTROL_INTERFACE then UART_RX_TIMEOUT_MS else UART_XFER_TIMEOUT_MS)"

section \<open>Sending\<close>

definition build_packet :: "byte \<Rightarrow> byte list \<Rightarrow> byte list \<Rightarrow> byte list \<Rightarrow> byte list" where
  "build_packet opcode nonce ciphertext tag =
     (let body_len = (16 + of_nat (length ciphertext) + 16 :: u16)
      in [MSG_MAGIC, opcode] @ le16 body_len @ take 16 nonce @ ciphertext @ take 16 tag)"

definition await_ack :: "int \<Rightarrow> uart_dev \<Rightarrow> (msg_status \<times> uart_dev) option" where
  "await_ack uart_id u =
     (let timeout_ms = uart_frame_timeout_ms uart_id in
      do { (b, u) \<leftarrow> uart_readbyte_timeout uart_id timeout_ms u;
           if b = None then Some (MSG_TIMEOUT, u)
           else if b \<noteq> Some MSG_MAGIC then Some (MSG_NO_ACK, u)
           else do { (b, u) \<leftarrow> uart_readbyte_timeout uart_id timeout_ms u;
             if b = None then Some (MSG_TIMEOUT, u)
             else if b \<noteq> Some ACK_MSG then Some (MSG_NO_ACK, u)
             else do { (b, u) \<leftarrow> uart_readbyte_timeout uart_id timeout_ms u;
               if b = None then Some (MSG_TIMEOUT, u)
               else do { (b, u) \<leftarrow> uart_readbyte_timeout uart_id timeout_ms u;
                 if b = None then Some (MSG_TIMEOUT, u)
                 else Some (MSG_OK, u) } } } })"

definition uart_writebytes :: "int \<Rightarrow> byte list \<Rightarrow> uart_dev \<Rightarrow> uart_dev" where
  "uart_writebytes uart_id bs u = fold (uart_writebyte uart_id) bs u"

function write_bytes :: "int \<Rightarrow> byte list \<Rightarrow> bool \<Rightarrow> uart_dev \<Rightarrow> (msg_status \<times> uart_dev) option" where
  "write_bytes uart_id p should_ack u =
     (if p = [] then Some (MSG_OK, u)
      else let u = uart_writebytes uart_id (take 256 p) u
           in if should_ack
              then do { (ack_rc, u) \<leftarrow> await_ack uart_id u;
                        if ack_rc \<noteq> MSG_OK then Some (ack_rc, u)
                        else write_bytes uart_id (drop 256 p) should_ack u }
              else write_bytes uart_id (drop 256 p) should_ack u)"
  by pat_completeness auto
termination
  by (relation "measure (\<lambda>(i, p, a, u). length p)") auto

declare write_bytes.simps [simp del]

definition needs_ack :: "byte \<Rightarrow> bool" where
  "needs_ack type \<longleftrightarrow> type \<noteq> ACK_MSG \<and> type \<noteq> DEBUG_MSG \<and> type \<noteq> ERROR_MSG"

definition msg_header :: "byte \<Rightarrow> u16 \<Rightarrow> byte list" where
  "msg_header type len = [MSG_MAGIC, type] @ le16 len"

definition write_header :: "int \<Rightarrow> byte \<Rightarrow> u16 \<Rightarrow> uart_dev \<Rightarrow> (msg_status \<times> uart_dev) option" where
  "write_header uart_id type len u =
     (let u = uart_writebytes uart_id (msg_header type len) u
      in if needs_ack type
         then do { (ack_rc, u) \<leftarrow> await_ack uart_id u;
                   if ack_rc \<noteq> MSG_OK then Some (ack_rc, u) else Some (MSG_OK, u) }
         else Some (MSG_OK, u))"

text \<open>The payload \<open>buf\<close> has the length announced; a null buffer of length 0 is \<open>[]\<close>.\<close>

definition write_packet :: "int \<Rightarrow> byte \<Rightarrow> byte list \<Rightarrow> uart_dev \<Rightarrow> (msg_status \<times> uart_dev) option" where
  "write_packet uart_id type buf u =
     (do { (rc, u) \<leftarrow> write_header uart_id type (of_nat (length buf)) u;
           if rc \<noteq> MSG_OK then Some (rc, u)
           else if buf \<noteq> [] then write_bytes uart_id buf (needs_ack type) u
           else Some (MSG_OK, u) })"

definition write_ack :: "int \<Rightarrow> uart_dev \<Rightarrow> (msg_status \<times> uart_dev) option" where
  "write_ack uart_id u = write_packet uart_id ACK_MSG [] u"

section \<open>Receiving\<close>

record packet =
  pk_status :: msg_status
  pk_cmd :: "byte option"
  pk_len :: u16
  pk_data :: "byte list"

text \<open>The drain to the magic byte; \<open>False\<close> is a timeout.\<close>

partial_function (option) read_sync :: "int \<Rightarrow> u32 \<Rightarrow> uart_dev \<Rightarrow> (bool \<times> uart_dev) option" where
  "read_sync uart_id timeout_ms u =
     (do { (b, u) \<leftarrow> uart_readbyte_timeout uart_id timeout_ms u;
           if b = None then Some (False, u)
           else if b = Some MSG_MAGIC then Some (True, u)
           else read_sync uart_id timeout_ms u })"

text \<open>One block of the body, appended to the bytes received; \<open>False\<close> is a timeout inside it.\<close>

fun read_block :: "int \<Rightarrow> u32 \<Rightarrow> nat \<Rightarrow> byte list \<Rightarrow> uart_dev \<Rightarrow> (bool \<times> byte list \<times> uart_dev) option" where
  "read_block uart_id timeout_ms 0 p u = Some (True, p, u)"
| "read_block uart_id timeout_ms (Suc n) p u =
     do { (b, u) \<leftarrow> uart_readbyte_timeout uart_id timeout_ms u;
          case b of None \<Rightarrow> Some (False, p, u)
                  | Some b \<Rightarrow> read_block uart_id timeout_ms n (p @ [b]) u }"

function read_body :: "int \<Rightarrow> u32 \<Rightarrow> nat \<Rightarrow> byte list \<Rightarrow> uart_dev \<Rightarrow> (msg_status \<times> byte list \<times> uart_dev) option" where
  "read_body uart_id timeout_ms remaining p u =
     (if remaining = 0 then Some (MSG_OK, p, u)
      else let block = (if remaining < 256 then remaining else 256) in
           do { (ok, p, u) \<leftarrow> read_block uart_id timeout_ms block p u;
                if \<not> ok then Some (MSG_TIMEOUT, p, u)
                else do { (_, u) \<leftarrow> write_ack uart_id u;
                          read_body uart_id timeout_ms (remaining - block) p u } })"
  by pat_completeness auto
termination
  by (relation "measure (\<lambda>(i, t, r, p, u). r)") auto

declare read_body.simps [simp del]

text \<open>
  The common body of \<^verbatim>\<open>read_packet\<close> and \<^verbatim>\<open>read_packet_timeout\<close>, which differ in the timeout
  of the drain. \<open>len\<close> is the value of \<^verbatim>\<open>*len\<close> on entry: the caller's limit, 0 for none.
\<close>

definition read_frame :: "int \<Rightarrow> u32 \<Rightarrow> u32 \<Rightarrow> u16 \<Rightarrow> uart_dev \<Rightarrow> (packet \<times> uart_dev) option" where
  "read_frame uart_id sync_ms timeout_ms len u =
     (let r = \<lparr>pk_status = MSG_TIMEOUT, pk_cmd = None, pk_len = len, pk_data = []\<rparr> in
      do { (ok, u) \<leftarrow> read_sync uart_id sync_ms u;
           if \<not> ok then Some (r, u)
           else do { (b, u) \<leftarrow> uart_readbyte_timeout uart_id timeout_ms u;
             if b = None then Some (r, u)
             else let r = r\<lparr>pk_cmd := b\<rparr> in
               do { (lo, u) \<leftarrow> uart_readbyte_timeout uart_id timeout_ms u;
                    (hi, u) \<leftarrow> uart_readbyte_timeout uart_id timeout_ms u;
                    if lo = None \<or> hi = None then Some (r, u)
                    else let pkt_len = un_le16 [the lo, the hi] in
                      do { (_, u) \<leftarrow> write_ack uart_id u;
                           if len \<noteq> 0 \<and> len < pkt_len then Some (r\<lparr>pk_status := MSG_BAD_LEN\<rparr>, u)
                           else do { (rc, p, u) \<leftarrow> read_body uart_id timeout_ms (unat pkt_len) [] u;
                             Some (r\<lparr>pk_status := rc, pk_len := pkt_len, pk_data := p\<rparr>, u) } } } } })"

definition read_packet :: "int \<Rightarrow> u16 \<Rightarrow> uart_dev \<Rightarrow> (packet \<times> uart_dev) option" where
  "read_packet uart_id len u =
     (let timeout_ms = uart_frame_timeout_ms uart_id in read_frame uart_id timeout_ms timeout_ms len u)"

definition read_packet_timeout :: "int \<Rightarrow> u16 \<Rightarrow> u32 \<Rightarrow> uart_dev \<Rightarrow> (packet \<times> uart_dev) option" where
  "read_packet_timeout uart_id len timeout_ms u =
     (let sync_timeout_ms = uart_frame_timeout_ms uart_id in read_frame uart_id timeout_ms sync_timeout_ms len u)"

section \<open>Hex dumps\<close>

definition hex_char :: "byte \<Rightarrow> byte" where
  "hex_char n = (if n < 10 then 0x30 + n else 0x57 + n)"

text \<open>\<open>pos\<close> is \<^verbatim>\<open>block_pos\<close>; only complete 256-byte blocks are acknowledged.\<close>

fun write_hex_loop :: "int \<Rightarrow> bool \<Rightarrow> byte list \<Rightarrow> u16 \<Rightarrow> uart_dev \<Rightarrow> (msg_status \<times> uart_dev) option" where
  "write_hex_loop uart_id ack [] pos u = Some (MSG_OK, u)"
| "write_hex_loop uart_id ack (b # p) pos u =
     (let u = uart_writebytes uart_id [hex_char (drop_bit 4 b AND 0xF), hex_char (b AND 0xF)] u;
          pos = pos + 2
      in if pos = 256
         then if ack
              then do { (ack_rc, u) \<leftarrow> await_ack uart_id u;
                        if ack_rc \<noteq> MSG_OK then Some (ack_rc, u) else write_hex_loop uart_id ack p 0 u }
              else write_hex_loop uart_id ack p 0 u
         else write_hex_loop uart_id ack p pos u)"

text \<open>\<open>Inl (- 1)\<close>: too long for a 16-bit length.\<close>

definition write_hex :: "int \<Rightarrow> byte \<Rightarrow> byte list \<Rightarrow> uart_dev \<Rightarrow> ((int + msg_status) \<times> uart_dev) option" where
  "write_hex uart_id type buf u =
     (if 0x7FFF < length buf then Some (Inl (- 1), u)
      else do { (rc, u) \<leftarrow> write_header uart_id type (of_nat (2 * length buf)) u;
                if rc \<noteq> MSG_OK then Some (Inr rc, u)
                else do { (rc, u) \<leftarrow> write_hex_loop uart_id (needs_ack type) buf 0 u;
                          Some (Inr rc, u) } })"

section \<open>Lines that deliver\<close>

text \<open>
  \<open>delivers ms ps bs rest\<close>: polling the script \<open>ps\<close> with timeout \<open>ms\<close> per byte gives the bytes
  \<open>bs\<close>, no gap between them running into the timeout, and leaves \<open>rest\<close>.
\<close>

definition gap_ok :: "u32 \<Rightarrow> nat \<Rightarrow> bool" where
  "gap_ok ms k \<longleftrightarrow> ms = UART_RX_TIMEOUT_MS \<or> k < uart_loops ms"

inductive delivers :: "u32 \<Rightarrow> byte option list \<Rightarrow> byte list \<Rightarrow> byte option list \<Rightarrow> bool" for ms where
  delivers_Nil: "delivers ms ps [] ps"
| delivers_Cons: "gap_ok ms k \<Longrightarrow> delivers ms ps bs rest \<Longrightarrow>
    delivers ms (replicate k None @ Some b # ps) (b # bs) rest"

inductive_cases delivers_ConsE: "delivers ms ps (b # bs) rest"
inductive_cases delivers_NilE: "delivers ms ps [] rest"
inductive_simps delivers_Nil_iff [simp]: "delivers ms ps [] rest"

lemma delivers_append:
  "delivers ms ps (xs @ ys) rest \<longleftrightarrow> (\<exists>mid. delivers ms ps xs mid \<and> delivers ms mid ys rest)"
proof (induction xs arbitrary: ps)
  case (Cons x xs)
  then show ?case by (fastforce elim!: delivers_ConsE intro: delivers_Cons)
qed simp

lemma delivers_now: "0 < uart_loops ms \<Longrightarrow> delivers ms (map Some bs @ rest) bs rest"
  using delivers_Cons [of ms 0] by (induction bs) (auto simp: gap_ok_def delivers_Nil)

definition set_rx :: "int \<Rightarrow> byte option list \<Rightarrow> uart_dev \<Rightarrow> uart_dev" where
  "set_rx h ps u = u\<lparr>uart_rx := (uart_rx u)(h := ps)\<rparr>"

definition add_tx :: "int \<Rightarrow> byte list \<Rightarrow> uart_dev \<Rightarrow> uart_dev" where
  "add_tx h bs u = u\<lparr>uart_tx := (uart_tx u)(h := uart_tx u h @ bs)\<rparr>"

lemma line_simps [simp]:
  "uart_rx (set_rx h ps u) = (uart_rx u)(h := ps)" "uart_tx (set_rx h ps u) = uart_tx u"
  "uart_rx (add_tx h bs u) = uart_rx u" "uart_tx (add_tx h bs u) = (uart_tx u)(h := uart_tx u h @ bs)"
  "set_rx h ps (set_rx h qs u) = set_rx h ps u" "add_tx h xs (add_tx h ys u) = add_tx h (ys @ xs) u"
  "add_tx h [] u = u" "set_rx h ps (add_tx k bs u) = add_tx k bs (set_rx h ps u)"
  "set_rx h (uart_rx u h) u = u"
  by (simp_all add: set_rx_def add_tx_def fun_upd_def [symmetric])

lemma writebytes_add_tx: "uart_writebytes i bs u = add_tx (get_uart_handle i) bs u"
proof (induction bs arbitrary: u)
  case (Cons b bs)
  have "uart_writebyte i b u = add_tx (get_uart_handle i) [b] u"
    by (simp add: uart_writebyte_def add_tx_def Let_def)
  with Cons show ?case by (simp add: uart_writebytes_def)
qed (simp add: uart_writebytes_def)

lemma wait_gap:
  "uart_rx u (get_uart_handle i) = replicate k None @ Some b # ps \<Longrightarrow>
   uart_wait i u = Some (b, set_rx (get_uart_handle i) ps u)"
  by (simp add: uart_wait_returns set_rx_def dropWhile_append)

lemma poll_gap:
  "uart_rx u (get_uart_handle i) = replicate k None @ Some b # ps \<Longrightarrow> k < n \<Longrightarrow>
   uart_poll n i u = (Some b, set_rx (get_uart_handle i) ps u)"
proof (induction k arbitrary: n u)
  case 0
  then show ?case by (simp add: uart_poll_byte set_rx_def)
next
  case (Suc k)
  then obtain m where n: "n = Suc m" "k < m" by (cases n) auto
  let ?u = "set_rx (get_uart_handle i) (replicate k None @ Some b # ps) u"
  have "uart_poll m i ?u = (Some b, set_rx (get_uart_handle i) ps ?u)"
    using n by (intro Suc.IH) auto
  then show ?case using Suc.prems n by (simp add: uart_try_readbyte_def set_rx_def)
qed

lemma readbyte_delivers:
  assumes "delivers ms (uart_rx u (get_uart_handle i)) (b # bs) rest"
  obtains ps where "uart_readbyte_timeout i ms u = Some (Some b, set_rx (get_uart_handle i) ps u)"
    "delivers ms ps bs rest"
proof -
  from assms obtain k ps where g: "gap_ok ms k" "delivers ms ps bs rest"
    and e: "uart_rx u (get_uart_handle i) = replicate k None @ Some b # ps"
    by (auto elim: delivers_ConsE)
  with wait_gap [OF e] poll_gap [OF e, of "uart_loops ms"]
  have "uart_readbyte_timeout i ms u = Some (Some b, set_rx (get_uart_handle i) ps u)"
    by (auto simp: uart_readbyte_timeout_def gap_ok_def)
  with g show thesis by (intro that) auto
qed

section \<open>What a sender puts on the line\<close>

definition ack_frame :: "byte list" where
  "ack_frame = msg_header ACK_MSG 0"

definition frame_blocks :: "nat \<Rightarrow> nat" where
  "frame_blocks len = 1 + (len + 255) div 256"

text \<open>Frames of 4 bytes that start with the magic byte and the ACK opcode.\<close>

definition acks :: "byte list list \<Rightarrow> bool" where
  "acks as \<longleftrightarrow> (\<forall>a \<in> set as. \<exists>x y. a = [MSG_MAGIC, ACK_MSG, x, y])"

lemma await_ack_ok:
  assumes "delivers (uart_frame_timeout_ms i) (uart_rx u (get_uart_handle i)) ([MSG_MAGIC, ACK_MSG, x, y] @ bs) rest"
  obtains ps where "await_ack i u = Some (MSG_OK, set_rx (get_uart_handle i) ps u)"
    "delivers (uart_frame_timeout_ms i) ps bs rest"
proof -
  let ?h = "get_uart_handle i" and ?ms = "uart_frame_timeout_ms i"
  from readbyte_delivers [OF assms [simplified]] obtain p1 where
    1: "uart_readbyte_timeout i ?ms u = Some (Some MSG_MAGIC, set_rx ?h p1 u)"
    and d1: "delivers ?ms p1 (ACK_MSG # x # y # bs) rest" by auto
  then have "delivers ?ms (uart_rx (set_rx ?h p1 u) ?h) (ACK_MSG # x # y # bs) rest" by simp
  from readbyte_delivers [OF this] obtain p2 where
    2: "uart_readbyte_timeout i ?ms (set_rx ?h p1 u) = Some (Some ACK_MSG, set_rx ?h p2 u)"
    and d2: "delivers ?ms p2 (x # y # bs) rest" by auto
  then have "delivers ?ms (uart_rx (set_rx ?h p2 u) ?h) (x # y # bs) rest" by simp
  from readbyte_delivers [OF this] obtain p3 where
    3: "uart_readbyte_timeout i ?ms (set_rx ?h p2 u) = Some (Some x, set_rx ?h p3 u)"
    and d3: "delivers ?ms p3 (y # bs) rest" by auto
  then have "delivers ?ms (uart_rx (set_rx ?h p3 u) ?h) (y # bs) rest" by simp
  from readbyte_delivers [OF this] obtain p4 where
    4: "uart_readbyte_timeout i ?ms (set_rx ?h p3 u) = Some (Some y, set_rx ?h p4 u)"
    and d4: "delivers ?ms p4 bs rest" by auto
  from 1 2 3 4 d4 show thesis by (intro that [of p4]) (auto simp: await_ack_def Let_def)
qed

lemma write_bytes_quiet: "write_bytes i p False u = Some (MSG_OK, add_tx (get_uart_handle i) p u)"
proof (induction "length p" arbitrary: p u rule: less_induct)
  case less
  show ?case
  proof (cases "p = []")
    case False
    then have "write_bytes i (drop 256 p) False v = Some (MSG_OK, add_tx (get_uart_handle i) (drop 256 p) v)" for v
      by (intro less) auto
    with False show ?thesis by (subst write_bytes.simps) (simp add: writebytes_add_tx Let_def)
  qed (simp add: write_bytes.simps)
qed

lemma write_bytes_acked:
  "delivers (uart_frame_timeout_ms i) (uart_rx u (get_uart_handle i)) (concat as) rest \<Longrightarrow> acks as \<Longrightarrow>
   length as = (length p + 255) div 256 \<Longrightarrow>
   write_bytes i p True u = Some (MSG_OK, add_tx (get_uart_handle i) p (set_rx (get_uart_handle i) rest u))"
proof (induction as arbitrary: p u)
  case Nil
  have "p = []" using Nil.prems(3) by (cases p) auto
  with Nil show ?case by (simp add: write_bytes.simps)
next
  case (Cons a as)
  then obtain x y where a: "a = [MSG_MAGIC, ACK_MSG, x, y]" and as: "acks as" by (auto simp: acks_def)
  have p: "p \<noteq> []" using Cons.prems(3) by auto
  let ?h = "get_uart_handle i" and ?u = "uart_writebytes i (take 256 p) u"
  have "delivers (uart_frame_timeout_ms i) (uart_rx ?u ?h) ([MSG_MAGIC, ACK_MSG, x, y] @ concat as) rest"
    using Cons.prems(1) a by (simp add: writebytes_add_tx)
  from await_ack_ok [OF this] obtain ps where
    1: "await_ack i ?u = Some (MSG_OK, set_rx ?h ps ?u)" and d: "delivers (uart_frame_timeout_ms i) ps (concat as) rest" .
  have "length as = (length (drop 256 p) + 255) div 256"
  proof (cases "length p \<le> 256")
    case True
    with p have "(length p + 255) div 256 = 1" by (cases p) auto
    with True Cons.prems(3) show ?thesis by simp
  next
    case False
    then obtain n where "length p = 256 + n" by (metis add.commute le_Suc_ex nat_le_linear)
    with Cons.prems(3) show ?thesis by simp
  qed
  with as d have "write_bytes i (drop 256 p) True (set_rx ?h ps ?u)
      = Some (MSG_OK, add_tx ?h (drop 256 p) (set_rx ?h rest (set_rx ?h ps ?u)))"
    by (intro Cons.IH) auto
  with 1 p show ?case by (subst write_bytes.simps) (simp add: writebytes_add_tx Let_def)
qed

lemma write_packet_quiet:
  "\<not> needs_ack type \<Longrightarrow>
   write_packet i type buf u = Some (MSG_OK, add_tx (get_uart_handle i) (msg_header type (of_nat (length buf)) @ buf) u)"
  by (simp add: write_packet_def write_header_def write_bytes_quiet writebytes_add_tx Let_def)

lemma write_packet_acked:
  assumes "delivers (uart_frame_timeout_ms i) (uart_rx u (get_uart_handle i)) (concat as) rest" "acks as"
    and "length as = frame_blocks (length buf)" "needs_ack type"
  shows "write_packet i type buf u = Some (MSG_OK, add_tx (get_uart_handle i)
      (msg_header type (of_nat (length buf)) @ buf) (set_rx (get_uart_handle i) rest u))"
proof -
  let ?h = "get_uart_handle i" and ?ms = "uart_frame_timeout_ms i"
  let ?u = "add_tx ?h (msg_header type (of_nat (length buf))) u"
  from assms(2,3) obtain x y as' where as: "as = [MSG_MAGIC, ACK_MSG, x, y] # as'" "acks as'"
    "length as' = (length buf + 255) div 256"
    by (cases as) (auto simp: acks_def frame_blocks_def)
  have "delivers ?ms (uart_rx ?u ?h) ([MSG_MAGIC, ACK_MSG, x, y] @ concat as') rest"
    using assms(1) as by simp
  from await_ack_ok [OF this] obtain ps where
    1: "await_ack i ?u = Some (MSG_OK, set_rx ?h ps ?u)" and d: "delivers ?ms ps (concat as') rest" .
  have h: "write_header i type (of_nat (length buf)) u = Some (MSG_OK, set_rx ?h ps ?u)"
    using 1 assms(4) by (simp add: write_header_def writebytes_add_tx)
  show ?thesis
  proof (cases "buf = []")
    case True
    with d as(3) have "ps = rest" by simp
    with h True show ?thesis by (simp add: write_packet_def)
  next
    case False
    have "write_bytes i buf True (set_rx ?h ps ?u) = Some (MSG_OK, add_tx ?h buf (set_rx ?h rest (set_rx ?h ps ?u)))"
      using d as by (intro write_bytes_acked) auto
    with h False assms(4) show ?thesis by (simp add: write_packet_def)
  qed
qed

text \<open>Whatever the peer does, the line carries a prefix of the frame, and only on that port.\<close>

definition sent_prefix :: "int \<Rightarrow> byte list \<Rightarrow> uart_dev \<Rightarrow> uart_dev \<Rightarrow> bool" where
  "sent_prefix h bs u u' \<longleftrightarrow> (\<exists>n. uart_tx u' h = uart_tx u h @ take n bs) \<and>
     (\<forall>k. k \<noteq> h \<longrightarrow> uart_tx u' k = uart_tx u k \<and> uart_rx u' k = uart_rx u k)"

lemma await_ack_rx_only: "await_ack i u = Some (rc, u') \<Longrightarrow> rx_only (get_uart_handle i) u u'"
  by (auto simp: await_ack_def Let_def bind_eq_Some_conv split: if_splits
      dest!: readbyte_timeout_rx_only intro: rx_only_trans)

lemma await_ack_tx: "await_ack i u = Some (rc, u') \<Longrightarrow>
    uart_tx u' = uart_tx u \<and> (\<forall>k. k \<noteq> get_uart_handle i \<longrightarrow> uart_rx u' k = uart_rx u k)"
  using await_ack_rx_only [of i u rc u'] by (simp add: rx_only_def)

lemma write_bytes_prefix:
  "write_bytes i p a u = Some (rc, u') \<Longrightarrow>
   sent_prefix (get_uart_handle i) p u u' \<and> (rc = MSG_OK \<longrightarrow> uart_tx u' (get_uart_handle i) = uart_tx u (get_uart_handle i) @ p)"
proof (induction "length p" arbitrary: p u rule: less_induct)
  case less
  let ?h = "get_uart_handle i" and ?u = "add_tx (get_uart_handle i) (take 256 p) u"
  show ?case
  proof (cases "p = []")
    case True
    with less.prems show ?thesis by (auto simp: write_bytes.simps sent_prefix_def)
  next
    case False
    have step: "sent_prefix ?h p u u' \<and> (rc = MSG_OK \<longrightarrow> uart_tx u' ?h = uart_tx u ?h @ p)"
      if "write_bytes i (drop 256 p) a v = Some (rc, u')" and v: "uart_tx v = uart_tx ?u"
        "\<forall>k. k \<noteq> ?h \<longrightarrow> uart_rx v k = uart_rx u k" for v
    proof -
      have IH: "sent_prefix ?h (drop 256 p) v u' \<and> (rc = MSG_OK \<longrightarrow> uart_tx u' ?h = uart_tx v ?h @ drop 256 p)"
        using that(1) False by (intro less.hyps) auto
      then obtain n where n: "uart_tx u' ?h = uart_tx v ?h @ take n (drop 256 p)"
        by (auto simp: sent_prefix_def)
      have "take 256 p @ take n (drop 256 p) = take (256 + n) p" by (simp add: take_add)
      with IH n v show ?thesis
        by (auto simp: sent_prefix_def intro!: exI [of _ "256 + n"])
    qed
    show ?thesis
    proof (cases a)
      case True
      with less.prems False obtain ack v where ack: "await_ack i ?u = Some (ack, v)"
        and rest: "if ack \<noteq> MSG_OK then (rc, u') = (ack, v) else write_bytes i (drop 256 p) True v = Some (rc, u')"
        by (subst (asm) write_bytes.simps) (auto simp: Let_def writebytes_add_tx bind_eq_Some_conv split: if_splits)
      from await_ack_tx [OF ack] have v: "uart_tx v = uart_tx ?u" "\<forall>k. k \<noteq> ?h \<longrightarrow> uart_rx v k = uart_rx u k" by auto
      show ?thesis
      proof (cases "ack = MSG_OK")
        case True
        with rest \<open>a\<close> v show ?thesis by (intro step [of v]) auto
      next
        case ne: False
        with rest v show ?thesis by (auto simp: sent_prefix_def intro!: exI [of _ 256])
      qed
    next
      case noack: False
      with less.prems False have "write_bytes i (drop 256 p) False ?u = Some (rc, u')"
        by (subst (asm) write_bytes.simps) (auto simp: Let_def writebytes_add_tx)
      with noack show ?thesis by (intro step [of ?u]) auto
    qed
  qed
qed

lemma write_packet_prefix:
  assumes "write_packet i type buf u = Some (rc, u')"
  shows "sent_prefix (get_uart_handle i) (msg_header type (of_nat (length buf)) @ buf) u u'"
    and "rc = MSG_OK \<Longrightarrow> uart_tx u' (get_uart_handle i)
           = uart_tx u (get_uart_handle i) @ msg_header type (of_nat (length buf)) @ buf"
proof -
  let ?h = "get_uart_handle i" and ?hd = "msg_header type (of_nat (length buf))"
  from assms obtain rc1 v where v: "write_header i type (of_nat (length buf)) u = Some (rc1, v)"
    and r: "if rc1 \<noteq> MSG_OK then (rc, u') = (rc1, v) else if buf \<noteq> []
      then write_bytes i buf (needs_ack type) v = Some (rc, u') else (rc, u') = (MSG_OK, v)"
    by (auto simp: write_packet_def bind_eq_Some_conv split: if_splits)
  from v have tx: "uart_tx v = uart_tx (add_tx ?h ?hd u)" "\<forall>k. k \<noteq> ?h \<longrightarrow> uart_rx v k = uart_rx u k"
    by (auto simp: write_header_def Let_def writebytes_add_tx bind_eq_Some_conv split: if_splits dest!: await_ack_tx)
  have "sent_prefix ?h (?hd @ buf) u u' \<and> (rc = MSG_OK \<longrightarrow> uart_tx u' ?h = uart_tx u ?h @ ?hd @ buf)"
  proof (cases "rc1 = MSG_OK \<and> buf \<noteq> []")
    case True
    with r have w: "write_bytes i buf (needs_ack type) v = Some (rc, u')" by simp
    from write_bytes_prefix [OF this] obtain n where "uart_tx u' ?h = uart_tx v ?h @ take n buf"
      by (auto simp: sent_prefix_def)
    with write_bytes_prefix [OF w] tx show ?thesis
      by (auto simp: sent_prefix_def intro!: exI [of _ "length ?hd + n"])
  next
    case False
    with r tx show ?thesis
      by (auto simp: sent_prefix_def intro!: exI [of _ "length ?hd"] split: if_splits)
  qed
  then show "sent_prefix ?h (?hd @ buf) u u'"
    and "rc = MSG_OK \<Longrightarrow> uart_tx u' ?h = uart_tx u ?h @ ?hd @ buf" by auto
qed

text \<open>The header always goes out, and after it whole blocks, each but the last acknowledged.\<close>

lemma write_bytes_blocks:
  "write_bytes i p a u = Some (rc, u') \<Longrightarrow>
   \<exists>n. uart_tx u' (get_uart_handle i) = uart_tx u (get_uart_handle i) @ take (256 * n) p"
proof (induction "length p" arbitrary: p u rule: less_induct)
  case less
  let ?h = "get_uart_handle i" and ?u = "add_tx (get_uart_handle i) (take 256 p) u"
  show ?case
  proof (cases "p = []")
    case True
    with less.prems show ?thesis by (simp add: write_bytes.simps)
  next
    case False
    have step: "\<exists>n. uart_tx u' ?h = uart_tx u ?h @ take (256 * n) p"
      if r: "write_bytes i (drop 256 p) a v = Some (rc, u')" and v: "uart_tx v = uart_tx ?u" for v
    proof -
      from False have "length (drop 256 p) < length p" by (cases p) auto
      from less.hyps [OF this r] obtain n where "uart_tx u' ?h = uart_tx v ?h @ take (256 * n) (drop 256 p)" by blast
      moreover have "take (256 * Suc n) p = take 256 p @ take (256 * n) (drop 256 p)" by (simp add: take_add)
      ultimately show ?thesis using v by (intro exI [of _ "Suc n"]) simp
    qed
    have one: "\<exists>n. uart_tx v ?h = uart_tx u ?h @ take (256 * n) p" if "uart_tx v = uart_tx ?u" for v
      using that by (intro exI [of _ 1]) simp
    show ?thesis
    proof (cases a)
      case True
      with less.prems False obtain ack v where ack: "await_ack i ?u = Some (ack, v)"
        and rest: "if ack \<noteq> MSG_OK then (rc, u') = (ack, v) else write_bytes i (drop 256 p) a v = Some (rc, u')"
        by (subst (asm) write_bytes.simps) (auto simp: Let_def writebytes_add_tx bind_eq_Some_conv split: if_splits)
      from await_ack_tx [OF ack] have "uart_tx v = uart_tx ?u" by simp
      with rest step [of v] one [of v] show ?thesis by (auto split: if_splits)
    next
      case noack: False
      with less.prems False have "write_bytes i (drop 256 p) a ?u = Some (rc, u')"
        by (subst (asm) write_bytes.simps) (auto simp: Let_def writebytes_add_tx)
      from step [OF this refl] show ?thesis .
    qed
  qed
qed

lemma write_packet_blocks:
  assumes "write_packet i type buf u = Some (rc, u')"
  shows "\<exists>n. uart_tx u' (get_uart_handle i) =
    uart_tx u (get_uart_handle i) @ msg_header type (of_nat (length buf)) @ take (256 * n) buf"
proof -
  let ?h = "get_uart_handle i" and ?hd = "msg_header type (of_nat (length buf))"
  from assms obtain rc1 v where w: "write_header i type (of_nat (length buf)) u = Some (rc1, v)"
    and r: "(if rc1 \<noteq> MSG_OK then Some (rc1, v) else if buf \<noteq> [] then write_bytes i buf (needs_ack type) v else Some (MSG_OK, v)) = Some (rc, u')"
    by (auto simp: write_packet_def bind_eq_Some_conv)
  have tx: "uart_tx v ?h = uart_tx u ?h @ ?hd"
    using w by (auto simp: write_header_def Let_def writebytes_add_tx bind_eq_Some_conv dest!: await_ack_tx split: if_splits)
  show ?thesis
  proof (cases "u' = v")
    case True
    with tx show ?thesis by (intro exI [of _ 0]) simp
  next
    case False
    with r have "write_bytes i buf (needs_ack type) v = Some (rc, u')" by (auto split: if_splits)
    from write_bytes_blocks [OF this] tx show ?thesis by auto
  qed
qed

section \<open>What a receiver makes of it\<close>

lemma write_ack_eq: "write_ack i u = Some (MSG_OK, add_tx (get_uart_handle i) ack_frame u)"
  by (simp add: write_ack_def write_packet_quiet needs_ack_def ack_frame_def)

lemma read_sync_delivers:
  "delivers ms (uart_rx u (get_uart_handle i)) (junk @ [MSG_MAGIC]) rest \<Longrightarrow> MSG_MAGIC \<notin> set junk \<Longrightarrow>
   read_sync i ms u = Some (True, set_rx (get_uart_handle i) rest u)"
proof (induction junk arbitrary: u)
  case Nil
  from readbyte_delivers [OF Nil.prems(1) [simplified]] obtain ps where
    "uart_readbyte_timeout i ms u = Some (Some MSG_MAGIC, set_rx (get_uart_handle i) ps u)" "ps = rest" by auto
  then show ?case by (subst read_sync.simps) simp
next
  case (Cons b junk)
  from readbyte_delivers [OF Cons.prems(1) [simplified]] obtain ps where
    1: "uart_readbyte_timeout i ms u = Some (Some b, set_rx (get_uart_handle i) ps u)"
    and d: "delivers ms ps (junk @ [MSG_MAGIC]) rest" by auto
  have "read_sync i ms (set_rx (get_uart_handle i) ps u)
      = Some (True, set_rx (get_uart_handle i) rest (set_rx (get_uart_handle i) ps u))"
    using d Cons.prems(2) by (intro Cons.IH) auto
  with 1 Cons.prems(2) show ?case by (subst read_sync.simps) auto
qed

lemma read_block_delivers:
  "delivers ms (uart_rx u (get_uart_handle i)) bs rest \<Longrightarrow>
   read_block i ms (length bs) p u = Some (True, p @ bs, set_rx (get_uart_handle i) rest u)"
proof (induction bs arbitrary: u p)
  case (Cons b bs)
  from readbyte_delivers [OF Cons.prems] obtain ps where
    1: "uart_readbyte_timeout i ms u = Some (Some b, set_rx (get_uart_handle i) ps u)"
    and d: "delivers ms ps bs rest" .
  then have "read_block i ms (length bs) (p @ [b]) (set_rx (get_uart_handle i) ps u)
      = Some (True, (p @ [b]) @ bs, set_rx (get_uart_handle i) rest (set_rx (get_uart_handle i) ps u))"
    by (intro Cons.IH) simp
  with 1 show ?case by simp
qed auto

lemma read_body_delivers:
  "delivers ms (uart_rx u (get_uart_handle i)) bs rest \<Longrightarrow>
   read_body i ms (length bs) p u = Some (MSG_OK, p @ bs, add_tx (get_uart_handle i)
     (concat (replicate ((length bs + 255) div 256) ack_frame)) (set_rx (get_uart_handle i) rest u))"
proof (induction "length bs" arbitrary: bs u p rule: less_induct)
  case less
  let ?h = "get_uart_handle i"
  show ?case
  proof (cases "bs = []")
    case True
    with less.prems show ?thesis by (auto simp: read_body.simps)
  next
    case False
    define n where "n = (if length bs < 256 then length bs else 256)"
    have n: "length (take n bs) = n" "0 < n" "(length bs + 255) div 256 = Suc ((length bs - n + 255) div 256)"
      using False by (auto simp: n_def div_if [of "length bs + 255"] not_less)
    have "delivers ms (uart_rx u ?h) (take n bs @ drop n bs) rest" using less.prems by simp
    then obtain mid where m: "delivers ms (uart_rx u ?h) (take n bs) mid" "delivers ms mid (drop n bs) rest"
      unfolding delivers_append by blast
    from read_block_delivers [OF m(1), of p] n
    have 1: "read_block i ms n p u = Some (True, p @ take n bs, set_rx ?h mid u)" by simp
    let ?u = "add_tx ?h ack_frame (set_rx ?h mid u)"
    have "read_body i ms (length (drop n bs)) (p @ take n bs) ?u = Some (MSG_OK, (p @ take n bs) @ drop n bs,
        add_tx ?h (concat (replicate ((length (drop n bs) + 255) div 256) ack_frame)) (set_rx ?h rest ?u))"
      using n m(2) False by (intro less.hyps) auto
    with 1 False n show ?thesis
      by (subst read_body.simps) (simp add: write_ack_eq Let_def n_def [symmetric])
  qed
qed

lemma read_frame_ok:
  assumes sync: "delivers sync_ms (uart_rx u (get_uart_handle i)) (junk @ [MSG_MAGIC]) ps" "MSG_MAGIC \<notin> set junk"
    and body: "delivers ms ps ([cmd] @ le16 (of_nat (length data)) @ data) rest"
    and len: "length data < 65536" "cap = 0 \<or> length data \<le> unat cap"
  shows "read_frame i sync_ms ms cap u =
    Some (\<lparr>pk_status = MSG_OK, pk_cmd = Some cmd, pk_len = of_nat (length data), pk_data = data\<rparr>,
          add_tx (get_uart_handle i) (concat (replicate (frame_blocks (length data)) ack_frame))
            (set_rx (get_uart_handle i) rest u))"
proof -
  let ?h = "get_uart_handle i"
  obtain lo hi where le: "le16 (of_nat (length data)) = [lo, hi]" by (simp add: le16_def)
  then have un: "un_le16 [lo, hi] = of_nat (length data)" by (metis un_le16_bare)
  have unat: "unat (of_nat (length data) :: u16) = length data" using len(1) by (simp add: unat_of_nat)
  have 0: "read_sync i sync_ms u = Some (True, set_rx ?h ps u)"
    by (rule read_sync_delivers [OF sync])
  from readbyte_delivers [of ms "set_rx ?h ps u" i cmd "lo # hi # data" rest] body le obtain p1 where
    1: "uart_readbyte_timeout i ms (set_rx ?h ps u) = Some (Some cmd, set_rx ?h p1 u)"
    and d1: "delivers ms p1 (lo # hi # data) rest" by auto
  from readbyte_delivers [of ms "set_rx ?h p1 u" i lo "hi # data" rest] d1 obtain p2 where
    2: "uart_readbyte_timeout i ms (set_rx ?h p1 u) = Some (Some lo, set_rx ?h p2 u)"
    and d2: "delivers ms p2 (hi # data) rest" by auto
  from readbyte_delivers [of ms "set_rx ?h p2 u" i hi data rest] d2 obtain p3 where
    3: "uart_readbyte_timeout i ms (set_rx ?h p2 u) = Some (Some hi, set_rx ?h p3 u)"
    and d3: "delivers ms p3 data rest" by auto
  have 4: "read_body i ms (length data) [] (add_tx ?h ack_frame (set_rx ?h p3 u)) = Some (MSG_OK, data,
      add_tx ?h (ack_frame @ concat (replicate ((length data + 255) div 256) ack_frame)) (set_rx ?h rest u))"
    using read_body_delivers [of ms "add_tx ?h ack_frame (set_rx ?h p3 u)" i data rest "[]"] d3 by simp
  have "\<not> (cap \<noteq> 0 \<and> cap < (of_nat (length data) :: u16))"
    using len(2) by (auto simp: word_less_nat_alt unat)
  with 0 1 2 3 4 show ?thesis
    by (simp add: read_frame_def un unat write_ack_eq frame_blocks_def Let_def)
qed

text \<open>
  Whatever the peer sends: the data stored stay within the limit (or the 16-bit length), a
  frame accepted has exactly the length announced, and the answer is acknowledgements only.
\<close>

definition only_acks :: "int \<Rightarrow> uart_dev \<Rightarrow> uart_dev \<Rightarrow> bool" where
  "only_acks h u u' \<longleftrightarrow> (\<exists>n. uart_tx u' h = uart_tx u h @ concat (replicate n ack_frame)) \<and>
     (\<forall>k. k \<noteq> h \<longrightarrow> uart_tx u' k = uart_tx u k \<and> uart_rx u' k = uart_rx u k)"

lemma only_acks_refl [simp]: "only_acks h u u"
  by (auto simp: only_acks_def intro: exI [of _ 0])

lemma only_acks_trans [trans]: "only_acks h u v \<Longrightarrow> only_acks h v w \<Longrightarrow> only_acks h u w"
  unfolding only_acks_def by (metis append_assoc concat_append replicate_add)

lemma only_acks_rx: "rx_only h u v \<Longrightarrow> only_acks h u v"
  unfolding rx_only_def only_acks_def by (metis append_Nil2 concat.simps(1) replicate_0)

lemma only_acks_ack: "only_acks h u (add_tx h ack_frame u)"
  by (auto simp: only_acks_def intro: exI [of _ 1])

lemma only_acks_read:
  "only_acks (get_uart_handle i) u v \<Longrightarrow> uart_readbyte_timeout i ms v = Some (b, w) \<Longrightarrow> only_acks (get_uart_handle i) u w"
  using only_acks_trans only_acks_rx readbyte_timeout_rx_only by blast

lemma read_sync_only_acks:
  assumes "read_sync i ms u = Some (ok, u')"
  shows "only_acks (get_uart_handle i) u u'"
proof -
  have "\<forall>ok u'. r = (ok, u') \<longrightarrow> only_acks (get_uart_handle i) u u'" if "read_sync i ms u = Some r" for r
  proof (rule read_sync.raw_induct
      [where P = "\<lambda>i ms u r. \<forall>ok u'. r = (ok, u') \<longrightarrow> only_acks (get_uart_handle i) u u'", OF _ that])
    fix sync :: "int \<Rightarrow> u32 \<Rightarrow> uart_dev \<Rightarrow> (bool \<times> uart_dev) option" and i ms u r
    assume IH: "\<And>i ms u r. sync i ms u = Some r \<Longrightarrow> \<forall>ok u'. r = (ok, u') \<longrightarrow> only_acks (get_uart_handle i) u u'"
      and r: "do { (b, u) \<leftarrow> uart_readbyte_timeout i ms u;
           if b = None then Some (False, u)
           else if b = Some MSG_MAGIC then Some (True, u)
           else sync i ms u } = Some r"
    then obtain b v where v: "uart_readbyte_timeout i ms u = Some (b, v)"
      and "(if b = None then Some (False, v) else if b = Some MSG_MAGIC then Some (True, v) else sync i ms v) = Some r"
      by (auto simp: bind_eq_Some_conv)
    with IH [of i ms v r] only_acks_read [OF only_acks_refl v]
    show "\<forall>ok u'. r = (ok, u') \<longrightarrow> only_acks (get_uart_handle i) u u'"
      by (auto split: if_splits intro: only_acks_trans)
  qed
  with assms show ?thesis by blast
qed

lemma read_block_any:
  "read_block i ms n p u = Some (ok, q, u') \<Longrightarrow>
   only_acks (get_uart_handle i) u u' \<and> length q \<le> length p + n \<and> (ok \<longrightarrow> length q = length p + n)"
proof (induction n arbitrary: p u)
  case (Suc n)
  then obtain b v where v: "uart_readbyte_timeout i ms u = Some (b, v)"
    and r: "(case b of None \<Rightarrow> Some (False, p, v) | Some b \<Rightarrow> read_block i ms n (p @ [b]) v) = Some (ok, q, u')"
    by (auto simp: bind_eq_Some_conv)
  show ?case
  proof (cases b)
    case None
    with r only_acks_read [OF only_acks_refl v] show ?thesis by auto
  next
    case (Some c)
    with r Suc.IH [of "p @ [c]" v] only_acks_read [OF only_acks_refl v]
    show ?thesis by (auto intro: only_acks_trans)
  qed
qed auto

lemma read_body_any:
  "read_body i ms n p u = Some (rc, q, u') \<Longrightarrow>
   only_acks (get_uart_handle i) u u' \<and> length q \<le> length p + n \<and> (rc = MSG_OK \<longrightarrow> length q = length p + n)"
proof (induction n arbitrary: p u rule: less_induct)
  case (less n)
  show ?case
  proof (cases "n = 0")
    case True
    with less.prems show ?thesis by (auto simp: read_body.simps)
  next
    case False
    define k where "k = (if n < 256 then n else 256)"
    from less.prems False obtain ok p1 v where b: "read_block i ms k p u = Some (ok, p1, v)"
      and r: "if \<not> ok then (rc, q, u') = (MSG_TIMEOUT, p1, v)
        else read_body i ms (n - k) p1 (add_tx (get_uart_handle i) ack_frame v) = Some (rc, q, u')"
      by (subst (asm) read_body.simps)
         (auto simp: Let_def write_ack_eq k_def [symmetric] bind_eq_Some_conv split: if_splits)
    from read_block_any [OF b] have 1: "only_acks (get_uart_handle i) u v" "length p1 \<le> length p + k"
      "ok \<longrightarrow> length p1 = length p + k" by auto
    have k: "0 < k" "k \<le> n" using False by (auto simp: k_def)
    show ?thesis
    proof (cases ok)
      case True
      with r have "read_body i ms (n - k) p1 (add_tx (get_uart_handle i) ack_frame v) = Some (rc, q, u')" by simp
      from less.IH [OF _ this] 1 k True only_acks_trans [OF only_acks_trans [OF 1(1) only_acks_ack], of u']
      show ?thesis by auto
    next
      case nok: False
      with r 1 k show ?thesis by auto
    qed
  qed
qed

lemma un16: "unat (len :: u16) \<le> 65535"
proof -
  have "unat len < 2 ^ LENGTH(16)" by (rule unsigned_less)
  then show ?thesis by simp
qed

lemma read_frame_any:
  assumes "read_frame i sync_ms ms cap u = Some (r, u')"
  shows "only_acks (get_uart_handle i) u u'"
    and "length (pk_data r) \<le> (if cap = 0 then 65535 else unat cap)"
    and "pk_status r = MSG_OK \<Longrightarrow> length (pk_data r) = unat (pk_len r) \<and> pk_cmd r \<noteq> None"
proof -
  let ?h = "get_uart_handle i"
  let ?good = "only_acks ?h u u' \<and> length (pk_data r) \<le> (if cap = 0 then 65535 else unat cap) \<and>
    (pk_status r = MSG_OK \<longrightarrow> length (pk_data r) = unat (pk_len r) \<and> pk_cmd r \<noteq> None)"
  have body: ?good
    if "only_acks ?h u v" and w: "read_body i ms (unat len) [] v = Some (rc, p, u')"
      and r: "r = \<lparr>pk_status = rc, pk_cmd = Some b, pk_len = len, pk_data = p\<rparr>" and cap: "\<not> (cap \<noteq> 0 \<and> cap < len)"
    for v len rc p b
  proof -
    have "unat len \<le> (if cap = 0 then 65535 else unat cap)"
      using cap un16 [of len] by (auto simp: word_less_nat_alt)
    with read_body_any [OF w] that(1) r show ?thesis by (auto intro: only_acks_trans)
  qed
  have ?good
  proof -
    from assms obtain ok v1 where v1: "read_sync i sync_ms u = Some (ok, v1)"
      by (auto simp: read_frame_def Let_def bind_eq_Some_conv)
    have a1: "only_acks ?h u v1" by (rule read_sync_only_acks [OF v1])
    show ?good
    proof (cases ok)
      case False
      with assms v1 a1 show ?good by (auto simp: read_frame_def Let_def)
    next
      case ok: True
      with assms v1 obtain b v2 where v2: "uart_readbyte_timeout i ms v1 = Some (b, v2)"
        by (auto simp: read_frame_def Let_def bind_eq_Some_conv)
      have a2: "only_acks ?h u v2" by (rule only_acks_read [OF a1 v2])
      show ?good
      proof (cases b)
        case None
        with assms v1 v2 a2 ok show ?good by (auto simp: read_frame_def Let_def)
      next
        case b: (Some c)
        with assms v1 v2 ok obtain lo v3 hi v4 where v3: "uart_readbyte_timeout i ms v2 = Some (lo, v3)"
          and v4: "uart_readbyte_timeout i ms v3 = Some (hi, v4)"
          by (auto simp: read_frame_def Let_def bind_eq_Some_conv)
        have a4: "only_acks ?h u v4" by (rule only_acks_read [OF only_acks_read [OF a2 v3] v4])
        have a5: "only_acks ?h u (add_tx ?h ack_frame v4)" by (rule only_acks_trans [OF a4 only_acks_ack])
        let ?len = "un_le16 [the lo, the hi]"
        have "(if lo = None \<or> hi = None
           then Some (\<lparr>pk_status = MSG_TIMEOUT, pk_cmd = Some c, pk_len = cap, pk_data = []\<rparr>, v4)
           else if cap \<noteq> 0 \<and> cap < ?len
           then Some (\<lparr>pk_status = MSG_BAD_LEN, pk_cmd = Some c, pk_len = cap, pk_data = []\<rparr>, add_tx ?h ack_frame v4)
           else do { (rc, p, u) \<leftarrow> read_body i ms (unat ?len) [] (add_tx ?h ack_frame v4);
                     Some (\<lparr>pk_status = rc, pk_cmd = Some c, pk_len = ?len, pk_data = p\<rparr>, u) }) = read_frame i sync_ms ms cap u"
          using v1 v2 v3 v4 ok b by (simp add: read_frame_def Let_def write_ack_eq del: line_simps)
        note r = this [unfolded assms]
        show ?good
        proof (cases "(lo = None \<or> hi = None) \<or> cap \<noteq> 0 \<and> cap < ?len")
          case True
          with r a4 a5 show ?good by (auto split: if_splits)
        next
          case False
          with r obtain rc p where "read_body i ms (unat ?len) [] (add_tx ?h ack_frame v4) = Some (rc, p, u')"
            "r = \<lparr>pk_status = rc, pk_cmd = Some c, pk_len = ?len, pk_data = p\<rparr>"
            by (auto simp: bind_eq_Some_conv split: if_splits)
          with False show ?good by (intro body [OF a5]) auto
        qed
      qed
    qed
  qed
  then show "only_acks ?h u u'" "length (pk_data r) \<le> (if cap = 0 then 65535 else unat cap)"
    "pk_status r = MSG_OK \<Longrightarrow> length (pk_data r) = unat (pk_len r) \<and> pk_cmd r \<noteq> None" by auto
qed

section \<open>Properties\<close>

text \<open>
  C11: What one side sends with \<^verbatim>\<open>write_packet\<close>, the other side's \<^verbatim>\<open>read_packet\<close> returns: the same
  opcode and the same payload, provided the payload fits the reader's limit and no byte is
  later than the frame timeout. The reader acknowledges the header and every 256-byte block.
\<close>

theorem packet_roundtrip:
  assumes "write_packet i type buf u = Some (MSG_OK, u')" "length buf < 65536" "cap = 0 \<or> length buf \<le> unat cap"
    and "uart_tx u' (get_uart_handle i) = uart_tx u (get_uart_handle i) @ bs"
    and "delivers (uart_frame_timeout_ms j) (uart_rx v (get_uart_handle j)) bs rest"
  shows "read_packet j cap v =
    Some (\<lparr>pk_status = MSG_OK, pk_cmd = Some type, pk_len = of_nat (length buf), pk_data = buf\<rparr>,
          add_tx (get_uart_handle j) (concat (replicate (frame_blocks (length buf)) ack_frame))
            (set_rx (get_uart_handle j) rest v))"
proof -
  from write_packet_prefix(2) [OF assms(1)] assms(4)
  have "bs = ([] @ [MSG_MAGIC]) @ [type] @ le16 (of_nat (length buf)) @ buf" by (simp add: msg_header_def)
  with assms(5) obtain ps where
    "delivers (uart_frame_timeout_ms j) (uart_rx v (get_uart_handle j)) ([] @ [MSG_MAGIC]) ps"
    "delivers (uart_frame_timeout_ms j) ps ([type] @ le16 (of_nat (length buf)) @ buf) rest"
    using delivers_append by blast
  from read_frame_ok [OF this(1) _ this(2) assms(2,3)] show ?thesis
    by (simp add: read_packet_def Let_def)
qed

definition ref_line :: "byte list \<Rightarrow> uart_dev" where
  "ref_line bs = \<lparr>uart_rx = (\<lambda>_. map Some bs), uart_tx = (\<lambda>_. [])\<rparr>"

lemma delivers_ref: "delivers UART_XFER_TIMEOUT_MS (map Some bs) bs []"
  using delivers_now [of UART_XFER_TIMEOUT_MS bs "[]"] by simp

lemma xfer_timeout [simp]: "uart_frame_timeout_ms TRANSFER_INTERFACE = UART_XFER_TIMEOUT_MS"
  by (simp add: uart_frame_timeout_ms_def CONTROL_INTERFACE_def TRANSFER_INTERFACE_def)

lemma packet_roundtrip_witness:
  "\<exists>u' v'. write_packet TRANSFER_INTERFACE ERROR_MSG [7, 8] (ref_line []) = Some (MSG_OK, u') \<and>
     read_packet TRANSFER_INTERFACE 16 (ref_line [0x25, 0x45, 2, 0, 7, 8]) =
       Some (\<lparr>pk_status = MSG_OK, pk_cmd = Some ERROR_MSG, pk_len = 2, pk_data = [7, 8]\<rparr>, v')"
proof -
  obtain u' where w: "write_packet TRANSFER_INTERFACE ERROR_MSG [7, 8] (ref_line []) = Some (MSG_OK, u')"
    and t: "uart_tx u' (get_uart_handle TRANSFER_INTERFACE)
      = uart_tx (ref_line []) (get_uart_handle TRANSFER_INTERFACE) @ [0x25, 0x45, 2, 0, 7, 8]"
    by (simp add: write_packet_quiet needs_ack_def msg_header_def MSG_MAGIC_def le16_def)
  have "delivers (uart_frame_timeout_ms TRANSFER_INTERFACE)
      (uart_rx (ref_line [0x25, 0x45, 2, 0, 7, 8]) (get_uart_handle TRANSFER_INTERFACE)) [0x25, 0x45, 2, 0, 7, 8] []"
    using delivers_ref [of "[0x25, 0x45, 2, 0, 7, 8]"] by (simp add: ref_line_def)
  from packet_roundtrip [OF w _ _ t this, of 16] w show ?thesis by simp
qed

text \<open>
  The acknowledgements a reader sends for a packet are exactly those its writer waits for:
  once they arrive the write succeeds and consumes them all, with the whole frame sent.
\<close>

theorem packet_acks_suffice:
  assumes "needs_ack type"
    and "delivers (uart_frame_timeout_ms i) (uart_rx u (get_uart_handle i))
      (concat (replicate (frame_blocks (length buf)) ack_frame)) rest"
  shows "write_packet i type buf u = Some (MSG_OK, add_tx (get_uart_handle i)
      (msg_header type (of_nat (length buf)) @ buf) (set_rx (get_uart_handle i) rest u))"
proof (rule write_packet_acked [OF assms(2) _ _ assms(1)])
  show "acks (replicate (frame_blocks (length buf)) ack_frame)"
    by (simp add: acks_def ack_frame_def msg_header_def le16_def)
qed simp

lemma packet_acks_suffice_witness:
  "needs_ack WRITE_MSG \<and>
   write_packet TRANSFER_INTERFACE WRITE_MSG [] (ref_line ack_frame) =
     Some (MSG_OK, \<lparr>uart_rx = (\<lambda>_. map Some ack_frame)(1 := []), uart_tx = (\<lambda>_. [])(1 := [0x25, 0x57, 0, 0])\<rparr>)"
proof -
  have n: "needs_ack WRITE_MSG" by (simp add: needs_ack_def)
  have "delivers (uart_frame_timeout_ms TRANSFER_INTERFACE) (uart_rx (ref_line ack_frame) (get_uart_handle TRANSFER_INTERFACE))
      (concat (replicate (frame_blocks (length [])) ack_frame)) []"
    using delivers_ref [of ack_frame] by (simp add: ref_line_def frame_blocks_def)
  from packet_acks_suffice [OF n this] n show ?thesis
    by (simp add: ref_line_def set_rx_def add_tx_def msg_header_def MSG_MAGIC_def le16_def)
qed

text \<open>
  C33: Whatever bytes arrive, a read with a limit stores no more than the limit, an accepted
  frame has exactly the announced length, and the reader sends nothing but acknowledgements on
  that line and touches no other. With the limit 0 the only bound is the 16-bit length.
\<close>

theorem read_packet_bounded:
  assumes "read_packet i cap u = Some (r, u')"
  shows "length (pk_data r) \<le> (if cap = 0 then 65535 else unat cap) \<and> only_acks (get_uart_handle i) u u' \<and>
    (pk_status r = MSG_OK \<longrightarrow> length (pk_data r) = unat (pk_len r) \<and> pk_cmd r \<noteq> None)"
  using read_frame_any [OF assms [unfolded read_packet_def Let_def]] by blast

lemma read_packet_bounded_witness:
  "\<exists>r u'. read_packet TRANSFER_INTERFACE 4 (ref_line []) = Some (r, u') \<and> length (pk_data r) \<le> 4"
proof -
  have "read_sync TRANSFER_INTERFACE UART_XFER_TIMEOUT_MS (ref_line []) = Some (False, ref_line [])"
    by (subst read_sync.simps)
       (simp add: uart_readbyte_timeout_def ref_line_def UART_XFER_TIMEOUT_MS_def UART_RX_TIMEOUT_MS_def)
  then obtain r where "read_packet TRANSFER_INTERFACE 4 (ref_line []) = Some (r, ref_line [])"
    by (simp add: read_packet_def read_frame_def)
  with read_packet_bounded [OF this] show ?thesis by auto
qed

end
