(* ===== verification/Design.thy ===== *)
theory Design
  imports Crypto Trng
begin

text \<open>
  \<^verbatim>\<open>firmware/src/secure_design.c\<close> (target build): the root secret, nonces from the TRNG, and
  the replay cache of the HSM-to-HSM protocol, a ring of eight entries. Its contract is a
  sliding window of the last eight exchanges accepted (\<open>replay_spec\<close>), and the ring refines
  it.
\<close>

definition security_get_root_secret :: "platform \<Rightarrow> secure_crypto_root_secret option" where
  "security_get_root_secret P = secure_crypto_root_secret_from_global_secrets (GLOBAL_SECRETS P)"

definition security_generate_nonce :: "nat \<Rightarrow> trng_dev \<Rightarrow> (byte list option \<times> trng_dev) option" where
  "security_generate_nonce out_len s =
     (if out_len = 0 then Some (None, s)
      else do { (bs, s) \<leftarrow> trng_read_bytes out_len s; Some (Some bs, s) })"

lemma root_secret_ok: "secrets_ok P \<Longrightarrow> \<exists>root. security_get_root_secret P = Some root"
  by (simp add: security_get_root_secret_def secure_crypto_root_secret_from_global_secrets_def secrets_ok_def)

lemma nonce_length: "security_generate_nonce n s = Some (Some bs, s') \<Longrightarrow> length bs = n \<and> 0 < n"
  by (auto simp: security_generate_nonce_def bind_eq_Some_conv trng_read_length split: if_splits)

lemma nonce_some: "0 < n \<Longrightarrow> security_generate_nonce n s = Some (r, s') \<Longrightarrow> \<exists>bs. r = Some bs \<and> length bs = n"
  by (auto simp: security_generate_nonce_def bind_eq_Some_conv trng_read_length split: if_splits)

section \<open>The replay cache\<close>

record replay_entry =
  replay_nr :: u32
  replay_nt :: u32
  replay_group_id :: u16
  replay_op :: byte
  replay_valid :: bool

record replay_cache =
  g_replay_cache :: "replay_entry list"
  g_replay_next :: nat

definition SECURE_UART_REPLAY_CACHE_SIZE :: nat where
  "SECURE_UART_REPLAY_CACHE_SIZE = 8"

definition replay_entry_zero :: replay_entry where
  "replay_entry_zero = \<lparr>replay_nr = 0, replay_nt = 0, replay_group_id = 0, replay_op = 0, replay_valid = False\<rparr>"

text \<open>The cache at reset (static storage), and after \<^verbatim>\<open>clear_replay_cache\<close>.\<close>

definition security_secure_uart_clear_replay_cache :: "replay_cache \<Rightarrow> replay_cache" where
  "security_secure_uart_clear_replay_cache c =
     c\<lparr>g_replay_cache := replicate SECURE_UART_REPLAY_CACHE_SIZE replay_entry_zero, g_replay_next := 0\<rparr>"

definition security_secure_uart_check_and_update_replay ::
    "u32 \<Rightarrow> u32 \<Rightarrow> u16 \<Rightarrow> byte \<Rightarrow> replay_cache \<Rightarrow> bool \<times> replay_cache" where
  "security_secure_uart_check_and_update_replay Nr Nt group_id opc c =
     (if list_ex (\<lambda>e. replay_valid e \<and> replay_nr e = Nr \<and> replay_nt e = Nt \<and>
                      replay_group_id e = group_id \<and> replay_op e = opc) (g_replay_cache c)
      then (False, c)
      else let e = \<lparr>replay_nr = Nr, replay_nt = Nt, replay_group_id = group_id,
                    replay_op = opc, replay_valid = True\<rparr>
           in (True, c\<lparr>g_replay_cache := (g_replay_cache c)[g_replay_next c := e],
                       g_replay_next := (g_replay_next c + 1) mod SECURE_UART_REPLAY_CACHE_SIZE\<rparr>))"

type_synonym replay_key = "u32 \<times> u32 \<times> u16 \<times> byte"

fun replay_check :: "replay_key \<Rightarrow> replay_cache \<Rightarrow> bool \<times> replay_cache" where
  "replay_check (nr, nt, g, opc) c = security_secure_uart_check_and_update_replay nr nt g opc c"

section \<open>Its contract\<close>

text \<open>The window of at most \<open>cap\<close> keys, oldest first.\<close>

definition replay_spec :: "nat \<Rightarrow> 'k \<Rightarrow> 'k list \<Rightarrow> bool \<times> 'k list" where
  "replay_spec cap k w =
     (if k \<in> set w then (False, w) else (True, drop (length w + 1 - cap) (w @ [k])))"

definition replay_key_of :: "replay_entry \<Rightarrow> replay_key" where
  "replay_key_of e = (replay_nr e, replay_nt e, replay_group_id e, replay_op e)"

definition replay_window :: "replay_cache \<Rightarrow> replay_key list" where
  "replay_window c = map replay_key_of (filter replay_valid
     (drop (g_replay_next c) (g_replay_cache c) @ take (g_replay_next c) (g_replay_cache c)))"

definition replay_inv :: "replay_cache \<Rightarrow> bool" where
  "replay_inv c \<longleftrightarrow> length (g_replay_cache c) = 8 \<and> g_replay_next c < 8 \<and>
     ((\<forall>i < 8. replay_valid (g_replay_cache c ! i)) \<or>
      (\<forall>i < 8. replay_valid (g_replay_cache c ! i) \<longleftrightarrow> i < g_replay_next c))"

locale replay_guard =
  fixes check :: "'k \<Rightarrow> 's \<Rightarrow> bool \<times> 's" and window :: "'s \<Rightarrow> 'k list" and good :: "'s \<Rightarrow> bool"
    and cap :: nat
  assumes cap_pos: "0 < cap"
    and good_check: "good s \<Longrightarrow> good (snd (check k s))"
    and window_le: "good s \<Longrightarrow> length (window s) \<le> cap"
    and refines: "good s \<Longrightarrow> (fst (check k s), window (snd (check k s))) = replay_spec cap k (window s)"
begin

lemma accepts_iff: "good s \<Longrightarrow> fst (check k s) \<longleftrightarrow> k \<notin> set (window s)"
  using refines [of s k] by (auto simp: replay_spec_def split: if_splits)

lemma window_check: "good s \<Longrightarrow> window (snd (check k s)) = snd (replay_spec cap k (window s))"
  using refines [of s k] by (metis snd_conv)

lemma recorded: "good s \<Longrightarrow> k \<in> set (window (snd (check k s)))"
proof -
  assume s: "good s"
  have "k \<in> set (drop (length (window s) + 1 - cap) (window s @ [k]))"
    using cap_pos window_le [OF s] by (simp add: drop_append)
  with s show ?thesis by (simp add: window_check replay_spec_def)
qed

text \<open>An exchange is not accepted twice in a row.\<close>

lemma rejects_again: "good s \<Longrightarrow> \<not> fst (check k (snd (check k s)))"
  by (simp add: accepts_iff good_check recorded)

text \<open>The checks of a sequence of keys.\<close>

definition run :: "'k list \<Rightarrow> 's \<Rightarrow> 's" where
  "run ks s = fold (\<lambda>k s. snd (check k s)) ks s"

lemma good_run: "good s \<Longrightarrow> good (run ks s)"
  unfolding run_def by (induction ks arbitrary: s) (auto intro: good_check)

text \<open>A key at distance less than \<open>cap\<close> from the newest end stays in the window.\<close>

lemma kept:
  "good s \<Longrightarrow> window s = xs @ k # ys \<Longrightarrow> length ys + length ks < cap \<Longrightarrow> k \<in> set (window (run ks s))"
proof (induction ks arbitrary: s xs ys)
  case Nil
  then show ?case by (simp add: run_def)
next
  case (Cons a ks)
  let ?s = "snd (check a s)"
  have "\<exists>xs' ys'. window ?s = xs' @ k # ys' \<and> length ys' \<le> Suc (length ys)"
  proof (cases "a \<in> set (window s)")
    case True
    then show ?thesis
      by (intro exI [of _ xs] exI [of _ ys]) (simp add: window_check [OF Cons.prems(1)] replay_spec_def Cons.prems(2))
  next
    case False
    let ?n = "length (window s) + 1 - cap"
    have "?n \<le> length xs" using window_le [OF Cons.prems(1)] Cons.prems(2,3) cap_pos by auto
    then have "drop ?n (window s @ [a]) = drop ?n xs @ k # (ys @ [a])"
      using Cons.prems(2) by (simp add: drop_append)
    with False Cons.prems(1) show ?thesis
      by (intro exI [of _ "drop ?n xs"] exI [of _ "ys @ [a]"]) (simp add: window_check replay_spec_def)
  qed
  then obtain xs' ys' where "window ?s = xs' @ k # ys'" "length ys' \<le> Suc (length ys)" by blast
  with Cons.prems have "k \<in> set (window (run ks ?s))"
    by (intro Cons.IH) (auto intro: good_check)
  then show ?case by (simp add: run_def)
qed

text \<open>
  Once seen, a key is refused for as long as fewer than \<open>cap\<close> other checks come between.
\<close>

lemma rejects_within:
  assumes "good s" "length ks < cap" "fst (check k s)"
  shows "\<not> fst (check k (run ks (snd (check k s))))"
proof -
  from assms(1,3) have new: "k \<notin> set (window s)" by (simp add: accepts_iff)
  let ?n = "length (window s) + 1 - cap"
  have "window (snd (check k s)) = drop ?n (window s) @ k # []"
    using new assms(1) window_le [OF assms(1)] cap_pos
    by (simp add: window_check replay_spec_def drop_append)
  from kept [OF good_check [OF assms(1)] this] assms
  show ?thesis by (simp add: accepts_iff good_run good_check)
qed

end

lemma replay_cells:
  assumes "length xs = 8" "n < 8"
  shows "xs = take n xs @ xs ! n # drop (Suc n) xs"
  using assms by (simp add: id_take_nth_drop)

lemma replay_inv_clear: "replay_inv (security_secure_uart_clear_replay_cache c)"
  by (simp add: replay_inv_def security_secure_uart_clear_replay_cache_def replay_entry_zero_def
      SECURE_UART_REPLAY_CACHE_SIZE_def)

lemma replay_seen_iff:
  assumes "replay_inv c"
  shows "list_ex (\<lambda>e. replay_valid e \<and> replay_nr e = nr \<and> replay_nt e = nt \<and>
           replay_group_id e = g \<and> replay_op e = opc) (g_replay_cache c)
         \<longleftrightarrow> (nr, nt, g, opc) \<in> set (replay_window c)"
proof -
  have "set (g_replay_cache c) = set (drop (g_replay_next c) (g_replay_cache c)) \<union> set (take (g_replay_next c) (g_replay_cache c))"
    by (metis Un_commute append_take_drop_id set_append)
  then show ?thesis by (auto simp: list_ex_iff replay_window_def replay_key_of_def)
qed

lemma replay_inv_check:
  assumes "replay_inv c"
  shows "replay_inv (snd (replay_check k c))"
proof (cases "fst (replay_check k c)")
  case False
  then show ?thesis using assms
    by (cases k) (auto simp: security_secure_uart_check_and_update_replay_def Let_def split: if_splits)
next
  case True
  obtain nr nt g opc where k: "k = (nr, nt, g, opc)" by (cases k)
  define e where "e = \<lparr>replay_nr = nr, replay_nt = nt, replay_group_id = g, replay_op = opc, replay_valid = True\<rparr>"
  have e: "replay_valid e" by (simp add: e_def)
  have c': "snd (replay_check k c) =
      c\<lparr>g_replay_cache := (g_replay_cache c)[g_replay_next c := e], g_replay_next := (g_replay_next c + 1) mod 8\<rparr>"
    using True
    by (auto simp: k e_def security_secure_uart_check_and_update_replay_def Let_def
        SECURE_UART_REPLAY_CACHE_SIZE_def split: if_splits)
  let ?xs = "g_replay_cache c" and ?n = "g_replay_next c"
  from assms have n: "length ?xs = 8" "?n < 8" by (auto simp: replay_inv_def)
  show ?thesis
  proof (cases "(\<forall>i < 8. replay_valid (?xs ! i)) \<or> ?n = 7")
    case True
    with assms n e have "\<forall>i < 8. replay_valid (?xs[?n := e] ! i)"
      by (auto simp: replay_inv_def nth_list_update)
    with n show ?thesis by (simp add: c' replay_inv_def)
  next
    case False
    with assms n have "\<forall>i < 8. replay_valid (?xs ! i) \<longleftrightarrow> i < ?n" "?n < 7" by (auto simp: replay_inv_def)
    with n e have "\<forall>i < 8. replay_valid (?xs[?n := e] ! i) \<longleftrightarrow> i < ?n + 1"
      by (auto simp: nth_list_update)
    with n \<open>?n < 7\<close> show ?thesis by (simp add: c' replay_inv_def)
  qed
qed

lemma replay_window_update:
  assumes "length xs = 8" "n < 8"
  shows "drop (Suc n mod 8) (xs[n := e]) @ take (Suc n mod 8) (xs[n := e]) = drop (Suc n) xs @ take n xs @ [e]"
proof -
  have u: "xs[n := e] = take n xs @ e # drop (Suc n) xs"
    using assms by (simp add: upd_conv_take_nth_drop)
  show ?thesis
  proof (cases "n = 7")
    case True
    with assms u [unfolded True] show ?thesis by simp
  next
    case False
    with assms have "Suc n mod 8 = Suc n" by simp
    with assms show ?thesis by (simp add: u)
  qed
qed

lemma replay_check_refines:
  assumes "replay_inv c"
  shows "(fst (replay_check k c), replay_window (snd (replay_check k c))) = replay_spec 8 k (replay_window c)"
proof (cases "k \<in> set (replay_window c)")
  case True
  with replay_seen_iff [OF assms] show ?thesis
    by (cases k) (simp add: security_secure_uart_check_and_update_replay_def replay_spec_def)
next
  case False
  obtain nr nt g opc where k: "k = (nr, nt, g, opc)" by (cases k)
  let ?xs = "g_replay_cache c" and ?n = "g_replay_next c"
  from assms have n: "length ?xs = 8" "?n < 8" by (auto simp: replay_inv_def)
  let ?e = "\<lparr>replay_nr = nr, replay_nt = nt, replay_group_id = g, replay_op = opc, replay_valid = True\<rparr>"
  from False replay_seen_iff [OF assms] k have c': "replay_check k c =
      (True, c\<lparr>g_replay_cache := ?xs[?n := ?e], g_replay_next := Suc ?n mod 8\<rparr>)"
    by (simp add: security_secure_uart_check_and_update_replay_def SECURE_UART_REPLAY_CACHE_SIZE_def)
  let ?rest = "map replay_key_of (filter replay_valid (drop (Suc ?n) ?xs @ take ?n ?xs))"
  have d: "drop ?n ?xs = ?xs ! ?n # drop (Suc ?n) ?xs" using n by (simp add: Cons_nth_drop_Suc)
  have w: "replay_window c = (if replay_valid (?xs ! ?n) then [replay_key_of (?xs ! ?n)] else []) @ ?rest"
    by (simp add: replay_window_def d)
  have w': "replay_window (snd (replay_check k c)) = ?rest @ [k]"
    unfolding c' using n
    by (simp add: replay_window_def replay_window_update del: filter_append) (simp add: replay_key_of_def k)
  have len: "length ?rest = (if replay_valid (?xs ! ?n) then 7 else ?n)"
  proof (cases "\<forall>i < 8. replay_valid (?xs ! i)")
    case True
    then have "\<forall>e \<in> set ?xs. replay_valid e" using n by (auto simp: in_set_conv_nth)
    then have "filter replay_valid (drop (Suc ?n) ?xs @ take ?n ?xs) = drop (Suc ?n) ?xs @ take ?n ?xs"
      by (intro filter_True) (auto dest: in_set_dropD in_set_takeD)
    with True n show ?thesis by simp
  next
    case False
    with assms have v: "\<forall>i < 8. replay_valid (?xs ! i) \<longleftrightarrow> i < ?n" by (auto simp: replay_inv_def)
    then have "filter replay_valid (drop (Suc ?n) ?xs) = []" "filter replay_valid (take ?n ?xs) = take ?n ?xs"
      using n by (auto simp: filter_empty_conv in_set_conv_nth intro!: filter_True)
    with v n show ?thesis by simp
  qed
  show ?thesis
    using False w w' len n by (auto simp: replay_spec_def c')
qed

lemma replay_window_le: "replay_inv c \<Longrightarrow> length (replay_window c) \<le> 8"
proof -
  assume "replay_inv c"
  then have "length (drop (g_replay_next c) (g_replay_cache c) @ take (g_replay_next c) (g_replay_cache c)) = 8"
    by (simp add: replay_inv_def)
  then show ?thesis unfolding replay_window_def length_map by (metis length_filter_le)
qed

interpretation replay: replay_guard replay_check replay_window replay_inv 8
  by unfold_locales (simp_all add: replay_inv_check replay_window_le replay_check_refines)

section \<open>Properties\<close>

text \<open>
  C25: The replay cache refines a window of the last eight accepted exchanges: a check accepts
  a key exactly when it is not in the window, and then the window is the old one with the key
  appended and the oldest dropped if there were eight. The cache stays well formed.
\<close>

theorem replay_window_refines:
  assumes "replay_inv c" "security_secure_uart_check_and_update_replay nr nt g opc c = (ok, c')"
  shows "(ok, replay_window c') = replay_spec 8 (nr, nt, g, opc) (replay_window c) \<and> replay_inv c'"
  using replay.refines [of c "(nr, nt, g, opc)"] replay.good_check [of c "(nr, nt, g, opc)"] assms by simp

text \<open>
  An exchange that was accepted is refused when it is replayed, as long as fewer than eight
  other exchanges were checked in between.
\<close>

lemma replay_refused:
  assumes "replay_inv c" "length others < 8"
    and "security_secure_uart_check_and_update_replay nr nt g opc c = (True, c1)"
    and "c2 = fold (\<lambda>k s. snd (replay_check k s)) others c1"
  shows "\<not> fst (security_secure_uart_check_and_update_replay nr nt g opc c2)"
  using replay.rejects_within [of c others "(nr, nt, g, opc)"] assms by (simp add: replay.run_def)

definition ref_replay :: replay_cache where
  "ref_replay = \<lparr>g_replay_cache = replicate 8 replay_entry_zero, g_replay_next = 0\<rparr>"

lemma ref_replay_inv: "replay_inv ref_replay"
  by (simp add: ref_replay_def replay_inv_def replay_entry_zero_def)

lemma replay_window_refines_witness:
  "\<exists>c'. security_secure_uart_check_and_update_replay 1 2 3 4 ref_replay = (True, c') \<and>
        replay_window c' = [(1, 2, 3, 4)]"
proof -
  obtain ok c' where c: "security_secure_uart_check_and_update_replay 1 2 3 4 ref_replay = (ok, c')" by fastforce
  have "replay_window ref_replay = []"
    by (simp add: replay_window_def ref_replay_def replay_entry_zero_def)
  with replay_window_refines [OF ref_replay_inv c] c show ?thesis by (simp add: replay_spec_def)
qed

lemma replay_refused_witness:
  "\<exists>c1. security_secure_uart_check_and_update_replay 1 2 3 4 ref_replay = (True, c1) \<and>
     \<not> fst (security_secure_uart_check_and_update_replay 1 2 3 4
              (fold (\<lambda>k s. snd (replay_check k s)) [(9, 9, 9, 9), (8, 8, 8, 8)] c1))"
proof -
  have "fst (security_secure_uart_check_and_update_replay 1 2 3 4 ref_replay)"
    by (simp add: security_secure_uart_check_and_update_replay_def ref_replay_def replay_entry_zero_def Let_def list_ex_iff)
  then obtain c1 where c: "security_secure_uart_check_and_update_replay 1 2 3 4 ref_replay = (True, c1)"
    by (metis prod.collapse)
  with replay_refused [OF ref_replay_inv _ c refl, of "[(9, 9, 9, 9), (8, 8, 8, 8)]"] show ?thesis by simp
qed

end
