(* ===== verification/Pin.thy ===== *)
theory Pin
  imports Design Flash Reference_Platform
begin

text \<open>
  \<^verbatim>\<open>firmware/src/security.c\<close>: the PIN hash and failure counter in RAM and on their flash
  page, first-boot provisioning, \<^verbatim>\<open>check_pin\<close>, \<^verbatim>\<open>pin_change\<close>, and the permission table.
  The field \<open>pin_delay\<close> counts the iterations spent in \<^verbatim>\<open>fail_delay\<close>. The lemmas: which PINs
  are accepted, what each attempt does to the counter and to the page, and that the page
  interface of \<^verbatim>\<open>Flash\<close> holds, so that the state survives a reset.
\<close>

record pin_state =
  g_pin_hash :: "byte list"
  g_fail_count :: u32
  g_initialized :: bool
  pin_delay :: nat

definition PIN_STATE_FLASH_ADDR :: nat where "PIN_STATE_FLASH_ADDR = 0x3A800"
definition PIN_LENGTH :: nat where "PIN_LENGTH = 6"
definition PIN_MAX_LEN :: nat where "PIN_MAX_LEN = 20"
definition MAX_PERMS :: nat where "MAX_PERMS = 8"

text \<open>The state at reset: static storage.\<close>

definition pin_state_reset :: pin_state where
  "pin_state_reset = \<lparr>g_pin_hash = replicate 32 0, g_fail_count = 0, g_initialized = False, pin_delay = 0\<rparr>"

definition fail_delay :: "pin_state \<Rightarrow> pin_state" where
  "fail_delay s = s\<lparr>pin_delay := pin_delay s + 12500000\<rparr>"

definition compute_pin_hash :: "platform \<Rightarrow> byte list \<Rightarrow> byte list option" where
  "compute_pin_hash P pin =
     (case security_get_root_secret P of
        None \<Rightarrow> None
      | Some root \<Rightarrow>
          (case secure_crypto_derive_pin_mac_key root 32 of
             None \<Rightarrow> None
           | Some k_pin \<Rightarrow> secure_crypto_hmac_sha256 k_pin pin 32))"

text \<open>The page: hash, counter, the rest erased.\<close>

definition pin_page :: "byte list \<Rightarrow> u32 \<Rightarrow> byte list" where
  "pin_page hash count =
     (let page = replicate 1024 0xFF;
          page = put page 0 hash
      in put page 32 (le32 count))"

definition write_pin_state :: "platform \<Rightarrow> pin_state \<Rightarrow> flash_dev \<Rightarrow> int \<times> flash_dev" where
  "write_pin_state P s fl =
     (let page = pin_page (g_pin_hash s) (g_fail_count s);
          (rc, fl) = flash_simple_erase_page P PIN_STATE_FLASH_ADDR fl
      in if rc \<noteq> 0 then (- 1, fl)
         else let (rc, fl) = flash_simple_write P PIN_STATE_FLASH_ADDR page fl
              in if rc \<noteq> 0 then (- 1, fl) else (0, fl))"

definition load_pin_state :: "flash_dev \<Rightarrow> pin_state \<Rightarrow> pin_state" where
  "load_pin_state fl s =
     (let page = flash_simple_read PIN_STATE_FLASH_ADDR 1024 fl;
          s = s\<lparr>g_pin_hash := segment 0 32 page, g_fail_count := un_le32 (segment 32 4 page)\<rparr>
      in if g_fail_count s = 0xFFFFFFFF then s\<lparr>g_fail_count := 0\<rparr> else s)"

definition pin_hash_is_blank :: "pin_state \<Rightarrow> bool" where
  "pin_hash_is_blank s = list_all (\<lambda>b. b = 0xFF) (g_pin_hash s)"

definition provisioned_pin :: "platform \<Rightarrow> byte list" where
  "provisioned_pin P = takeWhile (\<lambda>b. b \<noteq> 0) (take PIN_MAX_LEN (HSM_PIN P))"

definition pin_init :: "platform \<Rightarrow> flash_dev \<Rightarrow> pin_state \<Rightarrow> int \<times> flash_dev \<times> pin_state" where
  "pin_init P fl s =
     (let s = load_pin_state fl s
      in if pin_hash_is_blank s
         then let pin = provisioned_pin P
              in if length pin < PIN_LENGTH then (- 1, fl, s)
                 else case compute_pin_hash P pin of
                        None \<Rightarrow> (- 1, fl, s)
                      | Some h \<Rightarrow>
                          let s = s\<lparr>g_pin_hash := h, g_fail_count := 0\<rparr>;
                              (rc, fl) = write_pin_state P s fl
                          in if rc \<noteq> 0 then (- 1, fl, s) else (0, fl, s\<lparr>g_initialized := True\<rparr>)
         else (0, fl, s\<lparr>g_initialized := True\<rparr>))"

definition pin_is_locked :: "pin_state \<Rightarrow> bool" where
  "pin_is_locked s = False"

definition check_pin :: "platform \<Rightarrow> byte list \<Rightarrow> flash_dev \<Rightarrow> pin_state \<Rightarrow> bool \<times> flash_dev \<times> pin_state" where
  "check_pin P pin fl s =
     (if \<not> g_initialized s then (False, fl, s)
      else case compute_pin_hash P (take PIN_LENGTH pin) of
             None \<Rightarrow> (False, fl, s)
           | Some candidate \<Rightarrow>
               if xor_diff 0 candidate (g_pin_hash s) = 0
               then if g_fail_count s \<noteq> 0
                    then let s = s\<lparr>g_fail_count := 0\<rparr>;
                             (_, fl) = write_pin_state P s fl
                         in (True, fl, s)
                    else (True, fl, s)
               else let s = s\<lparr>g_fail_count := g_fail_count s + 1\<rparr>;
                        (_, fl) = write_pin_state P s fl
                    in (False, fl, fail_delay s))"

definition pin_change ::
    "platform \<Rightarrow> byte list \<Rightarrow> byte list \<Rightarrow> flash_dev \<Rightarrow> pin_state \<Rightarrow> int \<times> flash_dev \<times> pin_state" where
  "pin_change P old_pin new_pin fl s =
     (if \<not> g_initialized s then (- 1, fl, s)
      else if length old_pin < PIN_LENGTH \<or> PIN_MAX_LEN < length old_pin then (- 1, fl, s)
      else if length new_pin < PIN_LENGTH \<or> PIN_MAX_LEN < length new_pin then (- 1, fl, s)
      else case compute_pin_hash P old_pin of
             None \<Rightarrow> (- 1, fl, s)
           | Some candidate \<Rightarrow>
               if xor_diff 0 candidate (g_pin_hash s) \<noteq> 0
               then let s = s\<lparr>g_fail_count := g_fail_count s + 1\<rparr>;
                        (_, fl) = write_pin_state P s fl
                    in (- 1, fl, fail_delay s)
               else case compute_pin_hash P new_pin of
                      None \<Rightarrow> (- 1, fl, s)
                    | Some h \<Rightarrow>
                        let s = s\<lparr>g_pin_hash := h, g_fail_count := 0\<rparr>;
                            (rc, fl) = write_pin_state P s fl
                        in (rc, fl, s))"

definition get_pin_hash :: "platform \<Rightarrow> byte list \<Rightarrow> byte list option" where
  "get_pin_hash P pin =
     (if length pin < PIN_LENGTH \<or> PIN_MAX_LEN < length pin then None else compute_pin_hash P pin)"

fun perm_granted :: "permission \<Rightarrow> group_permission \<Rightarrow> bool" where
  "perm_granted PERM_READ e = perm_read e"
| "perm_granted PERM_WRITE e = perm_write e"
| "perm_granted PERM_RECEIVE e = perm_receive e"

definition validate_permission :: "platform \<Rightarrow> u16 \<Rightarrow> permission \<Rightarrow> bool" where
  "validate_permission P group_id perm =
     (case find (\<lambda>e. perm_group_id e = group_id) (take MAX_PERMS (global_permissions P)) of
        None \<Rightarrow> False
      | Some e \<Rightarrow> perm_granted perm e)"

section \<open>The hash\<close>

definition K_master :: "platform \<Rightarrow> byte list" where
  "K_master P = segment 97 32 (GLOBAL_SECRETS P)"

definition pin_hash :: "platform \<Rightarrow> byte list \<Rightarrow> byte list" where
  "pin_hash P pin = hmac_spec (hmac_spec (K_master P) LABEL_PIN_MAC) pin"

lemma root_secret: "secrets_ok P \<Longrightarrow> security_get_root_secret P = Some \<lparr>k_master = K_master P\<rparr>"
  by (simp add: security_get_root_secret_def secure_crypto_root_secret_from_global_secrets_def
      secrets_ok_def K_master_def)

lemma compute_pin_hash_ok: "secrets_ok P \<Longrightarrow> compute_pin_hash P pin = Some (pin_hash P pin)"
  by (simp add: compute_pin_hash_def root_secret secure_crypto_derive_pin_mac_key_def
      secure_crypto_hmac_sha256_def hmac_sha256_raw_spec pin_hash_def)

lemma length_pin_hash [simp, sizes]: "length (pin_hash P pin) = 32"
  by (simp add: pin_hash_def)

lemma get_pin_hash_ok:
  "secrets_ok P \<Longrightarrow> 6 \<le> length pin \<Longrightarrow> length pin \<le> 20 \<Longrightarrow> get_pin_hash P pin = Some (pin_hash P pin)"
  by (simp add: get_pin_hash_def compute_pin_hash_ok PIN_LENGTH_def PIN_MAX_LEN_def)

section \<open>The page\<close>

lemma pin_page_eq: "length h = 32 \<Longrightarrow> pin_page h c = h @ le32 c @ replicate 988 0xFF"
  by (simp add: pin_page_def put_def)

lemma length_pin_page [simp, sizes]: "length h = 32 \<Longrightarrow> length (pin_page h c) = 1024"
  by (simp add: pin_page_eq)

lemma pin_addr [simp]: "PIN_STATE_FLASH_ADDR mod 1024 = 0" "PIN_STATE_FLASH_ADDR div 1024 = 234"
  by (simp_all add: PIN_STATE_FLASH_ADDR_def)

lemma write_pin_state_cases:
  assumes "write_pin_state P s fl = (rc, fl')"
  obtains "rc = - 1" "flash_simple_erase_page P PIN_STATE_FLASH_ADDR fl = (- 1, fl')"
    | fl1 rc1 where "flash_simple_erase_page P PIN_STATE_FLASH_ADDR fl = (0, fl1)"
        "flash_simple_write P PIN_STATE_FLASH_ADDR (pin_page (g_pin_hash s) (g_fail_count s)) fl1 = (rc1, fl')"
        "rc = rc1"
  using assms erase_rc [of P PIN_STATE_FLASH_ADDR fl]
    write_rc [of P PIN_STATE_FLASH_ADDR "pin_page (g_pin_hash s) (g_fail_count s)"]
  by (auto simp: write_pin_state_def Let_def split: prod.splits if_splits) (metis fst_conv insertE singletonD)+

definition pin_storable :: "byte list \<times> u32 \<Rightarrow> bool" where
  "pin_storable x \<longleftrightarrow> length (fst x) = 32 \<and> snd x \<noteq> 0xFFFFFFFF"

definition pin_flush :: "platform \<Rightarrow> byte list \<times> u32 \<Rightarrow> flash_dev \<Rightarrow> int \<times> flash_dev" where
  "pin_flush P x fl = write_pin_state P (pin_state_reset\<lparr>g_pin_hash := fst x, g_fail_count := snd x\<rparr>) fl"

definition pin_load :: "flash_dev \<Rightarrow> byte list \<times> u32" where
  "pin_load fl = (let s = load_pin_state fl pin_state_reset in (g_pin_hash s, g_fail_count s))"

lemma write_pin_state_flush: "write_pin_state P s = pin_flush P (g_pin_hash s, g_fail_count s)"
  by (simp add: fun_eq_iff pin_flush_def write_pin_state_def)

lemma load_pin_state_load:
  "load_pin_state fl s = s\<lparr>g_pin_hash := fst (pin_load fl), g_fail_count := snd (pin_load fl)\<rparr>"
  by (simp add: load_pin_state_def pin_load_def Let_def)

lemma pin_load_page:
  assumes "length h = 32" "flash_simple_read PIN_STATE_FLASH_ADDR 1024 fl = pin_page h c"
  shows "pin_load fl = (h, if c = 0xFFFFFFFF then 0 else c)"
  using assms by (simp add: pin_load_def load_pin_state_def Let_def pin_page_eq segment_def)

lemma pin_flush_frame:
  assumes "flash_ok P" "length (fst x) = 32" "pin_flush P x fl = (rc, fl')" "\<not> sector_of PIN_STATE_FLASH_ADDR a"
  shows "flash_mem fl' a = flash_mem fl a"
  using assms(3) unfolding pin_flush_def
proof (cases rule: write_pin_state_cases)
  case 1
  then show ?thesis using erase_frame [OF assms(1)] assms(4) by blast
next
  case (2 fl1 rc1)
  with assms show ?thesis
    using erase_frame [OF assms(1) 2(1) assms(4)]
      write_sector_frame [OF assms(1) pin_addr(1) _ 2(2) assms(4)] by simp
qed

lemma pin_flush_image:
  assumes "flash_ok P" "length (fst x) = 32" "pin_flush P x fl = (0, fl')"
  shows "flash_simple_read PIN_STATE_FLASH_ADDR 1024 fl' = pin_page (fst x) (snd x)"
  using assms(3) unfolding pin_flush_def
proof (cases rule: write_pin_state_cases)
  case (2 fl1 rc1)
  with assms(2) show ?thesis
    using rewrite_sector [OF assms(1) pin_addr(1) _ 2(1), of "pin_page (fst x) (snd x)" fl'] by simp
qed simp

lemma pin_flush_reliable: "flash_reliable P \<Longrightarrow> fst (pin_flush P x fl) = 0"
  using erase_reliable [of P PIN_STATE_FLASH_ADDR fl] write_reliable [of P PIN_STATE_FLASH_ADDR]
  by (auto simp: pin_flush_def write_pin_state_def Let_def split_def)

interpretation pin_pg: flash_page pin_flush pin_load PIN_STATE_FLASH_ADDR
    "\<lambda>x. pin_page (fst x) (snd x)" pin_storable
proof
  show "flash_simple_read PIN_STATE_FLASH_ADDR (length (pin_page (fst x) (snd x))) s' = pin_page (fst x) (snd x)"
    if "flash_ok P" "pin_storable x" "pin_flush P x s = (0, s')" for P x s s'
    using that pin_flush_image [of P x s s'] by (simp add: pin_storable_def)
  show "flash_mem s' a = flash_mem s a"
    if "flash_ok P" "pin_storable x" "pin_flush P x s = (rc, s')" "\<not> sector_of PIN_STATE_FLASH_ADDR a" for P x s rc s' a
    using that pin_flush_frame [of P x s rc s' a] by (simp add: pin_storable_def)
  show "pin_load s = x"
    if "pin_storable x" "flash_simple_read PIN_STATE_FLASH_ADDR (length (pin_page (fst x) (snd x))) s = pin_page (fst x) (snd x)"
    for x s
    using that pin_load_page [of "fst x" s "snd x"] by (cases x) (simp add: pin_storable_def)
qed (simp_all add: pin_storable_def)

section \<open>Attempts\<close>

text \<open>\<open>pin_ok\<close>: the module is initialised and holds a 32-byte hash.\<close>

definition pin_ok :: "pin_state \<Rightarrow> bool" where
  "pin_ok s \<longleftrightarrow> g_initialized s \<and> length (g_pin_hash s) = 32"

definition pin_matches :: "platform \<Rightarrow> byte list \<Rightarrow> pin_state \<Rightarrow> bool" where
  "pin_matches P pin s \<longleftrightarrow> pin_hash P pin = g_pin_hash s"

lemma check_pin_cases:
  assumes "secrets_ok P" "pin_ok s"
  shows "check_pin P pin fl s =
    (if pin_matches P (take 6 pin) s
     then if g_fail_count s = 0 then (True, fl, s)
          else (True, snd (pin_flush P (g_pin_hash s, 0) fl), s\<lparr>g_fail_count := 0\<rparr>)
     else (False, snd (pin_flush P (g_pin_hash s, g_fail_count s + 1) fl),
           s\<lparr>g_fail_count := g_fail_count s + 1, pin_delay := pin_delay s + 12500000\<rparr>))"
  using assms
  by (simp add: check_pin_def pin_ok_def compute_pin_hash_ok PIN_LENGTH_def xor_diff_0 pin_matches_def
      write_pin_state_flush split_def fail_delay_def)

lemma check_pin_uninit: "\<not> g_initialized s \<Longrightarrow> check_pin P pin fl s = (False, fl, s)"
  by (simp add: check_pin_def)

lemma check_pin_iff:
  "secrets_ok P \<Longrightarrow> pin_ok s \<Longrightarrow> fst (check_pin P pin fl s) \<longleftrightarrow> pin_matches P (take 6 pin) s"
  by (simp add: check_pin_cases)

text \<open>An attempt never changes the hash, so it never locks the device.\<close>

lemma check_pin_hash:
  "check_pin P pin fl s = (b, fl', s') \<Longrightarrow> g_pin_hash s' = g_pin_hash s \<and> g_initialized s' = g_initialized s"
  by (auto simp: check_pin_def Let_def fail_delay_def split: if_splits option.splits prod.splits)

lemma pin_ok_check: "pin_ok s \<Longrightarrow> check_pin P pin fl s = (b, fl', s') \<Longrightarrow> pin_ok s'"
  using check_pin_hash by (auto simp: pin_ok_def)

lemma check_pin_frame [frame]:
  assumes "flash_ok P" "pin_ok s" "check_pin P pin fl s = (b, fl', s')" "\<not> sector_of PIN_STATE_FLASH_ADDR a"
  shows "flash_mem fl' a = flash_mem fl a"
proof -
  have *: "flash_mem (snd (pin_flush P (g_pin_hash s, c) fl)) a = flash_mem fl a" for c
    using assms(2) pin_flush_frame [OF assms(1) _ _ assms(4), of "(g_pin_hash s, c)" fl]
    by (cases "pin_flush P (g_pin_hash s, c) fl") (simp add: pin_ok_def)
  from assms(3) show ?thesis
    by (auto simp: check_pin_def Let_def write_pin_state_flush fail_delay_def *
        split: if_splits option.splits prod.splits dest!: arg_cong [where f = snd])
qed

text \<open>A run of attempts.\<close>

fun attempts :: "platform \<Rightarrow> byte list list \<Rightarrow> flash_dev \<times> pin_state \<Rightarrow> flash_dev \<times> pin_state" where
  "attempts P [] st = st"
| "attempts P (p # ps) (fl, s) = attempts P ps (snd (check_pin P p fl s))"

lemma attempts_hash:
  "attempts P ps (fl, s) = (fl', s') \<Longrightarrow> g_pin_hash s' = g_pin_hash s \<and> g_initialized s' = g_initialized s"
proof (induction ps arbitrary: fl s)
  case (Cons p ps)
  obtain b fl1 s1 where c: "check_pin P p fl s = (b, fl1, s1)" by (metis prod_cases3)
  with Cons.IH [of fl1 s1] Cons.prems check_pin_hash [OF c] show ?case by simp
qed simp

text \<open>A run of wrong PINs counts them and costs a delay for each.\<close>

lemma attempts_wrong:
  "secrets_ok P \<Longrightarrow> pin_ok s \<Longrightarrow> \<forall>p \<in> set ps. \<not> pin_matches P (take 6 p) s \<Longrightarrow>
   attempts P ps (fl, s) = (fl', s') \<Longrightarrow>
   g_fail_count s' = g_fail_count s + of_nat (length ps) \<and>
   pin_delay s' = pin_delay s + 12500000 * length ps"
proof (induction ps arbitrary: fl s)
  case (Cons p ps)
  let ?s = "s\<lparr>g_fail_count := g_fail_count s + 1, pin_delay := pin_delay s + 12500000\<rparr>"
  have c: "check_pin P p fl s = (False, snd (pin_flush P (g_pin_hash s, g_fail_count s + 1) fl), ?s)"
    using Cons.prems by (simp add: check_pin_cases)
  have "pin_ok ?s" "\<forall>p \<in> set ps. \<not> pin_matches P (take 6 p) ?s"
    using Cons.prems by (auto simp: pin_ok_def pin_matches_def)
  from Cons.IH [OF Cons.prems(1) this] Cons.prems(4) c show ?case
    by (simp add: algebra_simps)
qed simp

section \<open>Changing the PIN\<close>

lemma pin_change_cases:
  assumes "secrets_ok P" "pin_ok s" "length old \<in> {6..20}" "length new \<in> {6..20}"
  shows "pin_change P old new fl s =
    (if pin_matches P old s
     then (fst (pin_flush P (pin_hash P new, 0) fl), snd (pin_flush P (pin_hash P new, 0) fl),
           s\<lparr>g_pin_hash := pin_hash P new, g_fail_count := 0\<rparr>)
     else (- 1, snd (pin_flush P (g_pin_hash s, g_fail_count s + 1) fl),
           s\<lparr>g_fail_count := g_fail_count s + 1, pin_delay := pin_delay s + 12500000\<rparr>))"
  using assms
  by (auto simp: pin_change_def pin_ok_def compute_pin_hash_ok PIN_LENGTH_def PIN_MAX_LEN_def xor_diff_0
      pin_matches_def write_pin_state_flush split_def fail_delay_def Let_def)

section \<open>Boot\<close>

lemma pin_load_blank_hash: "length (fst (pin_load fl)) = 32"
  by (simp add: pin_load_def load_pin_state_def Let_def)

lemma list_all_0xFF_iff: "length h = n \<Longrightarrow> list_all (\<lambda>b. b = a) h \<longleftrightarrow> h = replicate n a"
proof
  assume n: "length h = n" and "list_all (\<lambda>b. b = a) h"
  then have "h = replicate (length h) a" by (intro list_eq_replicate) (simp add: list_all_iff)
  then show "h = replicate n a" unfolding n .
qed (simp add: list_all_iff)

lemma pin_init_cases:
  assumes "secrets_ok P"
  shows "pin_init P fl s =
    (if fst (pin_load fl) = replicate 32 0xFF
     then if length (provisioned_pin P) < 6
          then (- 1, fl, s\<lparr>g_pin_hash := fst (pin_load fl), g_fail_count := snd (pin_load fl)\<rparr>)
          else let (rc, fl') = pin_flush P (pin_hash P (provisioned_pin P), 0) fl;
                   s' = s\<lparr>g_pin_hash := pin_hash P (provisioned_pin P), g_fail_count := 0\<rparr>
               in if rc \<noteq> 0 then (- 1, fl', s') else (0, fl', s'\<lparr>g_initialized := True\<rparr>)
     else (0, fl, s\<lparr>g_pin_hash := fst (pin_load fl), g_fail_count := snd (pin_load fl), g_initialized := True\<rparr>))"
  using list_all_0xFF_iff [OF pin_load_blank_hash [of fl], of "0xFF"] compute_pin_hash_ok [OF assms]
  by (simp add: pin_init_def load_pin_state_load pin_hash_is_blank_def Let_def PIN_LENGTH_def
      write_pin_state_flush)

lemma pin_init_ok: "secrets_ok P \<Longrightarrow> pin_init P fl s = (0, fl', s') \<Longrightarrow> pin_ok s'"
  using pin_load_blank_hash by (auto simp: pin_init_cases pin_ok_def Let_def split: if_splits prod.splits)

section \<open>Permissions\<close>

lemma find_first:
  "find p xs = Some x \<longleftrightarrow> (\<exists>i < length xs. x = xs ! i \<and> p (xs ! i) \<and> (\<forall>j < i. \<not> p (xs ! j)))"
  by (auto simp: find_Some_iff)

lemma validate_permission_iff:
  "validate_permission P g perm \<longleftrightarrow>
   (\<exists>i < min 8 (length (global_permissions P)).
      perm_group_id (global_permissions P ! i) = g \<and> perm_granted perm (global_permissions P ! i) \<and>
      (\<forall>j < i. perm_group_id (global_permissions P ! j) \<noteq> g))"
proof -
  let ?xs = "take MAX_PERMS (global_permissions P)"
  have "validate_permission P g perm \<longleftrightarrow> (\<exists>e. find (\<lambda>e. perm_group_id e = g) ?xs = Some e \<and> perm_granted perm e)"
    by (auto simp: validate_permission_def split: option.splits)
  also have "\<dots> \<longleftrightarrow> (\<exists>i < length ?xs. perm_group_id (?xs ! i) = g \<and> perm_granted perm (?xs ! i) \<and>
      (\<forall>j < i. perm_group_id (?xs ! j) \<noteq> g))"
    unfolding find_first by blast
  also have "\<dots> \<longleftrightarrow> (\<exists>i < min 8 (length (global_permissions P)).
      perm_group_id (global_permissions P ! i) = g \<and> perm_granted perm (global_permissions P ! i) \<and>
      (\<forall>j < i. perm_group_id (global_permissions P ! j) \<noteq> g))"
    by (auto simp: MAX_PERMS_def cong: conj_cong)
  finally show ?thesis .
qed

section \<open>RAM and flash\<close>

definition pin_synced :: "flash_dev \<Rightarrow> pin_state \<Rightarrow> bool" where
  "pin_synced fl s \<longleftrightarrow> pin_pg.holds (g_pin_hash s, g_fail_count s) fl"

lemma pin_flush_synced:
  assumes "flash_ok P" "flash_reliable P" "length h = 32" "c \<noteq> 0xFFFFFFFF"
  shows "pin_pg.holds (h, c) (snd (pin_flush P (h, c) fl))"
  using pin_pg.holds_flush [OF assms(1), of "(h, c)" fl "snd (pin_flush P (h, c) fl)"] assms(3,4)
    pin_flush_reliable [OF assms(2), of "(h, c)" fl]
  by (cases "pin_flush P (h, c) fl") (simp add: pin_storable_def)

lemma check_pin_synced:
  assumes P: "secrets_ok P" "flash_ok P" "flash_reliable P" and s: "pin_ok s"
    and c: "check_pin P pin fl s = (b, fl', s')" and n: "g_fail_count s' \<noteq> 0xFFFFFFFF"
    and old: "b \<Longrightarrow> pin_synced fl s"
  shows "pin_synced fl' s'"
  using c n old s pin_flush_synced [OF P(2,3), of "g_pin_hash s"]
  by (auto simp: check_pin_cases [OF P(1) s] pin_synced_def pin_ok_def split: if_splits)

lemma attempts_synced:
  assumes P: "secrets_ok P" "flash_ok P" "flash_reliable P"
  shows "pin_ok s \<Longrightarrow> \<forall>p \<in> set ps. \<not> pin_matches P (take 6 p) s \<Longrightarrow> ps \<noteq> [] \<or> pin_synced fl s \<Longrightarrow>
    unat (g_fail_count s) + length ps < 0xFFFFFFFF \<Longrightarrow> attempts P ps (fl, s) = (fl', s') \<Longrightarrow> pin_synced fl' s'"
proof (induction ps arbitrary: fl s)
  case (Cons p ps)
  let ?s = "s\<lparr>g_fail_count := g_fail_count s + 1, pin_delay := pin_delay s + 12500000\<rparr>"
  let ?fl = "snd (pin_flush P (g_pin_hash s, g_fail_count s + 1) fl)"
  have c: "check_pin P p fl s = (False, ?fl, ?s)"
    using Cons.prems(1,2) by (simp add: check_pin_cases [OF P(1)])
  have n: "unat (g_fail_count s + 1) = unat (g_fail_count s) + 1"
    using Cons.prems(4) by (intro trans [OF unat_word_ariths(1)]) simp
  then have "g_fail_count s + 1 \<noteq> 0xFFFFFFFF" using Cons.prems(4) by auto
  with check_pin_synced [OF P Cons.prems(1) c] have "pin_synced ?fl ?s" by simp
  moreover have "pin_ok ?s" using Cons.prems(1) by (simp add: pin_ok_def)
  ultimately show ?case
    using Cons.IH [of ?s ?fl] Cons.prems c n by (auto simp: pin_matches_def)
qed simp

section \<open>Properties\<close>

definition ref_pin :: pin_state where
  "ref_pin = \<lparr>g_pin_hash = pin_hash ref_platform [49, 50, 51, 52, 53, 54], g_fail_count = 0, g_initialized = True,
              pin_delay = 0\<rparr>"

definition ref_flash_dev :: flash_dev where
  "ref_flash_dev = \<lparr>flash_mem = (\<lambda>a. 0xFF), flash_tick = 0\<rparr>"

text \<open>A state whose PIN is not the one above, whatever the hash function.\<close>

definition other_pin :: pin_state where
  "other_pin = ref_pin\<lparr>g_pin_hash := map (\<lambda>b. b + 1) (g_pin_hash ref_pin)\<rparr>"

lemma ref_pin_ok: "pin_ok ref_pin" "pin_ok other_pin"
  by (simp_all add: pin_ok_def ref_pin_def other_pin_def)

lemma map_succ_neq: "bs \<noteq> [] \<Longrightarrow> map (\<lambda>b. b + 1) bs \<noteq> (bs :: byte list)"
  by (cases bs) auto

lemma ref_pin_matches: "pin_matches ref_platform [49, 50, 51, 52, 53, 54] ref_pin"
  "\<not> pin_matches ref_platform [49, 50, 51, 52, 53, 54] other_pin"
proof -
  show "pin_matches ref_platform [49, 50, 51, 52, 53, 54] ref_pin" by (simp add: pin_matches_def ref_pin_def)
  have "pin_hash ref_platform [49, 50, 51, 52, 53, 54] \<noteq> []"
    using length_pin_hash [of ref_platform "[49, 50, 51, 52, 53, 54]"] by force
  from map_succ_neq [OF this] show "\<not> pin_matches ref_platform [49, 50, 51, 52, 53, 54] other_pin"
    by (simp add: pin_matches_def other_pin_def ref_pin_def)
qed

text \<open>
  C12: After any number of wrong PINs the failure count is theirs, on flash as in RAM, each has
  cost the delay, and the PIN that is accepted is still exactly the one that was: a device is
  neither unlocked nor locked by attempts, and a reset does not forget them.
\<close>

theorem wrong_pins_counted:
  assumes "secrets_ok P" "flash_ok P" "flash_reliable P" "pin_ok s" "pins \<noteq> []"
    and "\<forall>p \<in> set pins. \<not> pin_matches P (take 6 p) s" "unat (g_fail_count s) + length pins < 0xFFFFFFFF"
    and "attempts P pins (fl, s) = (fl', s')"
  shows "pin_load fl' = (g_pin_hash s, g_fail_count s + of_nat (length pins)) \<and>
    g_fail_count s' = g_fail_count s + of_nat (length pins) \<and>
    pin_delay s' = pin_delay s + 12500000 * length pins \<and>
    (fst (check_pin P pin fl' s') \<longleftrightarrow> pin_matches P (take 6 pin) s)"
proof -
  have a: "g_fail_count s' = g_fail_count s + of_nat (length pins)" "pin_delay s' = pin_delay s + 12500000 * length pins"
    using attempts_wrong [OF assms(1,4,6,8)] by simp_all
  have h: "g_pin_hash s' = g_pin_hash s" "g_initialized s' = g_initialized s" using attempts_hash [OF assms(8)] by simp_all
  then have "pin_ok s'" using assms(4) by (simp add: pin_ok_def)
  then have "fst (check_pin P pin fl' s') \<longleftrightarrow> pin_matches P (take 6 pin) s"
    by (simp add: check_pin_iff [OF assms(1)] pin_matches_def h)
  moreover have "pin_synced fl' s'" by (rule attempts_synced [OF assms(1-4,6) _ assms(7,8)]) (simp add: assms(5))
  then have "pin_load fl' = (g_pin_hash s', g_fail_count s')" unfolding pin_synced_def by (rule pin_pg.holds_load)
  ultimately show ?thesis using a h by simp
qed

lemma wrong_pins_counted_witness:
  "\<exists>fl' s'. attempts ref_platform [[49, 50, 51, 52, 53, 54]] (ref_flash_dev, other_pin) = (fl', s') \<and>
     pin_load fl' = (g_pin_hash other_pin, 1)"
proof -
  obtain fl' s' where a: "attempts ref_platform [[49, 50, 51, 52, 53, 54]] (ref_flash_dev, other_pin) = (fl', s')"
    by fastforce
  have w: "\<forall>p \<in> set [[49, 50, 51, 52, 53, 54]]. \<not> pin_matches ref_platform (take 6 p) other_pin"
    using ref_pin_matches(2) by simp
  have n: "unat (g_fail_count other_pin) + length [[49, 50, 51, 52, 53, 54 :: byte]] < 0xFFFFFFFF"
    by (simp add: other_pin_def ref_pin_def)
  show ?thesis
    using wrong_pins_counted [OF ref_ok(1,3,4) ref_pin_ok(2) _ w n a, of "[]"] a
    by (simp add: other_pin_def ref_pin_def)
qed

text \<open>
  C31: A PIN change succeeds only with the old PIN; then the new PIN, and no other, is the one
  accepted, in RAM and after a reset. With a wrong old PIN the hash stays. If the flash write
  fails the call reports failure although the new PIN is already in force until the reset.
\<close>

theorem pin_change_outcomes:
  assumes "secrets_ok P" "flash_ok P" "pin_ok s" "length old \<in> {6..20}" "length new \<in> {6..20}"
    and "pin_change P old new fl s = (rc, fl', s')"
  shows "(rc = 0 \<longrightarrow> pin_matches P old s \<and> pin_load fl' = (pin_hash P new, 0)) \<and>
    g_pin_hash s' = (if pin_matches P old s then pin_hash P new else g_pin_hash s) \<and>
    (pin_matches P old s \<longrightarrow> (fst (check_pin P pin fl' s') \<longleftrightarrow> pin_hash P (take 6 pin) = pin_hash P new))"
proof -
  note c = assms(6) [unfolded pin_change_cases [OF assms(1,3-5)]]
  have h: "g_pin_hash s' = (if pin_matches P old s then pin_hash P new else g_pin_hash s)"
    using c by (auto split: if_splits)
  have ok: "pin_ok s'" using c assms(3) by (auto simp: pin_ok_def split: if_splits)
  have "pin_load fl' = (pin_hash P new, 0)" if "rc = 0"
  proof -
    from c that have "pin_flush P (pin_hash P new, 0) fl = (0, fl')" by (auto simp: prod_eq_iff split: if_splits)
    from pin_pg.load_flush [OF assms(2) _ this] show ?thesis by (simp add: pin_storable_def)
  qed
  with c h show ?thesis
    by (auto simp: check_pin_iff [OF assms(1) ok] pin_matches_def split: if_splits)
qed

lemma pin_change_outcomes_witness:
  "\<exists>fl' s'. pin_change ref_platform [49, 50, 51, 52, 53, 54] [1, 2, 3, 4, 5, 6] ref_flash_dev ref_pin = (0, fl', s') \<and>
     pin_load fl' = (pin_hash ref_platform [1, 2, 3, 4, 5, 6], 0)"
proof -
  obtain rc fl' s' where c:
    "pin_change ref_platform [49, 50, 51, 52, 53, 54] [1, 2, 3, 4, 5, 6] ref_flash_dev ref_pin = (rc, fl', s')"
    by (metis prod_cases3)
  have "rc = 0"
    using c [unfolded pin_change_cases [OF ref_ok(1) ref_pin_ok(1), of "[49, 50, 51, 52, 53, 54]" "[1, 2, 3, 4, 5, 6]", simplified]]
      ref_pin_matches(1) pin_flush_reliable [OF ref_reliable] by auto
  with pin_change_outcomes [OF ref_ok(1,3) ref_pin_ok(1) _ _ c, of "[]"] c show ?thesis by simp
qed

text \<open>
  C32: The first boot after a reflash provisions the PIN of \<^verbatim>\<open>secrets.h\<close>: exactly it is accepted,
  and a second boot finds the same PIN and count.
\<close>

theorem first_boot_provisions:
  assumes "secrets_ok P" "flash_ok P" "flash_reliable P"
    and "fst (pin_load fl) = replicate 32 0xFF" "6 \<le> length (provisioned_pin P)"
  shows "\<exists>fl' s'. pin_init P fl pin_state_reset = (0, fl', s') \<and> pin_ok s' \<and>
    g_pin_hash s' = pin_hash P (provisioned_pin P) \<and> g_fail_count s' = 0 \<and>
    (\<exists>fl''. pin_init P fl' pin_state_reset = (0, fl'', s'))"
proof -
  let ?x = "(pin_hash P (provisioned_pin P), 0 :: u32)"
  let ?s = "pin_state_reset\<lparr>g_pin_hash := fst ?x, g_fail_count := 0, g_initialized := True\<rparr>"
  have flush: "fst (pin_flush P ?x f) = 0" for f by (rule pin_flush_reliable [OF assms(3)])
  have 1: "pin_init P fl pin_state_reset = (0, snd (pin_flush P ?x fl), ?s)"
    using assms(4,5) flush [of fl] by (simp add: pin_init_cases [OF assms(1)] split_def)
  have l: "pin_load (snd (pin_flush P ?x fl)) = ?x"
    by (rule pin_pg.holds_load, rule pin_flush_synced [OF assms(2,3)]) simp_all
  have "pin_init P (snd (pin_flush P ?x fl)) pin_state_reset = (0, if fst ?x = replicate 32 0xFF
      then snd (pin_flush P ?x (snd (pin_flush P ?x fl))) else snd (pin_flush P ?x fl), ?s)"
    using assms(5) flush [of "snd (pin_flush P ?x fl)"] by (auto simp: pin_init_cases [OF assms(1)] l split_def Let_def)
  with 1 show ?thesis by (intro exI [of _ "snd (pin_flush P ?x fl)"] exI [of _ ?s]) (auto simp: pin_ok_def)
qed

lemma ref_pin_blank: "fst (pin_load ref_flash_dev) = replicate 32 0xFF"
  by (rule nth_equalityI)
     (simp_all add: pin_load_def load_pin_state_def Let_def ref_flash_dev_def flash_simple_read_def map_replicate_const segment_def)

lemma first_boot_provisions_witness:
  "\<exists>fl' s'. pin_init ref_platform ref_flash_dev pin_state_reset = (0, fl', s') \<and>
     g_pin_hash s' = pin_hash ref_platform [49, 50, 51, 52, 53, 54]"
proof -
  have "provisioned_pin ref_platform = [49, 50, 51, 52, 53, 54]"
    by (simp add: provisioned_pin_def ref_platform_def PIN_MAX_LEN_def)
  with first_boot_provisions [OF ref_ok(1,3,4) ref_pin_blank] show ?thesis by auto
qed

end
