(* ===== verification/Blob.thy ===== *)
theory Blob
  imports Design Flash
begin

text \<open>
  \<^verbatim>\<open>firmware/src/secure_blob_store.c\<close>: the encrypted blob store. Eight slots of 0x3000 bytes
  hold a 96-byte header, the ciphertext in 256-byte chunks, and one tag per chunk in the last
  512 bytes; the file table (FAT) is a page of its own, mirrored in RAM. This theory holds
  the data layout and every operation (write, the streaming read, delete, initialisation);
  \<^verbatim>\<open>BlobStore\<close> proves them correct. A call that waits for a nonce may never return:
  \<open>None\<close>. Sizes and flash addresses are naturals: every one is far below \<open>2 ^ 32\<close>.
\<close>

datatype blob_status =
    SECURE_BLOB_STORE_OK
  | SECURE_BLOB_STORE_INVALID_ARGUMENT
  | SECURE_BLOB_STORE_INVALID_SLOT
  | SECURE_BLOB_STORE_STORAGE_FULL
  | SECURE_BLOB_STORE_NOT_FOUND
  | SECURE_BLOB_STORE_PERMISSION_DENIED
  | SECURE_BLOB_STORE_BUFFER_TOO_SMALL
  | SECURE_BLOB_STORE_IO_ERROR
  | SECURE_BLOB_STORE_CRYPTO_ERROR
  | SECURE_BLOB_STORE_CORRUPT
  | SECURE_BLOB_STORE_BAD_LEN

section \<open>Layout\<close>

definition SECURE_BLOB_STORE_FLASH_BASE :: nat where "SECURE_BLOB_STORE_FLASH_BASE = 0x22000"
definition SECURE_BLOB_STORE_FLASH_END :: nat where "SECURE_BLOB_STORE_FLASH_END = 0x3A000"
definition SECURE_BLOB_STORE_FAT_ADDR :: nat where "SECURE_BLOB_STORE_FAT_ADDR = 0x3A000"
definition SECURE_BLOB_STORE_MAX_SLOTS :: nat where "SECURE_BLOB_STORE_MAX_SLOTS = 8"
definition SECURE_BLOB_STORE_AUTO_SLOT :: byte where "SECURE_BLOB_STORE_AUTO_SLOT = 0xFF"
definition SECURE_BLOB_STORE_PAGE_SIZE :: nat where "SECURE_BLOB_STORE_PAGE_SIZE = 1024"
definition SECURE_BLOB_STORE_SLOT_SIZE :: nat where
  "SECURE_BLOB_STORE_SLOT_SIZE =
     (SECURE_BLOB_STORE_FLASH_END - SECURE_BLOB_STORE_FLASH_BASE) div SECURE_BLOB_STORE_MAX_SLOTS"
definition SECURE_BLOB_MAGIC :: u32 where "SECURE_BLOB_MAGIC = 0x53425331"
definition SECURE_BLOB_VERSION :: u16 where "SECURE_BLOB_VERSION = 1"
definition SECURE_BLOB_EMPTY_U32 :: u32 where "SECURE_BLOB_EMPTY_U32 = 0xFFFFFFFF"
definition SECURE_BLOB_CHUNK_SIZE :: nat where "SECURE_BLOB_CHUNK_SIZE = 256"
definition SECURE_BLOB_MAX_TAGS_SIZE :: nat where "SECURE_BLOB_MAX_TAGS_SIZE = 512"
definition SECURE_BLOB_TAGS_OFFSET :: nat where
  "SECURE_BLOB_TAGS_OFFSET = SECURE_BLOB_STORE_SLOT_SIZE - SECURE_BLOB_MAX_TAGS_SIZE"
definition SECURE_BLOB_HEADER_SIZE :: nat where "SECURE_BLOB_HEADER_SIZE = 96"

lemma layout [simp]:
  "SECURE_BLOB_STORE_SLOT_SIZE = 12288" "SECURE_BLOB_TAGS_OFFSET = 11776"
  by (simp_all add: SECURE_BLOB_STORE_SLOT_SIZE_def SECURE_BLOB_TAGS_OFFSET_def SECURE_BLOB_MAX_TAGS_SIZE_def
      SECURE_BLOB_STORE_FLASH_END_def SECURE_BLOB_STORE_FLASH_BASE_def SECURE_BLOB_STORE_MAX_SLOTS_def)

record fat_entry =
  fat_uuid :: "byte list"
  fat_length :: u16
  fat_padding :: u16
  fat_flash_addr :: u32

definition fat_bytes :: "fat_entry \<Rightarrow> byte list" where
  "fat_bytes e = fat_uuid e @ le16 (fat_length e) @ le16 (fat_padding e) @ le32 (fat_flash_addr e)"

definition un_fat :: "byte list \<Rightarrow> fat_entry" where
  "un_fat bs = \<lparr>fat_uuid = segment 0 16 bs, fat_length = un_le16 (segment 16 2 bs),
               fat_padding = un_le16 (segment 18 2 bs), fat_flash_addr = un_le32 (segment 20 4 bs)\<rparr>"

definition fat_erased :: fat_entry where
  "fat_erased = un_fat (replicate 24 0xFF)"

record blob_header =
  hdr_magic :: u32
  hdr_version :: u16
  hdr_slot :: u16
  hdr_plaintext_len :: u32
  hdr_group_mask :: u32
  hdr_owner_pin_hash :: "byte list"
  hdr_nonce :: "byte list"
  hdr_blob_tag :: "byte list"
  hdr_reserved :: "byte list"

definition header_bytes :: "blob_header \<Rightarrow> byte list" where
  "header_bytes h = le32 (hdr_magic h) @ le16 (hdr_version h) @ le16 (hdr_slot h) @
     le32 (hdr_plaintext_len h) @ le32 (hdr_group_mask h) @ hdr_owner_pin_hash h @ hdr_nonce h @
     hdr_blob_tag h @ hdr_reserved h"

definition un_header :: "byte list \<Rightarrow> blob_header" where
  "un_header bs = \<lparr>hdr_magic = un_le32 (segment 0 4 bs), hdr_version = un_le16 (segment 4 2 bs),
     hdr_slot = un_le16 (segment 6 2 bs), hdr_plaintext_len = un_le32 (segment 8 4 bs),
     hdr_group_mask = un_le32 (segment 12 4 bs), hdr_owner_pin_hash = segment 16 32 bs,
     hdr_nonce = segment 48 12 bs, hdr_blob_tag = segment 60 32 bs, hdr_reserved = segment 92 4 bs\<rparr>"

section \<open>State\<close>

record read_state =
  rs_flash_addr :: nat
  rs_processed :: nat
  rs_total_len :: nat
  rs_nonce :: "byte list"
  rs_master_key :: "byte list"
  rs_expected_blob_tag :: "byte list"
  rs_sha_ctx :: sha256_raw_ctx

record blob_state =
  g_fat :: "fat_entry list"
  blob_initialized :: bool
  g_aad :: "byte list"
  g_read_state :: read_state

definition blob_slot_base :: "byte \<Rightarrow> nat" where
  "blob_slot_base slot = SECURE_BLOB_STORE_FLASH_BASE + unat slot * SECURE_BLOB_STORE_SLOT_SIZE"

definition slot_is_empty :: "byte \<Rightarrow> blob_state \<Rightarrow> bool" where
  "slot_is_empty slot b \<longleftrightarrow> fat_flash_addr (g_fat b ! unat slot) = SECURE_BLOB_EMPTY_U32"

definition slot_is_valid :: "byte \<Rightarrow> bool" where
  "slot_is_valid slot \<longleftrightarrow> unat slot < SECURE_BLOB_STORE_MAX_SLOTS"

definition find_write_slot :: "byte \<Rightarrow> blob_state \<Rightarrow> blob_status + byte" where
  "find_write_slot requested b =
     (if requested \<noteq> SECURE_BLOB_STORE_AUTO_SLOT
      then if \<not> slot_is_valid requested then Inl SECURE_BLOB_STORE_INVALID_SLOT else Inr requested
      else case find (\<lambda>slot. slot_is_empty slot b) (map of_nat [0..<SECURE_BLOB_STORE_MAX_SLOTS]) of
             Some slot \<Rightarrow> Inr slot
           | None \<Rightarrow> Inl SECURE_BLOB_STORE_STORAGE_FULL)"

definition build_aad :: "blob_header \<Rightarrow> byte list" where
  "build_aad h = le32 (hdr_magic h) @ le16 (hdr_version h) @ le16 (hdr_slot h) @
     le32 (hdr_plaintext_len h) @ le32 (hdr_group_mask h) @ hdr_owner_pin_hash h @ hdr_nonce h"

definition derive_file_key :: "secure_crypto_root_secret \<Rightarrow> u32 \<Rightarrow> byte list option" where
  "derive_file_key root group_id =
     (if 0xFFFF < group_id then None
      else secure_crypto_derive_file_enc_key root (ucast group_id) 32)"

text \<open>The loop over the twelve pages of a slot, \<open>n\<close> of them left.\<close>

fun erase_pages :: "platform \<Rightarrow> nat \<Rightarrow> nat \<Rightarrow> flash_dev \<Rightarrow> blob_status \<times> flash_dev" where
  "erase_pages P address 0 fl = (SECURE_BLOB_STORE_OK, fl)"
| "erase_pages P address (Suc n) fl =
     (let (rc, fl) = flash_simple_erase_page P address fl
      in if rc \<noteq> 0 then (SECURE_BLOB_STORE_IO_ERROR, fl)
         else erase_pages P (address + SECURE_BLOB_STORE_PAGE_SIZE) n fl)"

definition erase_slot_pages :: "platform \<Rightarrow> byte \<Rightarrow> flash_dev \<Rightarrow> blob_status \<times> flash_dev" where
  "erase_slot_pages P slot fl =
     erase_pages P (blob_slot_base slot) (SECURE_BLOB_STORE_SLOT_SIZE div SECURE_BLOB_STORE_PAGE_SIZE) fl"

section \<open>The file table\<close>

definition fat_page :: "fat_entry list \<Rightarrow> nat \<Rightarrow> fat_entry \<Rightarrow> byte list" where
  "fat_page fat slot entry =
     (let page = replicate SECURE_BLOB_STORE_PAGE_SIZE 0xFF;
          page = put page 0 (concat (map fat_bytes fat))
      in put page (slot * 24) (fat_bytes entry))"

definition commit_fat_entry ::
    "platform \<Rightarrow> byte \<Rightarrow> fat_entry \<Rightarrow> flash_dev \<Rightarrow> blob_state \<Rightarrow> blob_status \<times> flash_dev \<times> blob_state" where
  "commit_fat_entry P slot entry fl b =
     (if \<not> slot_is_valid slot then (SECURE_BLOB_STORE_INVALID_ARGUMENT, fl, b)
      else let page = fat_page (g_fat b) (unat slot) entry;
               (rc, fl) = flash_simple_erase_page P SECURE_BLOB_STORE_FAT_ADDR fl
           in if rc \<noteq> 0 then (SECURE_BLOB_STORE_IO_ERROR, fl, b)
              else let (rc, fl) = flash_simple_write P SECURE_BLOB_STORE_FAT_ADDR page fl
                   in if rc \<noteq> 0 then (SECURE_BLOB_STORE_IO_ERROR, fl, b)
                      else (SECURE_BLOB_STORE_OK, fl, b\<lparr>g_fat := (g_fat b)[unat slot := entry]\<rparr>))"

definition read_fat :: "flash_dev \<Rightarrow> fat_entry list" where
  "read_fat fl =
     (let bs = flash_simple_read SECURE_BLOB_STORE_FAT_ADDR (24 * SECURE_BLOB_STORE_MAX_SLOTS) fl
      in map (\<lambda>i. un_fat (segment (i * 24) 24 bs)) [0..<SECURE_BLOB_STORE_MAX_SLOTS])"

definition blob_store_init :: "flash_dev \<Rightarrow> blob_state \<Rightarrow> blob_status \<times> blob_state" where
  "blob_store_init fl b =
     (if blob_initialized b then (SECURE_BLOB_STORE_OK, b)
      else (SECURE_BLOB_STORE_OK, b\<lparr>g_fat := read_fat fl, blob_initialized := True\<rparr>))"

definition init_blob_store :: "flash_dev \<Rightarrow> blob_state \<Rightarrow> int \<times> blob_state" where
  "init_blob_store fl b =
     (let (rc, b) = blob_store_init fl b in (if rc = SECURE_BLOB_STORE_OK then 0 else - 1, b))"

definition load_header :: "byte \<Rightarrow> flash_dev \<Rightarrow> blob_state \<Rightarrow> blob_status + blob_header" where
  "load_header slot fl b =
     (if \<not> slot_is_valid slot then Inl SECURE_BLOB_STORE_INVALID_ARGUMENT
      else let entry = g_fat b ! unat slot
           in if slot_is_empty slot b then Inl SECURE_BLOB_STORE_NOT_FOUND
              else if unat (fat_flash_addr entry) \<noteq> blob_slot_base slot \<or>
                      unat (fat_length entry) < SECURE_BLOB_HEADER_SIZE \<or>
                      SECURE_BLOB_STORE_SLOT_SIZE < unat (fat_length entry)
              then Inl SECURE_BLOB_STORE_CORRUPT
              else let header = un_header (flash_simple_read (unat (fat_flash_addr entry)) SECURE_BLOB_HEADER_SIZE fl)
                   in if hdr_magic header \<noteq> SECURE_BLOB_MAGIC \<or>
                         hdr_version header \<noteq> SECURE_BLOB_VERSION \<or>
                         unat (hdr_slot header) \<noteq> unat slot \<or>
                         SECURE_BLOB_STORE_SLOT_SIZE - SECURE_BLOB_HEADER_SIZE < unat (hdr_plaintext_len header) \<or>
                         unat (fat_length entry) \<noteq> SECURE_BLOB_HEADER_SIZE + unat (hdr_plaintext_len header)
                      then Inl SECURE_BLOB_STORE_CORRUPT
                      else Inr header)"

section \<open>Writing\<close>

text \<open>
  The encryption loop: \<open>data\<close> is what is left from \<open>processed\<close> on. The chunk key derivation
  cannot fail for a 32-byte key, and the code ignores its result.
\<close>

function blob_write_loop ::
    "platform \<Rightarrow> nat \<Rightarrow> byte list \<Rightarrow> byte list \<Rightarrow> byte list \<Rightarrow> nat \<Rightarrow> nat \<Rightarrow> byte list \<Rightarrow>
     sha256_raw_ctx \<Rightarrow> flash_dev \<Rightarrow> blob_status \<times> sha256_raw_ctx \<times> flash_dev" where
  "blob_write_loop P flash_addr master_key nonce aad processed chunk_idx data sha_ctx fl =
     (if data = [] then (SECURE_BLOB_STORE_OK, sha_ctx, fl)
      else let chunk = take SECURE_BLOB_CHUNK_SIZE data;
               chunk_key = the (secure_crypto_derive_chunk_key master_key (of_nat chunk_idx) 32)
           in case secure_crypto_aes_gcm_encrypt P chunk_key nonce aad chunk 16 of
                None \<Rightarrow> (SECURE_BLOB_STORE_CRYPTO_ERROR, sha_ctx, fl)
              | Some (ct, chunk_tag) \<Rightarrow>
                  let sha_ctx = sha256_raw_ctx_update sha_ctx chunk_tag;
                      (rc, fl) = flash_simple_write P (flash_addr + SECURE_BLOB_HEADER_SIZE + processed) ct fl
                  in if rc \<noteq> 0 then (SECURE_BLOB_STORE_IO_ERROR, sha_ctx, fl)
                     else let (rc, fl) = flash_simple_write P
                                (flash_addr + SECURE_BLOB_TAGS_OFFSET + chunk_idx * 16) chunk_tag fl
                          in if rc \<noteq> 0 then (SECURE_BLOB_STORE_IO_ERROR, sha_ctx, fl)
                             else blob_write_loop P flash_addr master_key nonce aad
                                    (processed + length chunk) (chunk_idx + 1)
                                    (drop SECURE_BLOB_CHUNK_SIZE data) sha_ctx fl)"
  by pat_completeness auto
termination
  by (relation "measure (\<lambda>(P, a, m, n, aad, p, i, data, sha, fl). length data)")
     (auto simp: SECURE_BLOB_CHUNK_SIZE_def)

declare blob_write_loop.simps [simp del]

text \<open>From the erased slot to the header write: the body of \<^verbatim>\<open>blob_write\<close> after the nonce.\<close>

definition blob_store_data ::
    "platform \<Rightarrow> byte \<Rightarrow> blob_header \<Rightarrow> byte list \<Rightarrow> byte list \<Rightarrow> byte list \<Rightarrow> flash_dev \<Rightarrow> blob_status \<times> flash_dev" where
  "blob_store_data P slot header aad master_key data fl =
     (let (rc, fl) = erase_slot_pages P slot fl
      in if rc \<noteq> SECURE_BLOB_STORE_OK then (rc, fl)
         else let flash_addr = blob_slot_base slot;
                  (rc, sha_ctx, fl) = blob_write_loop P flash_addr master_key (hdr_nonce header) aad 0 0 data
                                        (sha256_raw_ctx_init sha256_ctx_zero) fl
              in if rc \<noteq> SECURE_BLOB_STORE_OK then (rc, fl)
                 else let (tags_digest, _) = sha256_raw_ctx_final sha_ctx
                      in case secure_crypto_hmac_sha256 master_key tags_digest 32 of
                           None \<Rightarrow> (SECURE_BLOB_STORE_CRYPTO_ERROR, fl)
                         | Some tag \<Rightarrow>
                             let (rc, fl) = flash_simple_write P flash_addr
                                              (header_bytes (header\<lparr>hdr_blob_tag := tag\<rparr>)) fl
                             in if rc \<noteq> 0 then (SECURE_BLOB_STORE_IO_ERROR, fl)
                                else (SECURE_BLOB_STORE_OK, fl))"

definition blob_new_header :: "byte \<Rightarrow> byte list \<Rightarrow> u32 \<Rightarrow> byte list \<Rightarrow> nat \<Rightarrow> blob_header" where
  "blob_new_header slot owner_pin_hash group_mask nonce len =
     \<lparr>hdr_magic = SECURE_BLOB_MAGIC, hdr_version = SECURE_BLOB_VERSION, hdr_slot = ucast slot,
      hdr_plaintext_len = of_nat len, hdr_group_mask = group_mask,
      hdr_owner_pin_hash = owner_pin_hash, hdr_nonce = nonce,
      hdr_blob_tag = replicate 32 0xFF, hdr_reserved = replicate 4 0xFF\<rparr>"

definition blob_write ::
    "platform \<Rightarrow> byte \<Rightarrow> byte list \<Rightarrow> byte list \<Rightarrow> byte list \<Rightarrow> u32 \<Rightarrow>
     flash_dev \<Rightarrow> trng_dev \<Rightarrow> blob_state \<Rightarrow> (blob_status \<times> flash_dev \<times> trng_dev \<times> blob_state) option" where
  "blob_write P slot data uuid owner_pin_hash group_mask fl tr b =
     (if SECURE_BLOB_TAGS_OFFSET - SECURE_BLOB_HEADER_SIZE < length data \<or> 0xFFFFFFFF < length data \<or>
         0xFFFF < SECURE_BLOB_HEADER_SIZE + length data
      then Some (SECURE_BLOB_STORE_INVALID_ARGUMENT, fl, tr, b)
      else case find_write_slot slot b of
        Inl rc \<Rightarrow> Some (rc, fl, tr, b)
      | Inr resolved \<Rightarrow>
          (case security_get_root_secret P of
             None \<Rightarrow> Some (SECURE_BLOB_STORE_CRYPTO_ERROR, fl, tr, b)
           | Some root \<Rightarrow>
               (case derive_file_key root group_mask of
                  None \<Rightarrow> Some (SECURE_BLOB_STORE_CRYPTO_ERROR, fl, tr, b)
                | Some master_key \<Rightarrow>
                    do { (nonce, tr) \<leftarrow> security_generate_nonce 12 tr;
                         case nonce of
                           None \<Rightarrow> Some (SECURE_BLOB_STORE_CRYPTO_ERROR, fl, tr, b)
                         | Some nonce \<Rightarrow>
                             let header = blob_new_header resolved owner_pin_hash group_mask nonce (length data);
                                 b = b\<lparr>g_aad := build_aad header\<rparr>;
                                 (rc, fl) = blob_store_data P resolved header (g_aad b) master_key data fl
                             in if rc \<noteq> SECURE_BLOB_STORE_OK then Some (rc, fl, tr, b)
                                else let entry = \<lparr>fat_uuid = uuid,
                                           fat_length = of_nat (SECURE_BLOB_HEADER_SIZE + length data),
                                           fat_padding = 0, fat_flash_addr = of_nat (blob_slot_base resolved)\<rparr>;
                                         (rc, fl, b) = commit_fat_entry P resolved entry fl b
                                     in Some (rc, fl, tr, b) })))"

section \<open>Reading\<close>

text \<open>\<open>pin_hash = None\<close> is \<^verbatim>\<open>require_pin_hash == false\<close>.\<close>

definition blob_read_init_internal ::
    "platform \<Rightarrow> byte \<Rightarrow> byte list option \<Rightarrow> u32 \<Rightarrow> flash_dev \<Rightarrow> blob_state \<Rightarrow> (blob_status + nat) \<times> blob_state" where
  "blob_read_init_internal P slot pin_hash group_mask fl b =
     (if \<not> slot_is_valid slot then (Inl SECURE_BLOB_STORE_INVALID_ARGUMENT, b)
      else case load_header slot fl b of
        Inl rc \<Rightarrow> (Inl rc, b)
      | Inr header \<Rightarrow>
          if group_mask AND hdr_group_mask header = 0 then (Inl SECURE_BLOB_STORE_PERMISSION_DENIED, b)
          else if (case pin_hash of None \<Rightarrow> False | Some h \<Rightarrow> h \<noteq> hdr_owner_pin_hash header)
          then (Inl SECURE_BLOB_STORE_PERMISSION_DENIED, b)
          else case security_get_root_secret P of
            None \<Rightarrow> (Inl SECURE_BLOB_STORE_CRYPTO_ERROR, b)
          | Some root \<Rightarrow>
              (case derive_file_key root (hdr_group_mask header) of
                 None \<Rightarrow> (Inl SECURE_BLOB_STORE_CRYPTO_ERROR, b)
               | Some master_key \<Rightarrow>
                   (Inr (unat (hdr_plaintext_len header)),
                    b\<lparr>g_aad := build_aad header,
                      g_read_state := \<lparr>rs_flash_addr = blob_slot_base slot + SECURE_BLOB_HEADER_SIZE,
                        rs_processed = 0, rs_total_len = unat (hdr_plaintext_len header),
                        rs_nonce = hdr_nonce header, rs_master_key = master_key,
                        rs_expected_blob_tag = hdr_blob_tag header,
                        rs_sha_ctx = sha256_raw_ctx_init (rs_sha_ctx (g_read_state b))\<rparr>\<rparr>)))"

definition blob_read_init ::
    "platform \<Rightarrow> byte \<Rightarrow> byte list \<Rightarrow> u32 \<Rightarrow> flash_dev \<Rightarrow> blob_state \<Rightarrow> (blob_status + nat) \<times> blob_state" where
  "blob_read_init P slot pin_hash group_mask fl b =
     blob_read_init_internal P slot (Some pin_hash) group_mask fl b"

text \<open>The loop: \<open>left\<close> bytes to go; the plaintext read so far is \<open>out\<close>.\<close>

function blob_read_loop ::
    "platform \<Rightarrow> nat \<Rightarrow> byte list \<Rightarrow> flash_dev \<Rightarrow> blob_state \<Rightarrow> blob_status \<times> byte list \<times> blob_state" where
  "blob_read_loop P left out fl b =
     (if left = 0 then (SECURE_BLOB_STORE_OK, out, b)
      else let rs = g_read_state b;
               to_proc = (if SECURE_BLOB_CHUNK_SIZE < left then SECURE_BLOB_CHUNK_SIZE else left);
               chunk_idx = rs_processed rs div SECURE_BLOB_CHUNK_SIZE;
               chunk_key = the (secure_crypto_derive_chunk_key (rs_master_key rs) (of_nat chunk_idx) 32);
               ct = flash_simple_read (rs_flash_addr rs + rs_processed rs) to_proc fl;
               slot_idx = of_nat ((rs_flash_addr rs - SECURE_BLOB_STORE_FLASH_BASE) div SECURE_BLOB_STORE_SLOT_SIZE);
               chunk_tag = flash_simple_read (blob_slot_base slot_idx + SECURE_BLOB_TAGS_OFFSET + chunk_idx * 16) 16 fl;
               rs = rs\<lparr>rs_sha_ctx := sha256_raw_ctx_update (rs_sha_ctx rs) chunk_tag\<rparr>
           in case secure_crypto_aes_gcm_decrypt P chunk_key (rs_nonce rs) (g_aad b) ct chunk_tag to_proc of
                Inl left_over \<Rightarrow>
                  (SECURE_BLOB_STORE_CRYPTO_ERROR,
                   out @ (case left_over of None \<Rightarrow> [] | Some zeros \<Rightarrow> zeros), b\<lparr>g_read_state := rs\<rparr>)
              | Inr pt \<Rightarrow>
                  blob_read_loop P (left - to_proc) (out @ pt) fl
                    (b\<lparr>g_read_state := rs\<lparr>rs_processed := rs_processed rs + to_proc\<rparr>\<rparr>))"
  by pat_completeness auto
termination
  by (relation "measure (\<lambda>(P, left, out, fl, b). left)") (auto simp: SECURE_BLOB_CHUNK_SIZE_def)

declare blob_read_loop.simps [simp del]

definition blob_read_chunk ::
    "platform \<Rightarrow> nat \<Rightarrow> flash_dev \<Rightarrow> blob_state \<Rightarrow> blob_status \<times> byte list \<times> blob_state" where
  "blob_read_chunk P chunk_len fl b =
     (if rs_total_len (g_read_state b) < rs_processed (g_read_state b) + chunk_len
      then (SECURE_BLOB_STORE_INVALID_ARGUMENT, [], b)
      else blob_read_loop P chunk_len [] fl b)"

definition blob_read_finish :: "blob_state \<Rightarrow> blob_status \<times> blob_state" where
  "blob_read_finish b =
     (let rs = g_read_state b;
          (tags_digest, ctx) = sha256_raw_ctx_final (rs_sha_ctx rs);
          rs = rs\<lparr>rs_sha_ctx := ctx\<rparr>
      in case secure_crypto_hmac_sha256 (rs_master_key rs) tags_digest 32 of
           None \<Rightarrow> (SECURE_BLOB_STORE_CRYPTO_ERROR, b\<lparr>g_read_state := rs\<lparr>rs_master_key := replicate 32 0\<rparr>\<rparr>)
         | Some actual_blob_tag \<Rightarrow>
             let b = b\<lparr>g_read_state := rs\<lparr>rs_master_key := replicate 32 0\<rparr>\<rparr>
             in if actual_blob_tag \<noteq> rs_expected_blob_tag rs then (SECURE_BLOB_STORE_CRYPTO_ERROR, b)
                else (SECURE_BLOB_STORE_OK, b))"

text \<open>
  The common body of \<^verbatim>\<open>blob_read_all\<close> and \<^verbatim>\<open>blob_read_all_group_mask\<close>: status, the bytes left
  in the output buffer, and \<^verbatim>\<open>*out_len\<close>, which is the buffer's size \<open>cap\<close> on entry.
\<close>

definition blob_read_rest ::
    "platform \<Rightarrow> (blob_status + nat) \<times> blob_state \<Rightarrow> nat \<Rightarrow> flash_dev \<Rightarrow> blob_status \<times> byte list \<times> nat \<times> blob_state" where
  "blob_read_rest P start cap fl =
     (case start of
        (Inl rc, b) \<Rightarrow> (rc, [], cap, b)
      | (Inr pt_len, b) \<Rightarrow>
          if cap < pt_len then (SECURE_BLOB_STORE_BAD_LEN, [], pt_len, b)
          else let (rc, out, b) = (if 0 < pt_len then blob_read_chunk P pt_len fl b
                                   else (SECURE_BLOB_STORE_OK, [], b))
               in if rc \<noteq> SECURE_BLOB_STORE_OK then (rc, out, cap, b)
                  else let (rc, b) = blob_read_finish b
                       in if rc \<noteq> SECURE_BLOB_STORE_OK then (rc, replicate pt_len 0, cap, b)
                          else (SECURE_BLOB_STORE_OK, out, pt_len, b))"

definition blob_read_all ::
    "platform \<Rightarrow> byte \<Rightarrow> byte list \<Rightarrow> u32 \<Rightarrow> nat \<Rightarrow> flash_dev \<Rightarrow> blob_state \<Rightarrow>
     blob_status \<times> byte list \<times> nat \<times> blob_state" where
  "blob_read_all P slot pin_hash group_mask cap fl b =
     blob_read_rest P (blob_read_init P slot pin_hash group_mask fl b) cap fl"

definition blob_read_all_group_mask ::
    "platform \<Rightarrow> byte \<Rightarrow> u32 \<Rightarrow> nat \<Rightarrow> flash_dev \<Rightarrow> blob_state \<Rightarrow> blob_status \<times> byte list \<times> nat \<times> blob_state" where
  "blob_read_all_group_mask P slot group_mask cap fl b =
     blob_read_rest P (blob_read_init_internal P slot None group_mask fl b) cap fl"

section \<open>Deleting\<close>

definition blob_delete ::
    "platform \<Rightarrow> byte \<Rightarrow> flash_dev \<Rightarrow> blob_state \<Rightarrow> blob_status \<times> flash_dev \<times> blob_state" where
  "blob_delete P slot fl b =
     (if \<not> slot_is_valid slot then (SECURE_BLOB_STORE_INVALID_SLOT, fl, b)
      else if slot_is_empty slot b then (SECURE_BLOB_STORE_NOT_FOUND, fl, b)
      else let (rc, fl) = erase_slot_pages P slot fl
           in if rc \<noteq> SECURE_BLOB_STORE_OK then (rc, fl, b)
              else commit_fat_entry P slot fat_erased fl b)"

end
