(* ===== verification/BlobStore.thy ===== *)
theory BlobStore
  imports Blob Pin
begin

text \<open>
  The correctness of the blob store. First the layout: FAT entries and headers are exact
  encodings, the FAT page is a flash page in the sense of \<^verbatim>\<open>Flash\<close>, a slot erases to 0xFF
  and nothing else changes. Then writing: a successful write of at most 8192 bytes leaves the
  slot holding the blob (\<open>blob_stored\<close>), and only the slot and the FAT page change. Then
  reading: a stored blob reads back, under the right PIN hash and mask only, and whatever
  reads back with success is authentic.
\<close>

section \<open>Encodings\<close>

lemma segment_join:
  "off' = off + m \<Longrightarrow> segment off m bs @ segment off' n bs = segment off (m + n) bs"
  "off' = off + m \<Longrightarrow> segment off m bs @ segment off' n bs @ rest = segment off (m + n) bs @ rest"
  by (simp_all add: segment_def take_add add.commute)

lemma un_fat_bytes: "length (fat_uuid e) = 16 \<Longrightarrow> un_fat (fat_bytes e @ rest) = e"
  by (simp add: un_fat_def fat_bytes_def segment_def)

lemma length_fat_bytes [sizes]: "length (fat_uuid e) = 16 \<Longrightarrow> length (fat_bytes e) = 24"
  by (simp add: fat_bytes_def)

lemma fat_bytes_un: "length bs = 24 \<Longrightarrow> fat_bytes (un_fat bs) = bs"
  by (simp add: un_fat_def fat_bytes_def le16_un_le16 le32_un_le32 segment_join)

interpretation fatc: exact_codec fat_bytes un_fat 24 "\<lambda>e. length (fat_uuid e) = 16"
  by unfold_locales (simp_all add: un_fat_bytes fat_bytes_un length_fat_bytes, simp add: un_fat_def)

definition header_ok :: "blob_header \<Rightarrow> bool" where
  "header_ok h \<longleftrightarrow> length (hdr_owner_pin_hash h) = 32 \<and> length (hdr_nonce h) = 12 \<and>
     length (hdr_blob_tag h) = 32 \<and> length (hdr_reserved h) = 4"

lemma un_header_bytes: "header_ok h \<Longrightarrow> un_header (header_bytes h @ rest) = h"
  by (simp add: un_header_def header_bytes_def header_ok_def segment_def)

lemma length_header_bytes [sizes]: "header_ok h \<Longrightarrow> length (header_bytes h) = 96"
  by (simp add: header_bytes_def header_ok_def)

lemma header_bytes_un: "length bs = 96 \<Longrightarrow> header_bytes (un_header bs) = bs"
  by (simp add: un_header_def header_bytes_def le16_un_le16 le32_un_le32 segment_join)

interpretation hdrc: exact_codec header_bytes un_header 96 header_ok
  by unfold_locales (simp_all add: un_header_bytes header_bytes_un length_header_bytes,
      simp add: header_ok_def un_header_def)

lemma length_build_aad: "header_ok h \<Longrightarrow> length (build_aad h) = 60"
  by (simp add: build_aad_def header_ok_def)

text \<open>
  The additional data bind every field but the tag: two headers with equal additional data
  agree on magic, version, slot, length, mask, owner and nonce.
\<close>

lemma build_aad_inject:
  assumes "build_aad h = build_aad h'" "length (hdr_owner_pin_hash h) = length (hdr_owner_pin_hash h')"
  shows "hdr_magic h = hdr_magic h' \<and> hdr_version h = hdr_version h' \<and> hdr_slot h = hdr_slot h' \<and>
    hdr_plaintext_len h = hdr_plaintext_len h' \<and> hdr_group_mask h = hdr_group_mask h' \<and>
    hdr_owner_pin_hash h = hdr_owner_pin_hash h' \<and> hdr_nonce h = hdr_nonce h'"
  using assms by (simp add: build_aad_def)

section \<open>The FAT page\<close>

definition fat_image :: "fat_entry list \<Rightarrow> byte list" where
  "fat_image fat = concat (map fat_bytes fat) @ replicate 832 0xFF"

definition fat_ok :: "fat_entry list \<Rightarrow> bool" where
  "fat_ok fat \<longleftrightarrow> length fat = 8 \<and> (\<forall>e \<in> set fat. length (fat_uuid e) = 16)"

definition fat_flush :: "platform \<Rightarrow> fat_entry list \<Rightarrow> flash_dev \<Rightarrow> int \<times> flash_dev" where
  "fat_flush P fat fl =
     (let (rc, fl) = flash_simple_erase_page P SECURE_BLOB_STORE_FAT_ADDR fl
      in if rc \<noteq> 0 then (rc, fl) else flash_simple_write P SECURE_BLOB_STORE_FAT_ADDR (fat_image fat) fl)"

lemma length_fat_image [sizes]: "fat_ok fat \<Longrightarrow> length (fat_image fat) = 1024"
  by (simp add: fat_image_def fat_ok_def fatc.length_enc_all)

lemma fat_ok_update: "fat_ok fat \<Longrightarrow> length (fat_uuid e) = 16 \<Longrightarrow> fat_ok (fat[i := e])"
  by (auto simp: fat_ok_def dest: set_update_subset_insert [THEN subsetD])

lemma put_concat:
  assumes "\<forall>x \<in> set xs. length (f x) = w" "i < length xs" "length (f y) = w"
  shows "put (concat (map f xs) @ rest) (i * w) (f y) = concat (map f (xs[i := y])) @ rest"
proof -
  have xs: "xs = take i xs @ xs ! i # drop (Suc i) xs" using assms(2) by (simp add: id_take_nth_drop)
  have l: "length (concat (map f (take i xs))) = i * w"
    using assms(1,2) by (induction xs arbitrary: i) (auto simp: take_Cons split: nat.splits)
  have i: "length (f (xs ! i)) = w" using assms by auto
  have c: "concat (map f xs) = concat (map f (take i xs)) @ f (xs ! i) @ concat (map f (drop (Suc i) xs))"
    by (subst xs) simp
  have u: "concat (map f (xs[i := y])) = concat (map f (take i xs)) @ f y @ concat (map f (drop (Suc i) xs))"
    using assms(2) by (simp add: upd_conv_take_nth_drop)
  show ?thesis unfolding c u put_def using l i assms(3) by simp
qed

lemma fat_page_image:
  assumes "fat_ok fat" "length (fat_uuid e) = 16" "i < 8"
  shows "fat_page fat i e = fat_image (fat[i := e])"
proof -
  have "\<forall>x \<in> set fat. length (fat_bytes x) = 24" using assms(1) by (auto simp: fat_ok_def fat_bytes_def)
  note p = put_concat [OF this, of i e]
  have "length (concat (map fat_bytes fat)) = 192"
    using assms(1) by (simp add: fat_ok_def fatc.length_enc_all)
  then have "put (replicate 1024 0xFF) 0 (concat (map fat_bytes fat)) = concat (map fat_bytes fat) @ replicate 832 0xFF"
    by (simp add: put_def)
  with p assms show ?thesis
    by (simp add: fat_page_def fat_image_def SECURE_BLOB_STORE_PAGE_SIZE_def fat_ok_def length_fat_bytes)
qed

lemma fat_addr [simp]: "SECURE_BLOB_STORE_FAT_ADDR mod 1024 = 0" "SECURE_BLOB_STORE_FAT_ADDR div 1024 = 232"
  by (simp_all add: SECURE_BLOB_STORE_FAT_ADDR_def)

lemma read_fat_image:
  assumes "fat_ok fat" "flash_simple_read SECURE_BLOB_STORE_FAT_ADDR 1024 fl = fat_image fat"
  shows "read_fat fl = fat"
proof -
  have "flash_simple_read SECURE_BLOB_STORE_FAT_ADDR 192 fl = segment 0 192 (fat_image fat)"
    using read_segment [of 0 192 1024 SECURE_BLOB_STORE_FAT_ADDR fl] assms(2) by simp
  also have "\<dots> = concat (map fat_bytes fat)"
    using assms(1) by (simp add: fat_image_def fat_ok_def fatc.length_enc_all)
  finally show ?thesis
    using assms(1) fatc.dec_all [of fat 8 "[]"]
    by (simp add: read_fat_def fat_ok_def SECURE_BLOB_STORE_MAX_SLOTS_def)
qed

lemma fat_flush_cases:
  assumes "fat_flush P fat fl = (rc, fl')"
  obtains "rc = - 1" "flash_simple_erase_page P SECURE_BLOB_STORE_FAT_ADDR fl = (- 1, fl')"
    | fl1 where "flash_simple_erase_page P SECURE_BLOB_STORE_FAT_ADDR fl = (0, fl1)"
        "flash_simple_write P SECURE_BLOB_STORE_FAT_ADDR (fat_image fat) fl1 = (rc, fl')"
  using assms erase_rc [of P SECURE_BLOB_STORE_FAT_ADDR fl]
  by (auto simp: fat_flush_def split: prod.splits if_splits)

interpretation fat_pg: flash_page fat_flush read_fat SECURE_BLOB_STORE_FAT_ADDR fat_image fat_ok
proof
  fix P fat fl rc fl' a
  assume P: "flash_ok P" and fat: "fat_ok fat" and f: "fat_flush P fat fl = (rc, fl')"
    and a: "\<not> sector_of SECURE_BLOB_STORE_FAT_ADDR a"
  from f show "flash_mem fl' a = flash_mem fl a"
  proof (cases rule: fat_flush_cases)
    case 1
    then show ?thesis using erase_frame [OF P _ a] by blast
  next
    case (2 fl1)
    then show ?thesis
      using erase_frame [OF P 2(1) a] write_sector_frame [OF P fat_addr(1) _ 2(2) a] length_fat_image [OF fat] by simp
  qed
next
  fix P fat fl fl'
  assume P: "flash_ok P" and fat: "fat_ok fat" and f: "fat_flush P fat fl = (0, fl')"
  from f show "flash_simple_read SECURE_BLOB_STORE_FAT_ADDR (length (fat_image fat)) fl' = fat_image fat"
  proof (cases rule: fat_flush_cases)
    case (2 fl1)
    then show ?thesis
      using rewrite_sector [OF P fat_addr(1) _ 2(1), of "fat_image fat" fl'] length_fat_image [OF fat] by simp
  qed simp
qed (simp_all add: length_fat_image read_fat_image)

definition blob_ok :: "blob_state \<Rightarrow> bool" where
  "blob_ok b \<longleftrightarrow> fat_ok (g_fat b) \<and> sha_ready (rs_sha_ctx (g_read_state b))"

lemma commit_fat_entry_flush:
  assumes "blob_ok b" "length (fat_uuid e) = 16" "slot_is_valid slot"
  shows "commit_fat_entry P slot e fl b =
    (case fat_flush P ((g_fat b)[unat slot := e]) fl of
       (rc, fl') \<Rightarrow> if rc = 0 then (SECURE_BLOB_STORE_OK, fl', b\<lparr>g_fat := (g_fat b)[unat slot := e]\<rparr>)
                    else (SECURE_BLOB_STORE_IO_ERROR, fl', b))"
  using assms fat_page_image [of "g_fat b" e "unat slot"]
  by (simp add: commit_fat_entry_def fat_flush_def blob_ok_def slot_is_valid_def
      SECURE_BLOB_STORE_MAX_SLOTS_def Let_def split: prod.splits)

lemma blob_init_loads:
  "fat_pg.holds fat fl \<Longrightarrow> blob_store_init fl b =
     (SECURE_BLOB_STORE_OK, if blob_initialized b then b else b\<lparr>g_fat := fat, blob_initialized := True\<rparr>)"
  by (simp add: blob_store_init_def fat_pg.holds_load)

section \<open>Slots\<close>

definition in_slot :: "byte \<Rightarrow> nat \<Rightarrow> bool" where
  "in_slot slot a \<longleftrightarrow> in_range (blob_slot_base slot) 12288 a"

lemma slot_base_eq: "blob_slot_base slot = 1024 * (136 + 12 * unat slot)"
  by (simp add: blob_slot_base_def SECURE_BLOB_STORE_FLASH_BASE_def)

lemma slot_base_sector [simp]: "blob_slot_base slot mod 1024 = 0"
  by (simp add: slot_base_eq)

lemma slots_disjoint: "in_slot s a \<Longrightarrow> in_slot s' a \<Longrightarrow> s = s'"
proof -
  assume a: "in_slot s a" "in_slot s' a"
  then have "\<not> unat s < unat s'" "\<not> unat s' < unat s"
    by (auto simp: in_slot_def in_range_def slot_base_eq)
  then show ?thesis by (simp add: word_unat_eq_iff)
qed

lemma valid_slot: "slot_is_valid slot \<longleftrightarrow> unat slot < 8"
  by (simp add: slot_is_valid_def SECURE_BLOB_STORE_MAX_SLOTS_def)

text \<open>The slots lie below the FAT page, which lies below the name table and the PIN page.\<close>

lemma slot_below_fat: "slot_is_valid slot \<Longrightarrow> in_slot slot a \<Longrightarrow> a < 0x3A000"
  by (auto simp: valid_slot in_slot_def in_range_def slot_base_eq)

lemma slot_not_fat: "slot_is_valid slot \<Longrightarrow> in_slot slot a \<Longrightarrow> \<not> sector_of SECURE_BLOB_STORE_FAT_ADDR a"
  using slot_below_fat [of slot a] by (auto simp: in_sector in_range_def SECURE_BLOB_STORE_FAT_ADDR_def)

lemma slot_not_pin: "slot_is_valid slot \<Longrightarrow> in_slot slot a \<Longrightarrow> \<not> sector_of PIN_STATE_FLASH_ADDR a"
  using slot_below_fat [of slot a] by (auto simp: in_sector in_range_def PIN_STATE_FLASH_ADDR_def)

lemma slot_base_word: "slot_is_valid slot \<Longrightarrow> unat (of_nat (blob_slot_base slot) :: u32) = blob_slot_base slot \<and>
    of_nat (blob_slot_base slot) \<noteq> SECURE_BLOB_EMPTY_U32"
proof -
  assume "slot_is_valid slot"
  then have "blob_slot_base slot < 0x3A000" by (auto simp: valid_slot slot_base_eq)
  then have u: "unat (of_nat (blob_slot_base slot) :: u32) = blob_slot_base slot" by (simp add: unat_of_nat)
  moreover have "of_nat (blob_slot_base slot) \<noteq> SECURE_BLOB_EMPTY_U32"
  proof
    assume "of_nat (blob_slot_base slot) = SECURE_BLOB_EMPTY_U32"
    then have "blob_slot_base slot = unat SECURE_BLOB_EMPTY_U32" using u by simp
    then have "blob_slot_base slot = 0xFFFFFFFF" by (simp add: SECURE_BLOB_EMPTY_U32_def)
    with \<open>blob_slot_base slot < 0x3A000\<close> show False by simp
  qed
  ultimately show ?thesis ..
qed

section \<open>Erasing a slot\<close>

lemma erase_pages_spec:
  assumes "flash_ok P"
  shows "addr mod 1024 = 0 \<Longrightarrow> erase_pages P addr n fl = (rc, fl') \<Longrightarrow>
    (\<forall>a. \<not> in_range addr (1024 * n) a \<longrightarrow> flash_mem fl' a = flash_mem fl a) \<and>
    (rc = SECURE_BLOB_STORE_OK \<longrightarrow> (\<forall>a. in_range addr (1024 * n) a \<longrightarrow> flash_mem fl' a = 0xFF))"
proof (induction n arbitrary: addr fl)
  case 0
  then show ?case by (auto simp: in_range_def)
next
  case (Suc n)
  obtain rc1 fl1 where e: "flash_simple_erase_page P addr fl = (rc1, fl1)" by fastforce
  have fr: "flash_mem fl1 a = flash_mem fl a" if "\<not> in_range addr 1024 a" for a
    using erase_frame [OF assms e] that Suc.prems(1) by (simp add: in_sector)
  have sub: "in_range addr (1024 * Suc n) a \<longleftrightarrow> in_range addr 1024 a \<or> in_range (addr + 1024) (1024 * n) a" for a
    by (auto simp: in_range_def)
  show ?case
  proof (cases "rc1 = 0")
    case True
    with e Suc.prems have r: "erase_pages P (addr + 1024) n fl1 = (rc, fl')"
      by (simp add: SECURE_BLOB_STORE_PAGE_SIZE_def)
    have blank: "flash_mem fl1 a = 0xFF" if "in_range addr 1024 a" for a
      using erase_blank [OF assms] e True that Suc.prems(1) by (simp add: in_sector)
    have dis: "\<not> in_range (addr + 1024) (1024 * n) a" if "in_range addr 1024 a" for a
      using that by (auto simp: in_range_def)
    from Suc.IH [OF _ r] Suc.prems(1) fr blank dis show ?thesis unfolding sub by (metis mod_add_self2)
  next
    case False
    with e Suc.prems fr sub show ?thesis by auto
  qed
qed

lemma erase_slot_frame:
  assumes "flash_ok P" "erase_slot_pages P slot fl = (rc, fl')" "\<not> in_slot slot a"
  shows "flash_mem fl' a = flash_mem fl a"
  using erase_pages_spec [OF assms(1) slot_base_sector, of slot 12 fl rc fl'] assms(2,3)
  by (simp add: erase_slot_pages_def SECURE_BLOB_STORE_PAGE_SIZE_def in_slot_def)

lemma erase_slot_blank:
  assumes "flash_ok P" "erase_slot_pages P slot fl = (SECURE_BLOB_STORE_OK, fl')" "in_slot slot a"
  shows "flash_mem fl' a = 0xFF"
  using erase_pages_spec [OF assms(1) slot_base_sector, of slot 12 fl SECURE_BLOB_STORE_OK fl'] assms(2,3)
  by (simp add: erase_slot_pages_def SECURE_BLOB_STORE_PAGE_SIZE_def in_slot_def)

lemma erase_pages_reliable:
  "flash_reliable P \<Longrightarrow> fst (erase_pages P addr n fl) = SECURE_BLOB_STORE_OK"
proof (induction n arbitrary: addr fl)
  case (Suc n)
  with erase_reliable [of P addr fl] show ?case by (simp add: split_def Let_def)
qed simp

section \<open>What a slot holds\<close>

definition chunk_key :: "byte list \<Rightarrow> nat \<Rightarrow> byte list" where
  "chunk_key master i = hmac_spec master (chunk_info (of_nat i) @ [1])"

lemma the_chunk_key [simp]: "the (secure_crypto_derive_chunk_key master (of_nat i) 32) = chunk_key master i"
  by (simp add: chunk_key_spec chunk_key_def)

lemma length_chunk_key [simp, sizes]: "length (chunk_key master i) = 32"
  by (simp add: chunk_key_def)

function blob_chunks :: "byte list \<Rightarrow> byte list list" where
  "blob_chunks data = (if data = [] then [] else take 256 data # blob_chunks (drop 256 data))"
  by pat_completeness auto
termination
  by (relation "measure length") auto

declare blob_chunks.simps [simp del]

lemma blob_chunks_Nil [simp]: "blob_chunks [] = []"
  by (simp add: blob_chunks.simps)

lemma concat_blob_chunks: "concat (blob_chunks data) = data"
proof (induction data rule: blob_chunks.induct)
  case (1 data)
  then show ?case by (cases "data = []") (simp_all add: blob_chunks.simps [of data])
qed

lemma blob_chunks_le: "c \<in> set (blob_chunks data) \<Longrightarrow> length c \<le> 256 \<and> c \<noteq> []"
proof (induction data rule: blob_chunks.induct)
  case (1 data)
  then show ?case by (cases "data = []") (auto simp: blob_chunks.simps [of data])
qed

lemma length_blob_chunks: "length (blob_chunks data) = (length data + 255) div 256"
proof (induction data rule: blob_chunks.induct)
  case (1 data)
  show ?case
  proof (cases "data = []")
    case False
    with 1 have "length (blob_chunks data) = Suc ((length data - 256 + 255) div 256)"
      by (simp add: blob_chunks.simps [of data])
    also have "\<dots> = (length data + 255) div 256"
    proof (cases "length data \<le> 256")
      case True
      with False show ?thesis by (cases data) auto
    next
      case gt: False
      then obtain n where "length data = 256 + n" by (metis le_Suc_ex nat_le_linear)
      then show ?thesis by simp
    qed
    finally show ?thesis .
  qed simp
qed

text \<open>The chunks \<open>cs\<close> are stored from index \<open>idx\<close> on, with the tags \<open>tags\<close>.\<close>

fun chunks_stored ::
    "platform \<Rightarrow> flash_dev \<Rightarrow> nat \<Rightarrow> byte list \<Rightarrow> byte list \<Rightarrow> byte list \<Rightarrow> nat \<Rightarrow> byte list list \<Rightarrow> byte list list \<Rightarrow> bool" where
  "chunks_stored P fl base master nonce aad idx [] tags \<longleftrightarrow> tags = []"
| "chunks_stored P fl base master nonce aad idx (c # cs) [] \<longleftrightarrow> False"
| "chunks_stored P fl base master nonce aad idx (c # cs) (t # ts) \<longleftrightarrow>
     secure_crypto_aes_gcm_encrypt P (chunk_key master idx) nonce aad c 16
       = Some (flash_simple_read (base + 96 + 256 * idx) (length c) fl, t) \<and>
     flash_simple_read (base + 11776 + 16 * idx) 16 fl = t \<and>
     chunks_stored P fl base master nonce aad (Suc idx) cs ts"

text \<open>The bytes the chunks from \<open>idx\<close> on occupy: ciphertexts and tags.\<close>

definition chunk_area :: "nat \<Rightarrow> nat \<Rightarrow> nat \<Rightarrow> nat \<Rightarrow> bool" where
  "chunk_area base idx len a \<longleftrightarrow>
     in_range (base + 96 + 256 * idx) (pad8 len) a \<or>
     in_range (base + 11776 + 16 * idx) (16 * ((len + 255) div 256)) a"

lemma chunks_stored_cong:
  assumes "\<And>a. chunk_area base idx (length (concat cs)) a \<Longrightarrow> flash_mem fl' a = flash_mem fl a"
    and "\<forall>c \<in> set (butlast cs). length c = 256" "\<forall>c \<in> set cs. c \<noteq> [] \<and> length c \<le> 256"
  shows "chunks_stored P fl' base master nonce aad idx cs tags = chunks_stored P fl base master nonce aad idx cs tags"
  using assms
proof (induction cs arbitrary: idx tags)
  case (Cons c cs)
  let ?len = "length (concat cs)"
  have c: "c \<noteq> []" "length c \<le> 256" and full: "cs = [] \<or> length c = 256"
    using Cons.prems by (cases "cs = []", auto)+
  have n: "(length c + ?len + 255) div 256 = Suc ((?len + 255) div 256)"
  proof (cases "cs = []")
    case True
    with c show ?thesis by (cases c) auto
  next
    case False
    with full show ?thesis by simp
  qed
  have sub: "chunk_area base idx (length (concat (c # cs))) a"
    if "chunk_area base (Suc idx) ?len a" for a
    using that full pad8_64 [of "192 + ?len"] pad8_64 [of "128 + ?len"] pad8_64 [of "64 + ?len"] pad8_64 [of ?len]
    by (auto simp: chunk_area_def n in_range_def pad8_def)
  have IH: "chunks_stored P fl' base master nonce aad (Suc idx) cs ts = chunks_stored P fl base master nonce aad (Suc idx) cs ts" for ts
    using Cons.prems sub by (intro Cons.IH) (auto split: if_splits)
  have ct: "flash_simple_read (base + 96 + 256 * idx) (length c) fl' = flash_simple_read (base + 96 + 256 * idx) (length c) fl"
    using pad8_ge [of "length c + ?len"] by (intro read_cong Cons.prems(1)) (auto simp: chunk_area_def in_range_def)
  have tg: "flash_simple_read (base + 11776 + 16 * idx) 16 fl' = flash_simple_read (base + 11776 + 16 * idx) 16 fl"
    by (intro read_cong Cons.prems(1)) (auto simp: chunk_area_def in_range_def n)
  show ?case by (cases tags) (simp_all add: IH ct tg)
qed simp

lemma blob_chunks_full: "\<forall>c \<in> set (butlast (blob_chunks data)). length c = 256"
proof (induction data rule: blob_chunks.induct)
  case (1 data)
  show ?case
  proof (cases "data = []")
    case False
    have e: "blob_chunks data = take 256 data # blob_chunks (drop 256 data)"
      using False by (simp add: blob_chunks.simps [of data])
    show ?thesis
    proof (cases "length data \<le> 256")
      case True
      then show ?thesis by (simp add: e)
    next
      case gt: False
      then show ?thesis using 1 [OF False] by (auto simp: e)
    qed
  qed simp
qed

section \<open>The write loop\<close>

lemma write_loop_cases:
  assumes gcm: "gcm_ok P" "length nonce = 12" and ne: "data \<noteq> []"
    and r: "blob_write_loop P base master nonce aad processed idx data sha fl = (rc, sha', fl')"
  obtains ct tag rc1 fl1 where
    "secure_crypto_aes_gcm_encrypt P (chunk_key master idx) nonce aad (take 256 data) 16 = Some (ct, tag)"
    "length ct = length (take 256 data)" "length tag = 16"
    "flash_simple_write P (base + 96 + processed) ct fl = (rc1, fl1)"
    "if rc1 \<noteq> 0 then rc \<noteq> SECURE_BLOB_STORE_OK \<and> fl' = fl1
     else \<exists>rc2 fl2. flash_simple_write P (base + 11776 + 16 * idx) tag fl1 = (rc2, fl2) \<and>
       (if rc2 \<noteq> 0 then rc \<noteq> SECURE_BLOB_STORE_OK \<and> fl' = fl2
        else blob_write_loop P base master nonce aad (processed + length (take 256 data)) (Suc idx) (drop 256 data)
               (sha256_raw_ctx_update sha tag) fl2 = (rc, sha', fl'))"
proof -
  from gcm_wrap_total [OF gcm(1) length_chunk_key gcm(2)] obtain ct tag where
    e: "secure_crypto_aes_gcm_encrypt P (chunk_key master idx) nonce aad (take 256 data) 16 = Some (ct, tag)"
    "length ct = length (take 256 data)" "length tag = 16" .
  obtain rc1 fl1 where w1: "flash_simple_write P (base + 96 + processed) ct fl = (rc1, fl1)" by fastforce
  obtain rc2 fl2 where w2: "flash_simple_write P (base + 11776 + 16 * idx) tag fl1 = (rc2, fl2)" by fastforce
  show thesis
    using r ne e(1) w1 w2
    by (intro that [OF e w1], subst (asm) blob_write_loop.simps)
       (auto simp: SECURE_BLOB_CHUNK_SIZE_def SECURE_BLOB_HEADER_SIZE_def Let_def mult.commute split: if_splits)
qed

lemma chunk_area_step:
  "data \<noteq> [] \<Longrightarrow> in_range (base + 96 + 256 * idx) (pad8 (length (take 256 data))) a \<Longrightarrow> chunk_area base idx (length data) a"
  "data \<noteq> [] \<Longrightarrow> in_range (base + 11776 + 16 * idx) 16 a \<Longrightarrow> chunk_area base idx (length data) a"
proof -
  assume ne: "data \<noteq> []"
  show "chunk_area base idx (length data) a" if "in_range (base + 96 + 256 * idx) (pad8 (length (take 256 data))) a"
    using that pad8_mono [of "length (take 256 data)" "length data"] by (auto simp: chunk_area_def in_range_def)
  have "1 \<le> (length data + 255) div 256" using ne by (cases data) auto
  then have "16 \<le> 16 * ((length data + 255) div 256)" by simp
  then show "chunk_area base idx (length data) a" if "in_range (base + 11776 + 16 * idx) 16 a"
    using that unfolding chunk_area_def in_range_def by linarith
qed

lemma chunk_area_rest:
  assumes "256 < length data"
  shows "chunk_area base (Suc idx) (length (drop 256 data)) a \<Longrightarrow> chunk_area base idx (length data) a"
proof -
  obtain n where n: "length data = 256 + n" using assms by (metis le_Suc_ex nat_less_le)
  have "pad8 (256 + n) = 256 + pad8 n" by (simp add: pad8_def) presburger
  moreover have "(256 + n + 255) div 256 = Suc ((n + 255) div 256)" by simp
  ultimately show "chunk_area base (Suc idx) (length (drop 256 data)) a \<Longrightarrow> chunk_area base idx (length data) a"
    by (auto simp: chunk_area_def in_range_def n)
qed

lemma chunk_area_Nil: "\<not> chunk_area base idx 0 a"
  by (simp add: chunk_area_def in_range_def pad8_def)

lemma blob_write_loop_frame:
  assumes P: "flash_ok P" "gcm_ok P" "length nonce = 12"
  shows "data = [] \<or> processed = 256 * idx \<Longrightarrow>
    blob_write_loop P base master nonce aad processed idx data sha fl = (rc, sha', fl') \<Longrightarrow>
    \<not> chunk_area base idx (length data) a \<Longrightarrow> flash_mem fl' a = flash_mem fl a"
proof (induction "length data" arbitrary: processed idx data sha fl rule: less_induct)
  case less
  show ?case
  proof (cases "data = []")
    case True
    with less.prems show ?thesis by (simp add: blob_write_loop.simps)
  next
    case False
    from P(2,3) False less.prems(2) show ?thesis
    proof (cases rule: write_loop_cases)
      case (1 ct tag rc1 fl1)
      have a1: "flash_mem fl1 a = flash_mem fl a"
        using less.prems(1,3) False chunk_area_step(1) [OF False, of base idx a] 1(2)
        by (intro write_frame [OF P(1) 1(4)]) auto
      show ?thesis
      proof (cases "rc1 = 0")
        case rc1: True
        with 1(5) obtain rc2 fl2 where w2: "flash_simple_write P (base + 11776 + 16 * idx) tag fl1 = (rc2, fl2)"
          and r: "if rc2 \<noteq> 0 then rc \<noteq> SECURE_BLOB_STORE_OK \<and> fl' = fl2
            else blob_write_loop P base master nonce aad (processed + length (take 256 data)) (Suc idx) (drop 256 data)
               (sha256_raw_ctx_update sha tag) fl2 = (rc, sha', fl')" by auto
        have "\<not> in_range (base + 11776 + 16 * idx) (pad8 (length tag)) a"
          using less.prems(3) chunk_area_step(2) [OF False, of base idx a] 1(3) by (auto simp: pad8_def)
        from write_frame [OF P(1) w2 this] a1 have a2: "flash_mem fl2 a = flash_mem fl a" by simp
        show ?thesis
        proof (cases "rc2 = 0")
          case True
          have "\<not> chunk_area base (Suc idx) (length (drop 256 data)) a"
          proof (cases "256 < length data")
            case True
            with chunk_area_rest less.prems(3) show ?thesis by blast
          qed (simp add: chunk_area_Nil)
          with True r less.prems(1) False a2 show ?thesis
            using less.hyps [of "drop 256 data" "processed + length (take 256 data)" "Suc idx"] by fastforce
        qed (use r a2 in simp)
      qed (use 1(5) a1 in simp)
    qed
  qed
qed

text \<open>With the last tag inside the tag area, ciphertext and tags do not meet.\<close>

lemma chunk_area_apart:
  assumes "256 * idx + len \<le> 8192" "256 < len"
  shows "chunk_area base (Suc idx) (len - 256) a \<Longrightarrow> \<not> in_range (base + 96 + 256 * idx) 256 a"
    and "chunk_area base (Suc idx) (len - 256) a \<Longrightarrow> \<not> in_range (base + 11776 + 16 * idx) 16 a"
  using assms by (auto simp: chunk_area_def in_range_def pad8_def)

lemma blob_write_loop_data:
  assumes P: "flash_ok P" "gcm_ok P" "length nonce = 12"
  shows "data = [] \<or> processed = 256 * idx \<Longrightarrow> 256 * idx + length data \<le> 8192 \<Longrightarrow>
    \<forall>a. chunk_area base idx (length data) a \<longrightarrow> flash_mem fl a = 0xFF \<Longrightarrow> absorbed sha m \<Longrightarrow>
    blob_write_loop P base master nonce aad processed idx data sha fl = (SECURE_BLOB_STORE_OK, sha', fl') \<Longrightarrow>
    \<exists>tags. chunks_stored P fl' base master nonce aad idx (blob_chunks data) tags \<and> absorbed sha' (m @ concat tags)"
proof (induction "length data" arbitrary: processed idx data sha fl m rule: less_induct)
  case less
  show ?case
  proof (cases "data = []")
    case True
    with less.prems show ?thesis by (auto simp: blob_write_loop.simps)
  next
    case False
    from P(2,3) False less.prems(5) show ?thesis
    proof (cases rule: write_loop_cases)
      case (1 ct tag rc1 fl1)
      let ?c = "take 256 data" and ?rest = "drop 256 data"
      from 1(4,5) obtain fl2 where w1: "flash_simple_write P (base + 96 + 256 * idx) ct fl = (0, fl1)"
        and w2: "flash_simple_write P (base + 11776 + 16 * idx) tag fl1 = (0, fl2)"
        and r: "blob_write_loop P base master nonce aad (processed + length ?c) (Suc idx) ?rest
               (sha256_raw_ctx_update sha tag) fl2 = (SECURE_BLOB_STORE_OK, sha', fl')"
        using less.prems(1) False by (auto split: if_splits)
      have p16: "pad8 (length tag) = 16" using 1(3) by (simp add: pad8_def)
      have f1: "flash_mem fl1 a = flash_mem fl a" if "\<not> in_range (base + 96 + 256 * idx) (pad8 (length ?c)) a" for a
        using write_frame [OF P(1) w1] that 1(2) by simp
      have f2: "flash_mem fl2 a = flash_mem fl1 a" if "\<not> in_range (base + 11776 + 16 * idx) 16 a" for a
        using write_frame [OF P(1) w2] that p16 by simp
      have pc: "pad8 (length ?c) \<le> 256" using pad8_mono [of "length ?c" 256] by (simp add: pad8_def)
      have "flash_simple_read (base + 96 + 256 * idx) (length ct) fl1 = ct"
        using less.prems(3) chunk_area_step(1) [OF False] 1(2) by (intro write_data [OF P(1) w1]) auto
      then have ct: "flash_simple_read (base + 96 + 256 * idx) (length ?c) fl2 = ct"
        using 1(2) less.prems(2)
        by (subst read_cong [of _ _ fl2 fl1]) (auto intro!: f2 simp: in_range_def)
      have "\<forall>a. in_range (base + 11776 + 16 * idx) 16 a \<longrightarrow> flash_mem fl1 a = 0xFF"
        using less.prems(2,3) chunk_area_step(2) [OF False] pc f1 by (auto simp: in_range_def)
      then have tg: "flash_simple_read (base + 11776 + 16 * idx) 16 fl2 = tag"
        using write_data [OF P(1) w2] p16 1(3) by simp
      have sha: "absorbed (sha256_raw_ctx_update sha tag) (m @ tag)" by (rule absorbed_update [OF less.prems(4)])
      have rest: "?rest = [] \<or> processed + length ?c = 256 * Suc idx" "length ?rest < length data"
        using less.prems(1) False by auto
      have blank: "\<forall>a. chunk_area base (Suc idx) (length ?rest) a \<longrightarrow> flash_mem fl2 a = 0xFF"
      proof (cases "256 < length data")
        case True
        then have "pad8 (length ?c) = 256" by (simp add: pad8_def)
        with True less.prems(2,3) show ?thesis
          using chunk_area_apart [OF less.prems(2) True] chunk_area_rest [OF True] f1 f2 by (metis length_drop)
      qed (simp add: chunk_area_Nil)
      have bound: "256 * Suc idx + length ?rest \<le> 8192 \<or> ?rest = []" using less.prems(2) by auto
      have kept: "flash_mem fl' a = flash_mem fl2 a" if "\<not> chunk_area base (Suc idx) (length ?rest) a" for a
        using rest(1) by (intro blob_write_loop_frame [OF P _ r that]) auto
      obtain tags where tags: "chunks_stored P fl' base master nonce aad (Suc idx) (blob_chunks ?rest) tags"
        "absorbed sha' ((m @ tag) @ concat tags)"
        using bound
      proof
        assume b: "256 * Suc idx + length ?rest \<le> 8192"
        show thesis using less.hyps [OF rest(2) rest(1) b blank sha r] that by blast
      next
        assume "?rest = []"
        with r sha show thesis by (intro that [of "[]"]) (auto simp: blob_write_loop.simps)
      qed
      have apart: "\<not> chunk_area base (Suc idx) (length ?rest) a"
        if "in_range (base + 96 + 256 * idx) (length ?c) a \<or> in_range (base + 11776 + 16 * idx) 16 a" for a
      proof (cases "256 < length data")
        case True
        with that chunk_area_apart [OF less.prems(2) True, of base a] show ?thesis by auto
      qed (simp add: chunk_area_Nil)
      have "flash_simple_read (base + 96 + 256 * idx) (length ?c) fl' = ct"
        "flash_simple_read (base + 11776 + 16 * idx) 16 fl' = tag"
        unfolding ct [symmetric] tg [symmetric] by (intro read_cong kept apart, simp)+
      then have "chunks_stored P fl' base master nonce aad idx (?c # blob_chunks ?rest) (tag # tags)"
        using 1(1) tags(1) by simp
      moreover have "blob_chunks data = ?c # blob_chunks ?rest" using False by (simp add: blob_chunks.simps [of data])
      ultimately show ?thesis using tags(2) by (intro exI [of _ "tag # tags"]) simp
    qed
  qed
qed

section \<open>A stored blob\<close>

definition file_key :: "platform \<Rightarrow> u32 \<Rightarrow> byte list" where
  "file_key P gmask = group_subkey_spec (K_master P) (ucast gmask) LABEL_FILE_ENC"

lemma derive_file_key_eq:
  "derive_file_key \<lparr>k_master = K_master P\<rparr> gmask = (if 0xFFFF < gmask then None else Some (file_key P gmask))"
  by (simp add: derive_file_key_def file_enc_key file_key_def)

lemma length_file_key [simp, sizes]: "length (file_key P gmask) = 32"
  by (simp add: file_key_def)

text \<open>The slot's flash holds the header \<open>h\<close> and, under it, the encryption of \<open>data\<close>.\<close>

definition blob_stored :: "platform \<Rightarrow> flash_dev \<Rightarrow> byte \<Rightarrow> blob_header \<Rightarrow> byte list \<Rightarrow> bool" where
  "blob_stored P fl slot h data \<longleftrightarrow>
     header_ok h \<and> hdr_magic h = SECURE_BLOB_MAGIC \<and> hdr_version h = SECURE_BLOB_VERSION \<and>
     hdr_slot h = ucast slot \<and> unat (hdr_plaintext_len h) = length data \<and> length data \<le> 8192 \<and>
     hdr_group_mask h \<le> 0xFFFF \<and>
     flash_simple_read (blob_slot_base slot) 96 fl = header_bytes h \<and>
     (\<exists>tags. chunks_stored P fl (blob_slot_base slot) (file_key P (hdr_group_mask h)) (hdr_nonce h)
               (build_aad h) 0 (blob_chunks data) tags \<and>
             hdr_blob_tag h = hmac_spec (file_key P (hdr_group_mask h)) (sha_spec (concat tags)))"

lemma tag_area: "(len :: nat) \<le> 8192 \<Longrightarrow> 16 * ((len + 255) div 256) \<le> 512"
  by simp

lemma chunk_area_slot:
  assumes "len \<le> 8192" "chunk_area (blob_slot_base slot) 0 len a"
  shows "in_slot slot a \<and> blob_slot_base slot + 96 \<le> a"
  using assms tag_area [OF assms(1)] by (auto simp: chunk_area_def in_range_def in_slot_def pad8_def)

lemma header_in_slot: "in_range (blob_slot_base slot) 96 a \<Longrightarrow> in_slot slot a"
  by (auto simp: in_range_def in_slot_def)

lemma blob_chunks_cong:
  assumes "\<And>a. chunk_area base 0 (length data) a \<Longrightarrow> flash_mem fl' a = flash_mem fl a"
  shows "chunks_stored P fl' base master nonce aad 0 (blob_chunks data) tags
       = chunks_stored P fl base master nonce aad 0 (blob_chunks data) tags"
  using assms blob_chunks_full [of data] blob_chunks_le [of _ data]
  by (intro chunks_stored_cong) (auto simp: concat_blob_chunks)

text \<open>Whoever leaves the slot's bytes alone keeps the blob.\<close>

lemma blob_stored_frame:
  assumes "blob_stored P fl slot h data" "\<And>a. in_slot slot a \<Longrightarrow> flash_mem fl' a = flash_mem fl a"
  shows "blob_stored P fl' slot h data"
proof -
  have "flash_simple_read (blob_slot_base slot) 96 fl' = flash_simple_read (blob_slot_base slot) 96 fl"
    by (intro read_cong assms(2) header_in_slot)
  moreover have "chunks_stored P fl' (blob_slot_base slot) master nonce aad 0 (blob_chunks data) tags
      = chunks_stored P fl (blob_slot_base slot) master nonce aad 0 (blob_chunks data) tags" for master nonce aad tags
    using chunk_area_slot assms by (intro blob_chunks_cong) (auto simp: blob_stored_def)
  ultimately show ?thesis using assms(1) by (simp add: blob_stored_def)
qed

section \<open>Writing a blob\<close>

lemma blob_store_data_frame:
  assumes P: "flash_ok P" "gcm_ok P" and h: "header_ok h" and len: "length data \<le> 8192"
    and r: "blob_store_data P slot h aad master data fl = (rc, fl')" and a: "\<not> in_slot slot a"
  shows "flash_mem fl' a = flash_mem fl a"
proof -
  obtain rc1 fl1 where e: "erase_slot_pages P slot fl = (rc1, fl1)" by fastforce
  obtain rc2 sha fl2 where l: "blob_write_loop P (blob_slot_base slot) master (hdr_nonce h) aad 0 0 data
      (sha256_raw_ctx_init sha256_ctx_zero) fl1 = (rc2, sha, fl2)" by (metis prod_cases3)
  have f1: "flash_mem fl1 a = flash_mem fl a" by (rule erase_slot_frame [OF P(1) e a])
  have f2: "flash_mem fl2 a = flash_mem fl1 a"
    using chunk_area_slot [OF len, of slot a] a h
    by (intro blob_write_loop_frame [OF P _ _ l]) (auto simp: header_ok_def)
  have f3: "flash_mem (snd (flash_simple_write P (blob_slot_base slot) (header_bytes (h\<lparr>hdr_blob_tag := t\<rparr>)) fl2)) a
      = flash_mem fl2 a" if "length t = 32" for t
  proof -
    have "length (header_bytes (h\<lparr>hdr_blob_tag := t\<rparr>)) = 96"
      using that h by (intro length_header_bytes) (simp add: header_ok_def)
    then show ?thesis using a
      by (intro write_frame [OF P(1), of _ _ _ "fst (flash_simple_write P (blob_slot_base slot) (header_bytes (h\<lparr>hdr_blob_tag := t\<rparr>)) fl2)"])
         (auto simp: pad8_def dest: header_in_slot)
  qed
  show ?thesis
    using r e l f1 f2 f3
    by (auto simp: blob_store_data_def Let_def secure_crypto_hmac_sha256_def hmac_sha256_raw_spec split_def
        split: if_splits prod.splits)
qed

lemma blob_store_data_stores:
  assumes P: "flash_ok P" "gcm_ok P" and len: "length data \<le> 8192"
    and h: "header_ok h" "hdr_magic h = SECURE_BLOB_MAGIC" "hdr_version h = SECURE_BLOB_VERSION"
      "hdr_slot h = ucast slot" "unat (hdr_plaintext_len h) = length data" "hdr_group_mask h \<le> 0xFFFF"
    and r: "blob_store_data P slot h (build_aad h) (file_key P (hdr_group_mask h)) data fl = (SECURE_BLOB_STORE_OK, fl')"
  obtains t where "blob_stored P fl' slot (h\<lparr>hdr_blob_tag := t\<rparr>) data"
proof -
  let ?key = "file_key P (hdr_group_mask h)" and ?base = "blob_slot_base slot"
  from r obtain fl1 sha fl2 dg cx where e: "erase_slot_pages P slot fl = (SECURE_BLOB_STORE_OK, fl1)"
    and l: "blob_write_loop P ?base ?key (hdr_nonce h) (build_aad h) 0 0 data
      (sha256_raw_ctx_init sha256_ctx_zero) fl1 = (SECURE_BLOB_STORE_OK, sha, fl2)"
    and dg: "sha256_raw_ctx_final sha = (dg, cx)"
    and w: "flash_simple_write P ?base (header_bytes (h\<lparr>hdr_blob_tag := hmac_spec ?key dg\<rparr>)) fl2 = (0, fl')"
    by (auto simp: blob_store_data_def Let_def secure_crypto_hmac_sha256_def hmac_sha256_raw_spec
        split: if_splits prod.splits)
  have nonce: "length (hdr_nonce h) = 12" using h(1) by (simp add: header_ok_def)
  have blank: "\<forall>a. in_slot slot a \<longrightarrow> flash_mem fl1 a = 0xFF" using erase_slot_blank [OF P(1) e] by blast
  then have "\<forall>a. chunk_area ?base 0 (length data) a \<longrightarrow> flash_mem fl1 a = 0xFF"
    using chunk_area_slot [OF len] by blast
  from blob_write_loop_data [OF P nonce _ _ this absorbed_init l] len obtain tags where
    tags: "chunks_stored P fl2 ?base ?key (hdr_nonce h) (build_aad h) 0 (blob_chunks data) tags"
    and sha: "absorbed sha (concat tags)" by (auto simp: sha256_ctx_zero_def)
  let ?h = "h\<lparr>hdr_blob_tag := hmac_spec ?key (sha_spec (concat tags))\<rparr>"
  have w: "flash_simple_write P ?base (header_bytes ?h) fl2 = (0, fl')"
    using w dg by (simp add: final_digest [OF sha])
  have ok: "header_ok ?h" using h(1) by (simp add: header_ok_def)
  then have len96: "length (header_bytes ?h) = 96" by (rule length_header_bytes)
  have keep: "flash_mem fl' a = flash_mem fl2 a" if "chunk_area ?base 0 (length data) a" for a
    using chunk_area_slot [OF len that] by (intro write_frame [OF P(1) w]) (auto simp: len96 pad8_def in_range_def)
  have "\<forall>a. in_range ?base 96 a \<longrightarrow> flash_mem fl2 a = 0xFF"
  proof (intro allI impI)
    fix a assume a: "in_range ?base 96 a"
    then have "\<not> chunk_area ?base 0 (length data) a" using chunk_area_slot [OF len, of slot a] by (auto simp: in_range_def)
    from blob_write_loop_frame [OF P nonce _ l this] a blank header_in_slot [of slot a] show "flash_mem fl2 a = 0xFF" by simp
  qed
  with write_data [OF P(1) w] len96 have "flash_simple_read ?base 96 fl' = header_bytes ?h" by (simp add: pad8_def)
  moreover have "chunks_stored P fl' ?base ?key (hdr_nonce h) (build_aad h) 0 (blob_chunks data) tags"
    using tags keep by (subst blob_chunks_cong) auto
  moreover have "build_aad ?h = build_aad h" by (simp add: build_aad_def)
  ultimately have "blob_stored P fl' slot ?h data" using h ok len by (auto simp: blob_stored_def)
  then show thesis by (rule that)
qed

text \<open>The table entry of a blob, and a slot that table and flash agree on.\<close>

definition blob_entry :: "byte \<Rightarrow> byte list \<Rightarrow> nat \<Rightarrow> fat_entry" where
  "blob_entry slot uuid len = \<lparr>fat_uuid = uuid, fat_length = of_nat (96 + len), fat_padding = 0,
                               fat_flash_addr = of_nat (blob_slot_base slot)\<rparr>"

definition blob_holds ::
    "platform \<Rightarrow> flash_dev \<Rightarrow> blob_state \<Rightarrow> byte \<Rightarrow> byte list \<Rightarrow> byte list \<Rightarrow> u32 \<Rightarrow> byte list \<Rightarrow> bool" where
  "blob_holds P fl b slot uuid owner gmask data \<longleftrightarrow>
     g_fat b ! unat slot = blob_entry slot uuid (length data) \<and>
     (\<exists>h. blob_stored P fl slot h data \<and> hdr_owner_pin_hash h = owner \<and> hdr_group_mask h = gmask)"

lemma new_header_valid:
  "length owner = 32 \<Longrightarrow> length nonce = 12 \<Longrightarrow> header_ok (blob_new_header slot owner gmask nonce len)"
  by (simp add: header_ok_def blob_new_header_def)

lemma new_header_ok:
  assumes "length owner = 32" "length nonce = 12" "len \<le> 8192"
  shows "header_ok (blob_new_header slot owner gmask nonce len)"
    and "unat (hdr_plaintext_len (blob_new_header slot owner gmask nonce len)) = len"
  using assms by (simp_all add: new_header_valid) (simp add: blob_new_header_def unat_of_nat)

lemma new_header_sel [simp]:
  "hdr_magic (blob_new_header s owner g n len) = SECURE_BLOB_MAGIC"
  "hdr_version (blob_new_header s owner g n len) = SECURE_BLOB_VERSION"
  "hdr_slot (blob_new_header s owner g n len) = ucast s"
  "hdr_group_mask (blob_new_header s owner g n len) = g"
  "hdr_owner_pin_hash (blob_new_header s owner g n len) = owner"
  "hdr_nonce (blob_new_header s owner g n len) = n"
  by (simp_all add: blob_new_header_def)

text \<open>
  The write after its checks: nonce, slot data, table entry. The code accepts 11680 bytes; the
  tag area is sized for 8192.
\<close>

lemma blob_write_steps_any:
  assumes P: "secrets_ok P" and len: "length data \<le> 11680" and slot: "find_write_slot slot b = Inr s"
    and w: "blob_write P slot data uuid owner gmask fl tr b = Some (rc, fl', tr', b')"
  obtains "0xFFFF < gmask" "rc = SECURE_BLOB_STORE_CRYPTO_ERROR" "fl' = fl" "b' = b" "tr' = tr"
    | nonce h rc1 fl1 where "gmask \<le> 0xFFFF" "security_generate_nonce 12 tr = Some (Some nonce, tr')" "length nonce = 12"
        "h = blob_new_header s owner gmask nonce (length data)"
        "blob_store_data P s h (build_aad h) (file_key P gmask) data fl = (rc1, fl1)"
        "if rc1 \<noteq> SECURE_BLOB_STORE_OK then rc = rc1 \<and> fl' = fl1 \<and> b' = b\<lparr>g_aad := build_aad h\<rparr>
         else commit_fat_entry P s (blob_entry s uuid (length data)) fl1 (b\<lparr>g_aad := build_aad h\<rparr>) = (rc, fl', b')"
proof (cases "0xFFFF < gmask")
  case True
  with w P len slot show thesis
    by (intro that(1)) (auto simp: blob_write_def root_secret derive_file_key_eq SECURE_BLOB_HEADER_SIZE_def)
next
  case False
  have guard: "\<not> (SECURE_BLOB_TAGS_OFFSET - SECURE_BLOB_HEADER_SIZE < length data \<or> 0xFFFFFFFF < length data \<or>
      0xFFFF < SECURE_BLOB_HEADER_SIZE + length data)"
    using len by (simp add: SECURE_BLOB_HEADER_SIZE_def)
  from False w P slot obtain r tr1 where n: "security_generate_nonce 12 tr = Some (r, tr1)"
    by (simp only: blob_write_def guard if_False) (auto simp: root_secret derive_file_key_eq bind_eq_Some_conv)
  from nonce_some [OF _ n] obtain nonce where r: "r = Some nonce" "length nonce = 12" by auto
  define h where "h = blob_new_header s owner gmask nonce (length data)"
  obtain rc1 fl1 where d: "blob_store_data P s h (build_aad h) (file_key P gmask) data fl = (rc1, fl1)" by fastforce
  have "(case (if rc1 \<noteq> SECURE_BLOB_STORE_OK then (rc1, fl1, b\<lparr>g_aad := build_aad h\<rparr>)
         else commit_fat_entry P s (blob_entry s uuid (length data)) fl1 (b\<lparr>g_aad := build_aad h\<rparr>)) of
          (rc, fl, b) \<Rightarrow> Some (rc, fl, tr1, b)) = blob_write P slot data uuid owner gmask fl tr b"
    unfolding blob_write_def
    using False P slot n r d len
    by (simp add: root_secret derive_file_key_eq blob_entry_def SECURE_BLOB_HEADER_SIZE_def h_def split: prod.splits)
  with w have "(if rc1 \<noteq> SECURE_BLOB_STORE_OK then (rc1, fl1, b\<lparr>g_aad := build_aad h\<rparr>)
         else commit_fat_entry P s (blob_entry s uuid (length data)) fl1 (b\<lparr>g_aad := build_aad h\<rparr>)) = (rc, fl', b')"
    and "tr1 = tr'" by (auto split: prod.splits)
  with False n r d show thesis by (intro that(2) [of nonce h rc1 fl1]) (auto simp: h_def split: if_splits)
qed

lemma blob_write_steps:
  assumes P: "secrets_ok P" and len: "length data \<le> 8192" and slot: "find_write_slot slot b = Inr s"
    and w: "blob_write P slot data uuid owner gmask fl tr b = Some (rc, fl', tr', b')"
  obtains "0xFFFF < gmask" "rc = SECURE_BLOB_STORE_CRYPTO_ERROR" "fl' = fl" "b' = b" "tr' = tr"
    | nonce h rc1 fl1 where "gmask \<le> 0xFFFF" "security_generate_nonce 12 tr = Some (Some nonce, tr')" "length nonce = 12"
        "h = blob_new_header s owner gmask nonce (length data)"
        "blob_store_data P s h (build_aad h) (file_key P gmask) data fl = (rc1, fl1)"
        "if rc1 \<noteq> SECURE_BLOB_STORE_OK then rc = rc1 \<and> fl' = fl1 \<and> b' = b\<lparr>g_aad := build_aad h\<rparr>
         else commit_fat_entry P s (blob_entry s uuid (length data)) fl1 (b\<lparr>g_aad := build_aad h\<rparr>) = (rc, fl', b')"
proof -
  have "length data \<le> 11680" using len by simp
  from blob_write_steps_any [OF P this slot w] show thesis using that by blast
qed

lemma commit_frame:
  assumes "flash_ok P" "blob_ok b" "length (fat_uuid e) = 16" "slot_is_valid slot"
    and "commit_fat_entry P slot e fl b = (rc, fl', b')" "\<not> sector_of SECURE_BLOB_STORE_FAT_ADDR a"
  shows "flash_mem fl' a = flash_mem fl a"
  using assms fat_pg.flush_frame [OF assms(1) fat_ok_update _ assms(6), of "g_fat b" e "unat slot" fl]
  by (auto simp: commit_fat_entry_flush blob_ok_def split: prod.splits if_splits)

lemma commit_ok:
  assumes "flash_ok P" "blob_ok b" "length (fat_uuid e) = 16" "slot_is_valid slot"
    and "commit_fat_entry P slot e fl b = (SECURE_BLOB_STORE_OK, fl', b')"
  shows "b' = b\<lparr>g_fat := (g_fat b)[unat slot := e]\<rparr>" "fat_pg.holds (g_fat b') fl'" "blob_ok b'"
proof -
  from assms obtain f: "fat_flush P ((g_fat b)[unat slot := e]) fl = (0, fl')"
    and b': "b' = b\<lparr>g_fat := (g_fat b)[unat slot := e]\<rparr>"
    by (auto simp: commit_fat_entry_flush split: prod.splits if_splits)
  have ok: "fat_ok ((g_fat b)[unat slot := e])" using assms(2,3) by (simp add: blob_ok_def fat_ok_update)
  show "b' = b\<lparr>g_fat := (g_fat b)[unat slot := e]\<rparr>" by (rule b')
  show "fat_pg.holds (g_fat b') fl'" using fat_pg.holds_flush [OF assms(1) ok f] by (simp add: b')
  show "blob_ok b'" using ok assms(2) by (simp add: b' blob_ok_def)
qed

lemma find_write_slot_valid: "find_write_slot slot b = Inr s \<Longrightarrow> slot_is_valid s"
proof (cases "slot = SECURE_BLOB_STORE_AUTO_SLOT")
  case True
  assume "find_write_slot slot b = Inr s"
  with True have "s \<in> set (map of_nat [0..<8])"
    by (force simp: find_write_slot_def SECURE_BLOB_STORE_MAX_SLOTS_def find_Some_iff split: option.splits)
  then obtain i where "i < 8" "s = of_nat i" by auto
  then show ?thesis by (simp add: valid_slot unat_of_nat)
qed (auto simp: find_write_slot_def split: if_splits)

lemma blob_ok_aad [simp]: "blob_ok (b\<lparr>g_aad := x\<rparr>) = blob_ok b"
  by (simp add: blob_ok_def)

lemma blob_write_rejects:
  assumes "\<And>s. find_write_slot slot b \<noteq> Inr s"
    and "blob_write P slot data uuid owner gmask fl tr b = Some (rc, fl', tr', b')"
  shows "rc \<noteq> SECURE_BLOB_STORE_OK \<and> fl' = fl \<and> tr' = tr \<and> b' = b"
proof (cases "find_write_slot slot b")
  case (Inl e)
  then have "e \<noteq> SECURE_BLOB_STORE_OK" by (auto simp: find_write_slot_def split: if_splits option.splits)
  with Inl assms(2) show ?thesis by (auto simp: blob_write_def split: if_splits)
qed (use assms(1) in blast)

text \<open>Whatever its result, a write touches the slot it resolves to and the FAT page only.\<close>

lemma blob_write_frame [frame]:
  assumes P: "secrets_ok P" "gcm_ok P" "flash_ok P" and b: "blob_ok b"
    and arg: "length uuid = 16" "length owner = 32" "length data \<le> 8192"
    and slot: "find_write_slot slot b = Inr s"
    and w: "blob_write P slot data uuid owner gmask fl tr b = Some (rc, fl', tr', b')"
    and a: "\<not> in_slot s a" "\<not> sector_of SECURE_BLOB_STORE_FAT_ADDR a"
  shows "flash_mem fl' a = flash_mem fl a"
  using P(1) arg(3) slot w
proof (cases rule: blob_write_steps)
  case (2 nonce h rc1 fl1)
  have "header_ok h" using arg 2 by (simp add: new_header_ok)
  from blob_store_data_frame [OF P(3,2) this arg(3) 2(5) a(1)]
  have f1: "flash_mem fl1 a = flash_mem fl a" .
  show ?thesis
  proof (cases "rc1 = SECURE_BLOB_STORE_OK")
    case True
    with 2(6) have "commit_fat_entry P s (blob_entry s uuid (length data)) fl1 (b\<lparr>g_aad := build_aad h\<rparr>) = (rc, fl', b')"
      by simp
    from commit_frame [OF P(3) _ _ find_write_slot_valid [OF slot] this a(2)] b arg(1) f1
    show ?thesis by (simp add: blob_entry_def)
  qed (use 2(6) f1 in simp)
qed simp

text \<open>A write that reports success stores the blob, and updates the table in RAM and flash.\<close>

lemma blob_write_stores:
  assumes P: "secrets_ok P" "gcm_ok P" "flash_ok P" and b: "blob_ok b"
    and arg: "length uuid = 16" "length owner = 32" "length data \<le> 8192"
    and slot: "find_write_slot slot b = Inr s"
    and w: "blob_write P slot data uuid owner gmask fl tr b = Some (SECURE_BLOB_STORE_OK, fl', tr', b')"
  shows "blob_holds P fl' b' s uuid owner gmask data"
    and "g_fat b' = (g_fat b)[unat s := blob_entry s uuid (length data)]"
    and "fat_pg.holds (g_fat b') fl'" and "blob_ok b'"
proof -
  have valid: "slot_is_valid s" by (rule find_write_slot_valid [OF slot])
  from P(1) arg(3) slot w obtain nonce h fl1 where m: "gmask \<le> 0xFFFF" and n: "length nonce = 12"
    and h: "h = blob_new_header s owner gmask nonce (length data)"
    and d: "blob_store_data P s h (build_aad h) (file_key P gmask) data fl = (SECURE_BLOB_STORE_OK, fl1)"
    and c: "commit_fat_entry P s (blob_entry s uuid (length data)) fl1 (b\<lparr>g_aad := build_aad h\<rparr>)
      = (SECURE_BLOB_STORE_OK, fl', b')"
    by (cases rule: blob_write_steps) (auto split: if_splits)
  have hk: "header_ok h" "unat (hdr_plaintext_len h) = length data" using arg n by (simp_all add: h new_header_ok)
  have d': "blob_store_data P s h (build_aad h) (file_key P (hdr_group_mask h)) data fl = (SECURE_BLOB_STORE_OK, fl1)"
    using d by (simp add: h)
  obtain t where st: "blob_stored P fl1 s (h\<lparr>hdr_blob_tag := t\<rparr>) data"
    by (rule blob_store_data_stores [OF P(3,2) arg(3) hk(1) _ _ _ hk(2) _ d']) (use m in \<open>simp_all add: h\<close>)
  have uuid: "length (fat_uuid (blob_entry s uuid (length data))) = 16" using arg(1) by (simp add: blob_entry_def)
  have b1: "blob_ok (b\<lparr>g_aad := build_aad h\<rparr>)" using b by simp
  note ok = commit_ok [OF P(3) b1 uuid valid c]
  show fat: "g_fat b' = (g_fat b)[unat s := blob_entry s uuid (length data)]" using ok(1) by simp
  show "fat_pg.holds (g_fat b') fl'" "blob_ok b'" by (rule ok)+
  have "blob_stored P fl' s (h\<lparr>hdr_blob_tag := t\<rparr>) data"
    using slot_not_fat [OF valid] by (intro blob_stored_frame [OF st] commit_frame [OF P(3) b1 uuid valid c]) auto
  moreover have "g_fat b' ! unat s = blob_entry s uuid (length data)"
    using b valid by (simp add: fat valid_slot blob_ok_def fat_ok_def)
  ultimately show "blob_holds P fl' b' s uuid owner gmask data"
    by (auto simp: blob_holds_def h intro!: exI [of _ "h\<lparr>hdr_blob_tag := t\<rparr>"])
qed

text \<open>It does report success, if the flash controller works and the generator delivers a nonce.\<close>

lemma blob_write_loop_reliable:
  assumes P: "flash_reliable P" "gcm_ok P" "length nonce = 12"
  shows "fst (blob_write_loop P base master nonce aad processed idx data sha fl) = SECURE_BLOB_STORE_OK"
proof (induction "length data" arbitrary: processed idx data sha fl rule: less_induct)
  case less
  show ?case
  proof (cases "data = []")
    case True
    then show ?thesis by (simp add: blob_write_loop.simps)
  next
    case False
    obtain rc sha' fl' where r: "blob_write_loop P base master nonce aad processed idx data sha fl = (rc, sha', fl')"
      by (metis prod_cases3)
    have rel: "rc = 0" if "flash_simple_write P a p s = (rc, s')" for a p s s' and rc :: int
      using write_reliable [OF P(1), of a p s] that by simp
    from P(2,3) False r have "rc = SECURE_BLOB_STORE_OK"
    proof (cases rule: write_loop_cases)
      case (1 ct tag rc1 fl1)
      with rel [OF 1(4)] obtain fl2 where
        "blob_write_loop P base master nonce aad (processed + length (take 256 data)) (Suc idx) (drop 256 data)
               (sha256_raw_ctx_update sha tag) fl2 = (rc, sha', fl')" by (auto dest: rel split: if_splits)
      with less [of "drop 256 data" "processed + length (take 256 data)" "Suc idx" "sha256_raw_ctx_update sha tag" fl2] False
      show ?thesis by simp
    qed
    with r show ?thesis by simp
  qed
qed

lemma blob_store_data_reliable:
  assumes "flash_reliable P" "gcm_ok P" "header_ok h" "length master = 32"
  shows "fst (blob_store_data P slot h aad master data fl) = SECURE_BLOB_STORE_OK"
proof -
  obtain rc fl1 where e: "erase_slot_pages P slot fl = (rc, fl1)" by fastforce
  obtain rc1 sha fl2 where l: "blob_write_loop P (blob_slot_base slot) master (hdr_nonce h) aad 0 0 data
      (sha256_raw_ctx_init sha256_ctx_zero) fl1 = (rc1, sha, fl2)" by (metis prod_cases3)
  obtain dg cx where dg: "sha256_raw_ctx_final sha = (dg, cx)" by fastforce
  have "rc = SECURE_BLOB_STORE_OK"
    using erase_pages_reliable [OF assms(1)] e by (metis erase_slot_pages_def fst_conv)
  moreover have "rc1 = SECURE_BLOB_STORE_OK"
    using blob_write_loop_reliable [OF assms(1,2)] l assms(3) by (metis fst_conv header_ok_def)
  ultimately show ?thesis
    using e l dg assms(4) write_reliable [OF assms(1)]
    by (simp add: blob_store_data_def Let_def secure_crypto_hmac_sha256_def split_def)
qed

lemma blob_write_succeeds_any:
  assumes P: "secrets_ok P" "gcm_ok P" "flash_reliable P" and b: "blob_ok b"
    and arg: "length uuid = 16" "length owner = 32" "length data \<le> 11680" "gmask \<le> 0xFFFF"
    and slot: "find_write_slot slot b = Inr s"
    and tr: "3 \<le> length (trng_words (trng_polls tr))"
  obtains fl' tr' b' where
    "blob_write P slot data uuid owner gmask fl tr b = Some (SECURE_BLOB_STORE_OK, fl', tr', b')"
proof -
  from tr obtain bs tr' where "trng_read_bytes 12 tr = Some (bs, tr')"
    by (auto intro: trng_read_returns [of 12 tr])
  then have n: "security_generate_nonce 12 tr = Some (Some bs, tr')" "length bs = 12"
    using trng_read_length by (auto simp: security_generate_nonce_def)
  let ?h = "blob_new_header s owner gmask bs (length data)"
  let ?b = "b\<lparr>g_aad := build_aad ?h\<rparr>" and ?e = "blob_entry s uuid (length data)"
  have "fst (blob_store_data P s ?h (build_aad ?h) (file_key P gmask) data fl) = SECURE_BLOB_STORE_OK"
    by (rule blob_store_data_reliable [OF P(3,2) new_header_valid [OF arg(2) n(2)] length_file_key])
  then obtain fl1 where d: "blob_store_data P s ?h (build_aad ?h) (file_key P gmask) data fl = (SECURE_BLOB_STORE_OK, fl1)"
    by (metis prod.collapse)
  have rel: "fst (fat_flush P fat fl1) = 0" for fat
    using erase_reliable [OF P(3)] write_reliable [OF P(3)] by (simp add: fat_flush_def split_def)
  have len: "length (fat_uuid ?e) = 16" using arg(1) by (simp add: blob_entry_def)
  have bo: "blob_ok ?b" using b by simp
  have c: "fst (commit_fat_entry P s ?e fl1 ?b) = SECURE_BLOB_STORE_OK"
    unfolding commit_fat_entry_flush [OF bo len find_write_slot_valid [OF slot]]
    using rel by (simp add: split_def)
  then obtain fl' b' where "commit_fat_entry P s ?e fl1 ?b = (SECURE_BLOB_STORE_OK, fl', b')"
    by (metis prod.collapse)
  with d n(1) slot P(1) arg(3,4) have
    "blob_write P slot data uuid owner gmask fl tr b = Some (SECURE_BLOB_STORE_OK, fl', tr', b')"
    by (simp add: blob_write_def root_secret derive_file_key_eq Let_def blob_entry_def SECURE_BLOB_HEADER_SIZE_def)
  then show thesis by (rule that)
qed

lemma blob_write_succeeds:
  assumes P: "secrets_ok P" "gcm_ok P" "flash_reliable P" and b: "blob_ok b"
    and arg: "length uuid = 16" "length owner = 32" "length data \<le> 8192" "gmask \<le> 0xFFFF"
    and slot: "find_write_slot slot b = Inr s"
    and tr: "3 \<le> length (trng_words (trng_polls tr))"
  obtains fl' tr' b' where
    "blob_write P slot data uuid owner gmask fl tr b = Some (SECURE_BLOB_STORE_OK, fl', tr', b')"
proof -
  have "length data \<le> 11680" using arg(3) by simp
  from blob_write_succeeds_any [OF P b arg(1,2) this arg(4) slot tr] that show thesis by blast
qed

lemma blob_write_fat_fail:
  assumes "secrets_ok P" "blob_ok b" "length uuid = 16" "length data \<le> 8192"
    and "blob_write P slot data uuid owner gmask fl tr b = Some (rc, fl', tr', b')" "rc \<noteq> SECURE_BLOB_STORE_OK"
  shows "g_fat b' = g_fat b \<and> blob_ok b'"
proof (cases "find_write_slot slot b")
  case (Inr s)
  from assms(1,4) Inr assms(5) show ?thesis
  proof (cases rule: blob_write_steps)
    case (2 nonce h rc1 fl1)
    with assms(2,3,6) find_write_slot_valid [OF Inr] show ?thesis
      by (auto simp: commit_fat_entry_flush blob_entry_def split: if_splits prod.splits)
  qed (use assms(2) in simp)
qed (use assms blob_write_rejects [of slot b P data uuid owner gmask fl tr rc fl' tr' b'] in auto)

end
