(* ===== verification/BlobRead.thy ===== *)
theory BlobRead
  imports BlobStore
begin

text \<open>
  Reading the blob store. The central lemma is an equivalence: a read reports success with
  some data exactly when the slot holds the encryption of that data under a header with the
  caller's mask and owner (\<open>blob_read_iff\<close>). It gives the round trip with \<^verbatim>\<open>blob_write\<close>, and
  that nothing but what was encrypted under the group's key is ever returned.
\<close>

section \<open>The read loop\<close>

lemma gcm_wrap_iff:
  assumes "gcm_ok P" "length key = 32" "length nonce = 12" "length tag = 16" "length ct \<le> n"
  shows "secure_crypto_aes_gcm_decrypt P key nonce aad ct tag n = Inr pt \<longleftrightarrow>
         secure_crypto_aes_gcm_encrypt P key nonce aad pt 16 = Some (ct, tag)"
  using assms gcm_decrypt_iff [OF assms(1-3), of aad ct tag pt]
  by (auto simp: secure_crypto_aes_gcm_decrypt_def secure_crypto_aes_gcm_encrypt_def split: option.splits)

definition read_step :: "read_state \<Rightarrow> byte list list \<Rightarrow> nat \<Rightarrow> read_state" where
  "read_step rs tags n = rs\<lparr>rs_sha_ctx := fold (\<lambda>t c. sha256_raw_ctx_update c t) tags (rs_sha_ctx rs),
                            rs_processed := rs_processed rs + n\<rparr>"

lemma slot_of_addr:
  assumes "slot_is_valid slot"
  shows "blob_slot_base (of_nat ((blob_slot_base slot + 96 - SECURE_BLOB_STORE_FLASH_BASE) div SECURE_BLOB_STORE_SLOT_SIZE))
    = blob_slot_base slot"
proof -
  have "(blob_slot_base slot + 96 - SECURE_BLOB_STORE_FLASH_BASE) div SECURE_BLOB_STORE_SLOT_SIZE = unat slot"
    by (simp add: blob_slot_base_def)
  then show ?thesis by simp
qed

text \<open>One round, for a read state positioned at chunk \<open>idx\<close> of a slot.\<close>

lemma blob_read_loop_step:
  fixes fl :: flash_dev and left idx :: nat
  assumes P: "gcm_ok P" and slot: "slot_is_valid slot" and left: "0 < left"
    and rs: "rs_flash_addr (g_read_state b) = blob_slot_base slot + 96" "rs_processed (g_read_state b) = 256 * idx"
      "length (rs_nonce (g_read_state b)) = 12"
  defines "n \<equiv> min 256 left"
    and "ct \<equiv> flash_simple_read (blob_slot_base slot + 96 + 256 * idx) (min 256 left) fl"
    and "tag \<equiv> flash_simple_read (blob_slot_base slot + 11776 + 16 * idx) 16 fl"
  shows "blob_read_loop P left out fl b = (SECURE_BLOB_STORE_OK, out', b') \<longleftrightarrow>
    (\<exists>pt. secure_crypto_aes_gcm_encrypt P (chunk_key (rs_master_key (g_read_state b)) idx) (rs_nonce (g_read_state b))
            (g_aad b) pt 16 = Some (ct, tag) \<and> length pt = n \<and>
          blob_read_loop P (left - n) (out @ pt) fl (b\<lparr>g_read_state := read_step (g_read_state b) [tag] n\<rparr>)
            = (SECURE_BLOB_STORE_OK, out', b'))"
proof -
  let ?key = "chunk_key (rs_master_key (g_read_state b)) idx"
  let ?dec = "secure_crypto_aes_gcm_decrypt P ?key (rs_nonce (g_read_state b)) (g_aad b) ct tag n"
  have n: "(if SECURE_BLOB_CHUNK_SIZE < left then SECURE_BLOB_CHUNK_SIZE else left) = n"
    by (simp add: n_def SECURE_BLOB_CHUNK_SIZE_def)
  have idx: "rs_processed (g_read_state b) div SECURE_BLOB_CHUNK_SIZE = idx" by (simp add: rs SECURE_BLOB_CHUNK_SIZE_def)
  have sl: "blob_slot_base (of_nat ((rs_flash_addr (g_read_state b) - SECURE_BLOB_STORE_FLASH_BASE)
      div SECURE_BLOB_STORE_SLOT_SIZE)) = blob_slot_base slot" unfolding rs(1) by (rule slot_of_addr [OF slot])
  have iff: "?dec = Inr pt \<longleftrightarrow>
      secure_crypto_aes_gcm_encrypt P ?key (rs_nonce (g_read_state b)) (g_aad b) pt 16 = Some (ct, tag)" for pt
    using rs(3) by (intro gcm_wrap_iff [OF P]) (simp_all add: ct_def tag_def n_def)
  note unf = blob_read_loop.simps [of P left] Let_def n
  show ?thesis
  proof (cases ?dec)
    case (Inl lo)
    then have "blob_read_loop P left out fl b \<noteq> (SECURE_BLOB_STORE_OK, out', b')"
      using left unfolding unf unfolding idx sl mult.commute [of idx 16] unfolding rs(1,2) layout SECURE_BLOB_TAGS_OFFSET_def
      by (simp add: ct_def tag_def n_def)
    with Inl iff show ?thesis by (metis sum.distinct(1))
  next
    case (Inr pt)
    then have e: "blob_read_loop P left out fl b =
        blob_read_loop P (left - n) (out @ pt) fl (b\<lparr>g_read_state := read_step (g_read_state b) [tag] n\<rparr>)"
      using left unfolding unf unfolding idx sl mult.commute [of idx 16] unfolding rs(1,2) layout SECURE_BLOB_TAGS_OFFSET_def
      by (simp add: ct_def tag_def n_def read_step_def rs(2))
    have enc: "secure_crypto_aes_gcm_encrypt P ?key (rs_nonce (g_read_state b)) (g_aad b) pt' 16 = Some (ct, tag)
        \<longleftrightarrow> pt' = pt" for pt'
      unfolding iff [symmetric] Inr by auto
    have "length pt = n" using gcm_wrap_length(1) [OF P iff [THEN iffD1, OF Inr]] by (simp add: ct_def n_def)
    with e enc show ?thesis by simp
  qed
qed

lemma blob_chunks_append:
  "length c = min 256 (length c + length rest) \<Longrightarrow> c \<noteq> [] \<Longrightarrow> blob_chunks (c @ rest) = c # blob_chunks rest"
  by (auto simp: blob_chunks.simps [of "c @ rest"] min_def split: if_splits)

lemma blob_read_loop_iff:
  assumes P: "gcm_ok P" and slot: "slot_is_valid slot"
  shows "rs_flash_addr (g_read_state b) = blob_slot_base slot + 96 \<Longrightarrow> left = 0 \<or> rs_processed (g_read_state b) = 256 * idx \<Longrightarrow>
    length (rs_nonce (g_read_state b)) = 12 \<Longrightarrow>
    blob_read_loop P left out fl b = (SECURE_BLOB_STORE_OK, out', b') \<longleftrightarrow>
    (\<exists>pt tags. length pt = left \<and> out' = out @ pt \<and>
       chunks_stored P fl (blob_slot_base slot) (rs_master_key (g_read_state b)) (rs_nonce (g_read_state b)) (g_aad b)
         idx (blob_chunks pt) tags \<and>
       b' = b\<lparr>g_read_state := read_step (g_read_state b) tags left\<rparr>)"
proof (induction left arbitrary: idx out b rule: less_induct)
  case (less left)
  show ?case
  proof (cases "left = 0")
    case True
    then show ?thesis by (auto simp: blob_read_loop.simps read_step_def)
  next
    case False
    define n where "n = min 256 left"
    let ?tag = "flash_simple_read (blob_slot_base slot + 11776 + 16 * idx) 16 fl"
    let ?b = "b\<lparr>g_read_state := read_step (g_read_state b) [?tag] n\<rparr>"
    let ?enc = "\<lambda>pt. secure_crypto_aes_gcm_encrypt P (chunk_key (rs_master_key (g_read_state b)) idx)
      (rs_nonce (g_read_state b)) (g_aad b) pt 16
        = Some (flash_simple_read (blob_slot_base slot + 96 + 256 * idx) n fl, ?tag)"
    have proc: "rs_processed (g_read_state b) = 256 * idx" using less.prems(2) False by simp
    have IH: "blob_read_loop P (left - n) o1 fl ?b = (SECURE_BLOB_STORE_OK, out', b') \<longleftrightarrow>
        (\<exists>pt tags. length pt = left - n \<and> out' = o1 @ pt \<and>
           chunks_stored P fl (blob_slot_base slot) (rs_master_key (g_read_state b)) (rs_nonce (g_read_state b)) (g_aad b)
             (Suc idx) (blob_chunks pt) tags \<and>
           b' = b\<lparr>g_read_state := read_step (g_read_state b) (?tag # tags) left\<rparr>)" for o1
    proof -
      have "read_step (read_step (g_read_state b) [?tag] n) tags (left - n) = read_step (g_read_state b) (?tag # tags) left" for tags
        by (simp add: read_step_def n_def)
      with less.IH [of "left - n" ?b "Suc idx" o1] less.prems proc False show ?thesis
        by (simp add: n_def read_step_def min_def)
    qed
    have "blob_read_loop P left out fl b = (SECURE_BLOB_STORE_OK, out', b') \<longleftrightarrow>
        (\<exists>c. ?enc c \<and> length c = n \<and> blob_read_loop P (left - n) (out @ c) fl ?b = (SECURE_BLOB_STORE_OK, out', b'))"
      using blob_read_loop_step [OF P slot _ less.prems(1) proc less.prems(3)] False by (simp add: n_def)
    also have "\<dots> \<longleftrightarrow> (\<exists>c rest tags. ?enc c \<and> length c = n \<and> length rest = left - n \<and> out' = out @ c @ rest \<and>
        chunks_stored P fl (blob_slot_base slot) (rs_master_key (g_read_state b)) (rs_nonce (g_read_state b)) (g_aad b)
             (Suc idx) (blob_chunks rest) tags \<and>
        b' = b\<lparr>g_read_state := read_step (g_read_state b) (?tag # tags) left\<rparr>)"
      unfolding IH by auto
    also have "\<dots> \<longleftrightarrow> (\<exists>pt tags. length pt = left \<and> out' = out @ pt \<and>
       chunks_stored P fl (blob_slot_base slot) (rs_master_key (g_read_state b)) (rs_nonce (g_read_state b)) (g_aad b)
         idx (blob_chunks pt) tags \<and>
       b' = b\<lparr>g_read_state := read_step (g_read_state b) tags left\<rparr>)" (is "?L \<longleftrightarrow> ?R")
    proof
      assume ?L
      then obtain c rest tags where c: "?enc c" "length c = n" "length rest = left - n" "out' = out @ c @ rest"
        and s: "chunks_stored P fl (blob_slot_base slot) (rs_master_key (g_read_state b)) (rs_nonce (g_read_state b)) (g_aad b)
             (Suc idx) (blob_chunks rest) tags"
        and b': "b' = b\<lparr>g_read_state := read_step (g_read_state b) (?tag # tags) left\<rparr>" by blast
      have "blob_chunks (c @ rest) = c # blob_chunks rest"
        using c False by (intro blob_chunks_append) (auto simp: n_def)
      with c s b' False show ?R
        by (intro exI [of _ "c @ rest"] exI [of _ "?tag # tags"]) (auto simp: n_def)
    next
      assume ?R
      then obtain pt tags where pt: "length pt = left" "out' = out @ pt"
        and s: "chunks_stored P fl (blob_slot_base slot) (rs_master_key (g_read_state b)) (rs_nonce (g_read_state b)) (g_aad b)
         idx (blob_chunks pt) tags"
        and b': "b' = b\<lparr>g_read_state := read_step (g_read_state b) tags left\<rparr>" by blast
      from pt False have ne: "pt \<noteq> []" by auto
      then have bc: "blob_chunks pt = take 256 pt # blob_chunks (drop 256 pt)" by (simp add: blob_chunks.simps [of pt])
      with s obtain ts where "tags = ?tag # ts" by (cases tags) auto
      with s bc pt b' show ?L
        by (intro exI [of _ "take 256 pt"] exI [of _ "drop 256 pt"] exI [of _ ts]) (auto simp: n_def min.commute)
    qed
    finally show ?thesis .
  qed
qed

section \<open>Headers\<close>

lemma load_header_fails: "load_header slot fl b = Inl rc \<Longrightarrow> rc \<noteq> SECURE_BLOB_STORE_OK"
  by (auto simp: load_header_def Let_def split: if_splits)

lemma load_header_sound:
  assumes "load_header slot fl b = Inr h"
  shows "header_ok h" "hdr_magic h = SECURE_BLOB_MAGIC" "hdr_version h = SECURE_BLOB_VERSION"
    "hdr_slot h = ucast slot" "flash_simple_read (blob_slot_base slot) 96 fl = header_bytes h"
    "slot_is_valid slot" "\<not> slot_is_empty slot b"
proof -
  from assms have h: "h = un_header (flash_simple_read (blob_slot_base slot) 96 fl)"
    and f: "hdr_magic h = SECURE_BLOB_MAGIC" "hdr_version h = SECURE_BLOB_VERSION" "unat (hdr_slot h) = unat slot"
      "slot_is_valid slot" "\<not> slot_is_empty slot b"
    by (auto simp: load_header_def Let_def SECURE_BLOB_HEADER_SIZE_def split: if_splits)
  show "hdr_magic h = SECURE_BLOB_MAGIC" "hdr_version h = SECURE_BLOB_VERSION" "slot_is_valid slot"
    "\<not> slot_is_empty slot b" by (rule f)+
  show "hdr_slot h = ucast slot" using f(3) by (simp add: word_unat_eq_iff)
  show "header_ok h" "flash_simple_read (blob_slot_base slot) 96 fl = header_bytes h"
    by (simp_all add: h hdrc.enc_dec hdrc.valid_dec)
qed

lemma blob_entry_sel [simp]:
  "fat_uuid (blob_entry slot uuid len) = uuid"
  "slot_is_valid slot \<Longrightarrow> unat (fat_flash_addr (blob_entry slot uuid len)) = blob_slot_base slot"
  "slot_is_valid slot \<Longrightarrow> fat_flash_addr (blob_entry slot uuid len) \<noteq> SECURE_BLOB_EMPTY_U32"
  "len \<le> 8192 \<Longrightarrow> unat (fat_length (blob_entry slot uuid len)) = 96 + len"
  using slot_base_word [of slot] by (simp_all add: blob_entry_def unat_of_nat flip: of_nat_add)

lemma load_header_stored:
  assumes "slot_is_valid slot" "g_fat b ! unat slot = blob_entry slot uuid (length data)" "blob_stored P fl slot h data"
  shows "load_header slot fl b = Inr h"
proof -
  from assms(3) have len: "length data \<le> 8192" and h: "header_ok h" "hdr_magic h = SECURE_BLOB_MAGIC"
    "hdr_version h = SECURE_BLOB_VERSION" "hdr_slot h = ucast slot" "unat (hdr_plaintext_len h) = length data"
    and r: "flash_simple_read (blob_slot_base slot) 96 fl = header_bytes h"
    by (auto simp: blob_stored_def)
  have "un_header (header_bytes h) = h" by (rule hdrc.dec_enc_bare [OF h(1)])
  moreover have "\<not> slot_is_empty slot b" using assms(1,2) by (simp add: slot_is_empty_def)
  ultimately show ?thesis
    using assms(1,2) len h r by (simp add: load_header_def Let_def SECURE_BLOB_HEADER_SIZE_def)
qed

section \<open>The whole read\<close>

definition reader_allowed :: "byte list option \<Rightarrow> u32 \<Rightarrow> blob_header \<Rightarrow> bool" where
  "reader_allowed owner gmask h \<longleftrightarrow> gmask AND hdr_group_mask h \<noteq> 0 \<and>
     (case owner of None \<Rightarrow> True | Some x \<Rightarrow> x = hdr_owner_pin_hash h)"

definition opened :: "platform \<Rightarrow> byte \<Rightarrow> blob_header \<Rightarrow> blob_state \<Rightarrow> blob_state" where
  "opened P slot h b = b\<lparr>g_aad := build_aad h,
     g_read_state := \<lparr>rs_flash_addr = blob_slot_base slot + 96, rs_processed = 0,
       rs_total_len = unat (hdr_plaintext_len h), rs_nonce = hdr_nonce h,
       rs_master_key = file_key P (hdr_group_mask h), rs_expected_blob_tag = hdr_blob_tag h,
       rs_sha_ctx = sha256_raw_ctx_init (rs_sha_ctx (g_read_state b))\<rparr>\<rparr>"

lemma blob_read_init_cases:
  assumes "secrets_ok P"
  shows "blob_read_init_internal P slot owner gmask fl b =
    (if \<not> slot_is_valid slot then (Inl SECURE_BLOB_STORE_INVALID_ARGUMENT, b)
     else case load_header slot fl b of
       Inl rc \<Rightarrow> (Inl rc, b)
     | Inr h \<Rightarrow> if \<not> reader_allowed owner gmask h then (Inl SECURE_BLOB_STORE_PERMISSION_DENIED, b)
                else if 0xFFFF < hdr_group_mask h then (Inl SECURE_BLOB_STORE_CRYPTO_ERROR, b)
                else (Inr (unat (hdr_plaintext_len h)), opened P slot h b))"
  by (auto simp: blob_read_init_internal_def reader_allowed_def root_secret [OF assms] derive_file_key_eq
      opened_def SECURE_BLOB_HEADER_SIZE_def split: sum.splits option.splits)

lemma blob_read_finish_iff:
  assumes "absorbed (rs_sha_ctx (g_read_state b)) m"
  shows "fst (blob_read_finish b) = SECURE_BLOB_STORE_OK \<longleftrightarrow>
    rs_expected_blob_tag (g_read_state b) = hmac_spec (rs_master_key (g_read_state b)) (sha_spec m)"
  by (auto simp: blob_read_finish_def final_digest [OF assms] secure_crypto_hmac_sha256_def hmac_sha256_raw_spec Let_def)

lemma absorbed_tags:
  "sha_ready ctx \<Longrightarrow> absorbed (fold (\<lambda>t c. sha256_raw_ctx_update c t) tags (sha256_raw_ctx_init ctx)) (concat tags)"
  using sha.holds_fold [OF sha.holds_init, of ctx tags] by simp

lemma blob_read_rest_iff:
  assumes P: "gcm_ok P" and b: "sha_ready (rs_sha_ctx (g_read_state b))"
    and h: "load_header slot fl b = Inr h" "hdr_group_mask h \<le> 0xFFFF" and cap: "cap \<le> 8192"
  shows "(\<exists>b'. blob_read_rest P (Inr (unat (hdr_plaintext_len h)), opened P slot h b) cap fl = (SECURE_BLOB_STORE_OK, data, n, b'))
    \<longleftrightarrow> blob_stored P fl slot h data \<and> length data \<le> cap \<and> n = length data"
proof -
  let ?len = "unat (hdr_plaintext_len h)" and ?b = "opened P slot h b" and ?key = "file_key P (hdr_group_mask h)"
  note hs = load_header_sound [OF h(1)]
  have rs: "rs_flash_addr (g_read_state ?b) = blob_slot_base slot + 96" "rs_processed (g_read_state ?b) = 256 * 0"
    "length (rs_nonce (g_read_state ?b)) = 12" "rs_master_key (g_read_state ?b) = ?key"
    "rs_nonce (g_read_state ?b) = hdr_nonce h" "g_aad ?b = build_aad h" "rs_total_len (g_read_state ?b) = ?len"
    "rs_expected_blob_tag (g_read_state ?b) = hdr_blob_tag h"
    using hs(1) by (simp_all add: opened_def header_ok_def)
  have chunk: "(if 0 < ?len then blob_read_chunk P ?len fl ?b else (SECURE_BLOB_STORE_OK, [], ?b)) = blob_read_loop P ?len [] fl ?b"
    by (simp add: blob_read_chunk_def rs blob_read_loop.simps [of P 0])
  have loop: "blob_read_loop P ?len [] fl ?b = (SECURE_BLOB_STORE_OK, out, b1) \<longleftrightarrow>
      (\<exists>tags. length out = ?len \<and> chunks_stored P fl (blob_slot_base slot) ?key (hdr_nonce h) (build_aad h) 0 (blob_chunks out) tags \<and>
         b1 = ?b\<lparr>g_read_state := read_step (g_read_state ?b) tags ?len\<rparr>)" for out b1
    using blob_read_loop_iff [OF P hs(6) rs(1) _ rs(3), of ?len 0 "[]" fl out b1] rs by auto
  have fin: "fst (blob_read_finish (?b\<lparr>g_read_state := read_step (g_read_state ?b) tags ?len\<rparr>)) = SECURE_BLOB_STORE_OK
      \<longleftrightarrow> hdr_blob_tag h = hmac_spec ?key (sha_spec (concat tags))" for tags
    using blob_read_finish_iff [of "?b\<lparr>g_read_state := read_step (g_read_state ?b) tags ?len\<rparr>" "concat tags"] rs
      absorbed_tags [OF b, of tags] by (simp add: read_step_def opened_def)
  have "(\<exists>b'. blob_read_rest P (Inr ?len, ?b) cap fl = (SECURE_BLOB_STORE_OK, data, n, b')) \<longleftrightarrow>
      ?len \<le> cap \<and> n = ?len \<and> (\<exists>b1. blob_read_loop P ?len [] fl ?b = (SECURE_BLOB_STORE_OK, data, b1) \<and>
        fst (blob_read_finish b1) = SECURE_BLOB_STORE_OK)"
    unfolding blob_read_rest_def prod.case sum.case chunk
    by (auto simp: Let_def not_le split: prod.splits if_splits)
  also have "\<dots> \<longleftrightarrow> blob_stored P fl slot h data \<and> length data \<le> cap \<and> n = length data"
    unfolding loop using hs h(2) cap fin by (auto simp: blob_stored_def)
  finally show ?thesis .
qed

text \<open>A read succeeds with \<open>data\<close> exactly when the slot holds \<open>data\<close> and the reader is allowed.\<close>

lemma blob_read_iff:
  assumes P: "secrets_ok P" "gcm_ok P" and b: "blob_ok b" and cap: "cap \<le> 8192"
  shows "(\<exists>b'. blob_read_rest P (blob_read_init_internal P slot owner gmask fl b) cap fl = (SECURE_BLOB_STORE_OK, data, n, b'))
    \<longleftrightarrow> (\<exists>h. load_header slot fl b = Inr h \<and> reader_allowed owner gmask h \<and> blob_stored P fl slot h data \<and>
            length data \<le> cap \<and> n = length data)"
proof (cases "load_header slot fl b")
  case (Inl rc)
  with load_header_fails [OF Inl] show ?thesis
    by (auto simp: blob_read_init_cases [OF P(1)] blob_read_rest_def)
next
  case (Inr h)
  have valid: "slot_is_valid slot" by (rule load_header_sound(6) [OF Inr])
  show ?thesis
  proof (cases "reader_allowed owner gmask h \<and> hdr_group_mask h \<le> 0xFFFF")
    case True
    then have "blob_read_init_internal P slot owner gmask fl b = (Inr (unat (hdr_plaintext_len h)), opened P slot h b)"
      using Inr valid by (auto simp: blob_read_init_cases [OF P(1)])
    with True Inr show ?thesis
      using blob_read_rest_iff [OF P(2) _ Inr _ cap, of data n] b by (auto simp: blob_ok_def)
  next
    case False
    then have "\<exists>rc. rc \<noteq> SECURE_BLOB_STORE_OK \<and> blob_read_init_internal P slot owner gmask fl b = (Inl rc, b)"
      using Inr valid by (auto simp: blob_read_init_cases [OF P(1)] not_le)
    with False Inr show ?thesis by (auto simp: blob_read_rest_def blob_stored_def)
  qed
qed

lemma blob_read_all_iff:
  assumes "secrets_ok P" "gcm_ok P" "blob_ok b" "cap \<le> 8192"
  shows "(\<exists>b'. blob_read_all P slot owner gmask cap fl b = (SECURE_BLOB_STORE_OK, data, n, b')) \<longleftrightarrow>
    (\<exists>h. load_header slot fl b = Inr h \<and> reader_allowed (Some owner) gmask h \<and> blob_stored P fl slot h data \<and>
         length data \<le> cap \<and> n = length data)"
  using blob_read_iff [OF assms, of slot "Some owner" gmask fl data n]
  by (simp add: blob_read_all_def blob_read_init_def)

lemma blob_read_group_iff:
  assumes "secrets_ok P" "gcm_ok P" "blob_ok b" "cap \<le> 8192"
  shows "(\<exists>b'. blob_read_all_group_mask P slot gmask cap fl b = (SECURE_BLOB_STORE_OK, data, n, b')) \<longleftrightarrow>
    (\<exists>h. load_header slot fl b = Inr h \<and> reader_allowed None gmask h \<and> blob_stored P fl slot h data \<and>
         length data \<le> cap \<and> n = length data)"
  using blob_read_iff [OF assms, of slot None gmask fl data n]
  by (simp add: blob_read_all_group_mask_def)

text \<open>Reading changes only the streaming state.\<close>

lemma blob_read_loop_fat: "blob_read_loop P left out fl b = (rc, o1, b') \<Longrightarrow>
    g_fat b' = g_fat b \<and> blob_initialized b' = blob_initialized b"
proof (induction P left out fl b rule: blob_read_loop.induct)
  case (1 P left out fl b)
  show ?case
  proof (cases "left = 0")
    case True
    with "1.prems" show ?thesis by (simp add: blob_read_loop.simps)
  next
    case False
    with "1.prems" "1.IH" [OF False] show ?thesis
      by (subst (asm) blob_read_loop.simps) (auto simp: Let_def split: sum.splits)
  qed
qed

lemma blob_read_loop_ok: "blob_read_loop P left out fl b = (rc, o1, b') \<Longrightarrow> blob_ok b \<Longrightarrow> blob_ok b'"
proof (induction P left out fl b rule: blob_read_loop.induct)
  case (1 P left out fl b)
  have upd: "blob_ok (b\<lparr>g_read_state := (g_read_state b)\<lparr>rs_sha_ctx := sha256_raw_ctx_update (rs_sha_ctx (g_read_state b)) t\<rparr>\<rparr>)"
    "blob_ok (b\<lparr>g_read_state := (g_read_state b)\<lparr>rs_sha_ctx := sha256_raw_ctx_update (rs_sha_ctx (g_read_state b)) t,
       rs_processed := n\<rparr>\<rparr>)" for t n
    using "1.prems"(2) by (simp_all add: blob_ok_def sha_ready_update)
  show ?case
  proof (cases "left = 0")
    case True
    with "1.prems" show ?thesis by (simp add: blob_read_loop.simps)
  next
    case False
    with "1.prems"(1) "1.IH" [OF False] upd show ?thesis
      by (subst (asm) blob_read_loop.simps) (auto simp: Let_def split: sum.splits)
  qed
qed

lemma blob_read_rest_keeps:
  assumes r: "blob_read_rest P (x, b) cap fl = (rc, out, n, b')" and b: "blob_ok b"
  shows "blob_ok b' \<and> g_fat b' = g_fat b"
proof -
  have fin: "blob_ok (snd (blob_read_finish c)) \<and> g_fat (snd (blob_read_finish c)) = g_fat c" if "blob_ok c" for c
    using that by (auto simp: blob_read_finish_def Let_def split_def blob_ok_def split: option.splits)
  have chunk: "blob_ok c' \<and> g_fat c' = g_fat c"
    if "blob_read_chunk P k fl c = (rc1, o1, c')" "blob_ok c" for k rc1 o1 c c'
    using that blob_read_loop_ok blob_read_loop_fat by (auto simp: blob_read_chunk_def split: if_splits)
  show ?thesis
  proof (cases x)
    case (Inl e)
    with r b show ?thesis by (simp add: blob_read_rest_def)
  next
    case (Inr k)
    obtain rc1 o1 c where c: "(if 0 < k then blob_read_chunk P k fl b else (SECURE_BLOB_STORE_OK, [], b)) = (rc1, o1, c)"
      by (metis prod_cases3)
    then have "blob_ok c \<and> g_fat c = g_fat b" using chunk b by (auto split: if_splits)
    moreover obtain rc2 d where d: "blob_read_finish c = (rc2, d)" by fastforce
    moreover from r c d have "b' \<in> {b, c, d}"
      by (simp add: blob_read_rest_def Inr split: if_splits)
    ultimately show ?thesis using fin [of c] b by auto
  qed
qed

lemma blob_read_keeps:
  assumes "secrets_ok P" "blob_ok b"
  shows "blob_read_all P slot owner gmask cap fl b = (rc, out, n, b') \<Longrightarrow> blob_ok b' \<and> g_fat b' = g_fat b"
    and "blob_read_all_group_mask P slot gmask cap fl b = (rc, out, n, b') \<Longrightarrow> blob_ok b' \<and> g_fat b' = g_fat b"
proof -
  have start: "blob_ok c \<and> g_fat c = g_fat b" if "blob_read_init_internal P slot ow gmask fl b = (x, c)" for ow x c
    using that assms(2) by (auto simp: blob_read_init_cases [OF assms(1)] opened_def blob_ok_def split: if_splits sum.splits)
  have any: "blob_ok b' \<and> g_fat b' = g_fat b"
    if "blob_read_rest P (blob_read_init_internal P slot ow gmask fl b) cap fl = (rc, out, n, b')" for ow
    using that start [of ow] blob_read_rest_keeps by (cases "blob_read_init_internal P slot ow gmask fl b") fastforce
  show "blob_read_all P slot owner gmask cap fl b = (rc, out, n, b') \<Longrightarrow> blob_ok b' \<and> g_fat b' = g_fat b"
    "blob_read_all_group_mask P slot gmask cap fl b = (rc, out, n, b') \<Longrightarrow> blob_ok b' \<and> g_fat b' = g_fat b"
    using any by (auto simp: blob_read_all_def blob_read_init_def blob_read_all_group_mask_def)
qed

lemma blob_write_read_all:
  assumes P: "secrets_ok P" "gcm_ok P" and b: "blob_ok b" and s: "slot_is_valid s"
    and h: "blob_holds P fl b s uuid owner g data" and m: "gmask AND g \<noteq> 0" and cap: "length data \<le> cap" "cap \<le> 8192"
  shows "\<exists>b'. blob_read_all P s owner gmask cap fl b = (SECURE_BLOB_STORE_OK, data, length data, b')"
    and "\<exists>b'. blob_read_all_group_mask P s gmask cap fl b = (SECURE_BLOB_STORE_OK, data, length data, b')"
proof -
  from h obtain hd where hd: "blob_stored P fl s hd data" "hdr_owner_pin_hash hd = owner" "hdr_group_mask hd = g"
    and e: "g_fat b ! unat s = blob_entry s uuid (length data)" by (auto simp: blob_holds_def)
  have "load_header s fl b = Inr hd" by (rule load_header_stored [OF s e hd(1)])
  with hd m cap show "\<exists>b'. blob_read_all P s owner gmask cap fl b = (SECURE_BLOB_STORE_OK, data, length data, b')"
    and "\<exists>b'. blob_read_all_group_mask P s gmask cap fl b = (SECURE_BLOB_STORE_OK, data, length data, b')"
    using blob_read_all_iff [OF P b cap(2), of s owner gmask fl data "length data"]
      blob_read_group_iff [OF P b cap(2), of s gmask fl data "length data"]
    by (auto simp: reader_allowed_def)
qed

lemma blob_read_not_allowed:
  assumes "secrets_ok P" "slot_is_valid s" "blob_holds P fl b s uuid owner g data"
    and "reader \<noteq> owner \<or> gmask AND g = 0"
  shows "blob_read_all P s reader gmask cap fl b = (SECURE_BLOB_STORE_PERMISSION_DENIED, [], cap, b)"
proof -
  from assms(3) obtain hd where hd: "blob_stored P fl s hd data" "hdr_owner_pin_hash hd = owner" "hdr_group_mask hd = g"
    and e: "g_fat b ! unat s = blob_entry s uuid (length data)" by (auto simp: blob_holds_def)
  from load_header_stored [OF assms(2) e hd(1)] hd(2,3) assms(2,4) show ?thesis
    by (auto simp: blob_read_all_def blob_read_init_def blob_read_init_cases [OF assms(1)] blob_read_rest_def
        reader_allowed_def)
qed

section \<open>Deleting\<close>

lemma fat_erased_sel [simp]: "length (fat_uuid fat_erased) = 16" "fat_flash_addr fat_erased = SECURE_BLOB_EMPTY_U32"
  by (simp_all add: fat_erased_def un_fat_def segment_def SECURE_BLOB_EMPTY_U32_def un_le32_def)

lemma blob_delete_cases:
  assumes "blob_delete P slot fl b = (rc, fl', b')" "slot_is_valid slot" "\<not> slot_is_empty slot b"
  obtains "erase_slot_pages P slot fl = (rc, fl')" "rc \<noteq> SECURE_BLOB_STORE_OK" "b' = b"
    | fl1 where "erase_slot_pages P slot fl = (SECURE_BLOB_STORE_OK, fl1)"
        "commit_fat_entry P slot fat_erased fl1 b = (rc, fl', b')"
  using assms by (auto simp: blob_delete_def split: prod.splits if_splits)

lemma blob_delete_frame [frame]:
  assumes P: "flash_ok P" and b: "blob_ok b" and d: "blob_delete P slot fl b = (rc, fl', b')"
    and a: "\<not> in_slot slot a" "\<not> sector_of SECURE_BLOB_STORE_FAT_ADDR a"
  shows "flash_mem fl' a = flash_mem fl a"
proof (cases "slot_is_valid slot \<and> \<not> slot_is_empty slot b")
  case True
  from d conjunct1 [OF True] conjunct2 [OF True] show ?thesis
  proof (cases rule: blob_delete_cases)
    case 1
    then show ?thesis using erase_slot_frame [OF P _ a(1)] by blast
  next
    case (2 fl1)
    with erase_slot_frame [OF P 2(1) a(1)] commit_frame [OF P b _ _ 2(2) a(2)] True show ?thesis by simp
  qed
qed (use d in \<open>auto simp: blob_delete_def split: if_splits\<close>)

lemma blob_delete_ok:
  assumes P: "flash_ok P" and b: "blob_ok b" and d: "blob_delete P slot fl b = (SECURE_BLOB_STORE_OK, fl', b')"
  shows "b' = b\<lparr>g_fat := (g_fat b)[unat slot := fat_erased]\<rparr>" "slot_is_empty slot b'" "fat_pg.holds (g_fat b') fl'" "blob_ok b'"
    and "in_slot slot a \<Longrightarrow> flash_mem fl' a = 0xFF"
proof -
  from d have v: "slot_is_valid slot" "\<not> slot_is_empty slot b" by (auto simp: blob_delete_def split: if_splits)
  from d v obtain fl1 where e: "erase_slot_pages P slot fl = (SECURE_BLOB_STORE_OK, fl1)"
    and c: "commit_fat_entry P slot fat_erased fl1 b = (SECURE_BLOB_STORE_OK, fl', b')"
    by (auto elim: blob_delete_cases)
  note ok = commit_ok [OF P b fat_erased_sel(1) v(1) c]
  show "b' = b\<lparr>g_fat := (g_fat b)[unat slot := fat_erased]\<rparr>" "fat_pg.holds (g_fat b') fl'" "blob_ok b'" by (rule ok)+
  show "slot_is_empty slot b'" using ok(1) b v(1) by (simp add: slot_is_empty_def valid_slot blob_ok_def fat_ok_def)
  show "flash_mem fl' a = 0xFF" if "in_slot slot a"
    using erase_slot_blank [OF P e that] commit_frame [OF P b fat_erased_sel(1) v(1) c slot_not_fat [OF v(1) that]] by simp
qed

lemma blob_delete_fail:
  assumes "blob_ok b" "blob_delete P slot fl b = (rc, fl', b')" "rc \<noteq> SECURE_BLOB_STORE_OK"
  shows "b' = b"
  using assms
  by (auto simp: blob_delete_def commit_fat_entry_flush split: if_splits prod.splits)

lemma blob_delete_reliable:
  assumes "flash_reliable P" "blob_ok b" "slot_is_valid slot" "\<not> slot_is_empty slot b"
  shows "fst (blob_delete P slot fl b) = SECURE_BLOB_STORE_OK"
proof -
  have "fst (fat_flush P fat f) = 0" for fat f
    using erase_reliable [OF assms(1)] write_reliable [OF assms(1)] by (simp add: fat_flush_def split_def)
  moreover have "fst (erase_slot_pages P slot fl) = SECURE_BLOB_STORE_OK"
    unfolding erase_slot_pages_def by (rule erase_pages_reliable [OF assms(1)])
  ultimately show ?thesis
    using commit_fat_entry_flush [OF assms(2) fat_erased_sel(1) assms(3)] assms(3,4)
    by (simp add: blob_delete_def split_def)
qed

lemma blob_read_empty:
  assumes "secrets_ok P" "slot_is_valid slot" "slot_is_empty slot b"
  shows "blob_read_all P slot owner gmask cap fl b = (SECURE_BLOB_STORE_NOT_FOUND, [], cap, b)"
    and "blob_read_all_group_mask P slot gmask cap fl b = (SECURE_BLOB_STORE_NOT_FOUND, [], cap, b)"
  using assms by (simp_all add: blob_read_all_def blob_read_init_def blob_read_all_group_mask_def
      blob_read_init_cases blob_read_rest_def load_header_def)

section \<open>The interface: a store of slots\<close>

text \<open>
  What the command layer relies on: an operation on one slot keeps what every other slot
  holds, whether it succeeds or not, and a slot holds one value at most.
\<close>

locale slot_store =
  fixes good :: "'s \<Rightarrow> bool" and step :: "'k \<Rightarrow> 's \<Rightarrow> 's \<Rightarrow> bool" and keeps :: "'s \<Rightarrow> 'k \<Rightarrow> 'v \<Rightarrow> bool"
  assumes good_step: "good s \<Longrightarrow> step k s s' \<Longrightarrow> good s'"
    and keeps_step: "good s \<Longrightarrow> step k s s' \<Longrightarrow> k' \<noteq> k \<Longrightarrow> keeps s k' v \<Longrightarrow> keeps s' k' v"
    and keeps_unique: "good s \<Longrightarrow> keeps s k v \<Longrightarrow> keeps s k w \<Longrightarrow> v = w"
begin

inductive steps :: "'k list \<Rightarrow> 's \<Rightarrow> 's \<Rightarrow> bool" where
  steps_Nil: "steps [] s s"
| steps_Cons: "step k s s' \<Longrightarrow> steps ks s' s'' \<Longrightarrow> steps (k # ks) s s''"

lemma good_steps: "steps ks s s' \<Longrightarrow> good s \<Longrightarrow> good s'"
  by (induction rule: steps.induct) (auto intro: good_step)

text \<open>Any sequence of operations on other slots.\<close>

lemma keeps_steps: "steps ks s s' \<Longrightarrow> good s \<Longrightarrow> k \<notin> set ks \<Longrightarrow> keeps s k v \<Longrightarrow> keeps s' k v"
  by (induction rule: steps.induct) (auto intro: good_step keeps_step)

lemma keeps_steps_unique:
  "steps ks s s' \<Longrightarrow> good s \<Longrightarrow> k \<notin> set ks \<Longrightarrow> keeps s k v \<Longrightarrow> keeps s' k w \<Longrightarrow> w = v"
  using keeps_steps good_steps keeps_unique by blast

end

type_synonym store = "platform \<times> flash_dev \<times> blob_state"
type_synonym blob_value = "byte list \<times> byte list \<times> u32 \<times> byte list"

fun store_good :: "store \<Rightarrow> bool" where
  "store_good (P, fl, b) \<longleftrightarrow> secrets_ok P \<and> gcm_ok P \<and> flash_ok P \<and> blob_ok b"

fun store_keeps :: "store \<Rightarrow> byte \<Rightarrow> blob_value \<Rightarrow> bool" where
  "store_keeps (P, fl, b) slot (uuid, owner, g, data) \<longleftrightarrow> slot_is_valid slot \<and> blob_holds P fl b slot uuid owner g data"

inductive store_step :: "byte \<Rightarrow> store \<Rightarrow> store \<Rightarrow> bool" where
  store_write: "find_write_slot slot b = Inr s \<Longrightarrow> length uuid = 16 \<Longrightarrow> length owner = 32 \<Longrightarrow> length data \<le> 8192 \<Longrightarrow>
    blob_write P slot data uuid owner g fl tr b = Some (rc, fl', tr', b') \<Longrightarrow> store_step s (P, fl, b) (P, fl', b')"
| store_delete: "blob_delete P slot fl b = (rc, fl', b') \<Longrightarrow> store_step slot (P, fl, b) (P, fl', b')"

inductive_cases store_stepE: "store_step k (P, fl, b) s'"

text \<open>An operation on one slot, seen from another.\<close>

definition other_slots_kept :: "byte \<Rightarrow> flash_dev \<Rightarrow> blob_state \<Rightarrow> flash_dev \<Rightarrow> blob_state \<Rightarrow> bool" where
  "other_slots_kept s fl b fl' b' \<longleftrightarrow>
     (\<forall>a. \<not> in_slot s a \<and> \<not> sector_of SECURE_BLOB_STORE_FAT_ADDR a \<longrightarrow> flash_mem fl' a = flash_mem fl a) \<and>
     (\<forall>i. i \<noteq> unat s \<longrightarrow> g_fat b' ! i = g_fat b ! i)"

lemma blob_write_others:
  assumes P: "secrets_ok P" "gcm_ok P" "flash_ok P" "blob_ok b"
    and arg: "length uuid = 16" "length owner = 32" "length data \<le> 8192"
    and slot: "find_write_slot slot b = Inr s"
    and w: "blob_write P slot data uuid owner g fl tr b = Some (rc, fl', tr', b')"
  shows "other_slots_kept s fl b fl' b' \<and> blob_ok b'"
proof -
  have "g_fat b' ! i = g_fat b ! i" if "i \<noteq> unat s" for i
    using blob_write_fat_fail [OF P(1,4) arg(1,3) w] blob_write_stores(2) [OF P arg slot, of g fl tr fl' tr' b'] w that
    by (cases "rc = SECURE_BLOB_STORE_OK") auto
  moreover have "blob_ok b'"
    using blob_write_fat_fail [OF P(1,4) arg(1,3) w] blob_write_stores(4) [OF P arg slot, of g fl tr fl' tr' b'] w
    by (cases "rc = SECURE_BLOB_STORE_OK") auto
  ultimately show ?thesis
    using blob_write_frame [OF P arg slot w] by (simp add: other_slots_kept_def)
qed

lemma blob_delete_others:
  assumes "flash_ok P" "blob_ok b" "blob_delete P s fl b = (rc, fl', b')"
  shows "other_slots_kept s fl b fl' b' \<and> blob_ok b'"
proof (cases "rc = SECURE_BLOB_STORE_OK")
  case True
  with assms blob_delete_ok [OF assms(1,2), of s fl fl' b'] blob_delete_frame [OF assms]
  show ?thesis by (auto simp: other_slots_kept_def)
next
  case False
  with assms blob_delete_fail [OF assms(2,3)] blob_delete_frame [OF assms]
  show ?thesis by (auto simp: other_slots_kept_def)
qed

lemma blob_holds_others:
  assumes "blob_holds P fl b k uuid owner g data" "other_slots_kept s fl b fl' b'" "k \<noteq> s" "slot_is_valid k"
  shows "blob_holds P fl' b' k uuid owner g data"
proof -
  have mem: "flash_mem fl' a = flash_mem fl a" if "in_slot k a" for a
    using assms(2,3) that slots_disjoint [of k a s] slot_not_fat [OF assms(4) that] by (auto simp: other_slots_kept_def)
  have "unat k \<noteq> unat s" using assms(3) by (simp add: word_unat_eq_iff)
  with assms(2) have "g_fat b' ! unat k = g_fat b ! unat k" by (simp add: other_slots_kept_def)
  moreover have "blob_stored P fl' k h data" if "blob_stored P fl k h data" for h
    by (rule blob_stored_frame [OF that mem])
  ultimately show ?thesis using assms(1) by (auto simp: blob_holds_def)
qed

lemma blob_stored_unique:
  assumes P: "secrets_ok P" "gcm_ok P" and s: "slot_is_valid s"
    and st: "blob_stored P fl s h d" "blob_stored P fl s h' d'"
  shows "h = h' \<and> d = d'"
proof -
  from st have "header_bytes h = header_bytes h'" "header_ok h" "header_ok h'" by (auto simp: blob_stored_def)
  then have h: "h = h'" using hdrc.enc_inject by blast
  then have len: "length d' = length d" using st by (simp add: blob_stored_def)
  define b where "b = \<lparr>g_fat = (replicate 8 fat_erased)[unat s := blob_entry s (replicate 16 0) (length d)],
    blob_initialized = True, g_aad = [], g_read_state = \<lparr>rs_flash_addr = 0, rs_processed = 0, rs_total_len = 0,
    rs_nonce = [], rs_master_key = [], rs_expected_blob_tag = [], rs_sha_ctx = sha256_ctx_zero\<rparr>\<rparr>"
  have "fat_ok (replicate 8 fat_erased)" by (simp add: fat_ok_def)
  then have ok: "blob_ok b" by (simp add: b_def blob_ok_def fat_ok_update)
  have e: "g_fat b ! unat s = blob_entry s (replicate 16 0) (length d)" using s by (simp add: b_def valid_slot)
  have lh: "load_header s fl b = Inr h" by (rule load_header_stored [OF s e st(1)])
  have le: "length d \<le> 8192" and g: "\<not> 0xFFFF < hdr_group_mask h" using st by (auto simp: blob_stored_def)
  have read: "\<exists>b'. blob_read_rest P (Inr (unat (hdr_plaintext_len h)), opened P s h b) 8192 fl = (SECURE_BLOB_STORE_OK, x, length x, b')"
    if "blob_stored P fl s h x" for x
    using blob_read_rest_iff [OF P(2) _ lh, of 8192 x "length x"] that ok g by (auto simp: blob_ok_def blob_stored_def)
  from read [OF st(1)] read [of d'] st(2) h show ?thesis by auto
qed

interpretation slots: slot_store store_good store_step store_keeps
proof
  fix s k s' assume "store_good s" "store_step k s s'"
  then show "store_good s'"
    by (cases s) (auto elim!: store_stepE dest: blob_write_others blob_delete_others)
next
  fix s k s' k' v assume g: "store_good s" and st: "store_step k s s'" and ne: "k' \<noteq> k" and h: "store_keeps s k' v"
  obtain P fl b where s: "s = (P, fl, b)" by (cases s)
  obtain uuid owner gm data where v: "v = (uuid, owner, gm, data)" by (cases v)
  from st [unfolded s] g [unfolded s] obtain fl' b' where "s' = (P, fl', b')" "other_slots_kept k fl b fl' b'"
    by (cases rule: store_stepE) (auto dest: blob_write_others blob_delete_others)
  with h ne show "store_keeps s' k' v"
    by (auto simp: s v intro: blob_holds_others)
next
  fix s k v w assume g: "store_good s" and "store_keeps s k v" "store_keeps s k w"
  moreover obtain P fl b where s: "s = (P, fl, b)" by (cases s)
  moreover obtain uuid owner gm data where v: "v = (uuid, owner, gm, data)" by (cases v)
  moreover obtain uuid' owner' gm' data' where w: "w = (uuid', owner', gm', data')" by (cases w)
  ultimately obtain h h' where "slot_is_valid k" "blob_stored P fl k h data" "blob_stored P fl k h' data'"
    "hdr_owner_pin_hash h = owner" "hdr_owner_pin_hash h' = owner'" "hdr_group_mask h = gm" "hdr_group_mask h' = gm'"
    "blob_entry k uuid (length data) = blob_entry k uuid' (length data')"
    by (auto simp: blob_holds_def)
  moreover from this have "uuid = uuid'" by (metis blob_entry_sel(1))
  ultimately show "v = w" using blob_stored_unique [of P k fl h data h' data'] g by (auto simp: s v w)
qed

section \<open>Properties\<close>

definition ref_blob :: blob_state where
  "ref_blob = \<lparr>g_fat = replicate 8 fat_erased, blob_initialized = True, g_aad = [],
     g_read_state = \<lparr>rs_flash_addr = 0, rs_processed = 0, rs_total_len = 0, rs_nonce = [], rs_master_key = [],
       rs_expected_blob_tag = [], rs_sha_ctx = sha256_ctx_zero\<rparr>\<rparr>"

definition ref_trng :: trng_dev where
  "ref_trng = \<lparr>trng_polls = [TrngBusy, TrngReady 1, TrngFail, TrngReady 2, TrngReady 3], trng_power = [True, True],
     trng_powered = True, trng_configured = True\<rparr>"

lemma ref_blob_ok: "blob_ok ref_blob"
  by (simp add: blob_ok_def ref_blob_def fat_ok_def)

lemma ref_trng_words: "3 \<le> length (trng_words (trng_polls ref_trng))"
  by (simp add: ref_trng_def)

lemma ref_slot: "find_write_slot 2 ref_blob = Inr 2" "slot_is_valid 2"
  by (simp_all add: find_write_slot_def SECURE_BLOB_STORE_AUTO_SLOT_def valid_slot)

text \<open>A blob of three bytes in group 5, written to slot 2.\<close>

lemma ref_blob_write:
  obtains fl tr b where "blob_write ref_platform 2 [10, 20, 30] (replicate 16 1) (replicate 32 4) 5 ref_flash_dev ref_trng ref_blob
    = Some (SECURE_BLOB_STORE_OK, fl, tr, b)"
  by (rule blob_write_succeeds [OF ref_ok(1,2,4) ref_blob_ok _ _ _ _ ref_slot(1) ref_trng_words,
        where uuid = "replicate 16 1" and owner = "replicate 32 4" and data = "[10, 20, 30]" and gmask = 5 and fl = ref_flash_dev]) auto

text \<open>
  On flash that works, and with a generator that delivers a nonce, a blob of at most 8192
  bytes for a 16-bit group is written: the call returns and reports success.
\<close>

theorem blob_write_completes:
  assumes "secrets_ok P" "gcm_ok P" "flash_reliable P" "blob_ok b"
    and "length uuid = 16" "length owner = 32" "length data \<le> 8192" "g \<le> 0xFFFF"
    and "find_write_slot slot b = Inr s" "3 \<le> length (trng_words (trng_polls tr))"
  shows "\<exists>fl' tr' b'. blob_write P slot data uuid owner g fl tr b = Some (SECURE_BLOB_STORE_OK, fl', tr', b')"
  by (rule blob_write_succeeds [OF assms, where fl = fl]) blast

lemma blob_write_completes_witness:
  "\<exists>fl' tr' b'. blob_write ref_platform 2 [10, 20, 30] (replicate 16 1) (replicate 32 4) 5 ref_flash_dev ref_trng ref_blob
     = Some (SECURE_BLOB_STORE_OK, fl', tr', b')"
  by (rule blob_write_completes [OF ref_ok(1,2,4) ref_blob_ok _ _ _ _ ref_slot(1) ref_trng_words]) simp_all

text \<open>
  C10: A blob whose write reported success is read back byte for byte, by the owner's PIN hash
  and by the group's mask alike, for every length up to 8192 (the empty blob included).
\<close>

theorem blob_write_then_read:
  assumes "secrets_ok P" "gcm_ok P" "flash_ok P" "blob_ok b"
    and "length uuid = 16" "length owner = 32" "length data \<le> 8192"
    and "find_write_slot slot b = Inr s"
    and "blob_write P slot data uuid owner g fl tr b = Some (SECURE_BLOB_STORE_OK, fl', tr', b')"
    and "gmask AND g \<noteq> 0" "length data \<le> cap" "cap \<le> 8192"
  shows "(\<exists>b''. blob_read_all P s owner gmask cap fl' b' = (SECURE_BLOB_STORE_OK, data, length data, b'')) \<and>
    (\<exists>b''. blob_read_all_group_mask P s gmask cap fl' b' = (SECURE_BLOB_STORE_OK, data, length data, b''))"
  using blob_write_read_all [OF assms(1,2) _ find_write_slot_valid [OF assms(8)], of b' fl' uuid owner g data gmask cap]
    blob_write_stores(1,4) [OF assms(1-9)] assms(10-12) by blast

lemma blob_write_then_read_witness:
  "\<exists>fl tr b. blob_write ref_platform 2 [10, 20, 30] (replicate 16 1) (replicate 32 4) 5 ref_flash_dev ref_trng ref_blob
     = Some (SECURE_BLOB_STORE_OK, fl, tr, b) \<and>
   (\<exists>b'. blob_read_all ref_platform 2 (replicate 32 4) 0xFFFFFFFF 8192 fl b = (SECURE_BLOB_STORE_OK, [10, 20, 30], 3, b'))"
proof -
  obtain fl tr b where w: "blob_write ref_platform 2 [10, 20, 30] (replicate 16 1) (replicate 32 4) 5 ref_flash_dev ref_trng ref_blob
    = Some (SECURE_BLOB_STORE_OK, fl, tr, b)" by (rule ref_blob_write)
  from blob_write_then_read [OF ref_ok(1-3) ref_blob_ok _ _ _ ref_slot(1) w, where gmask = "0xFFFFFFFF" and cap = 8192] w show ?thesis by auto
qed

text \<open>
  C9: A read succeeds exactly when the slot holds, under the header's own group key, a header,
  ciphertext and tags that encryption of that very plaintext produced, the reader is allowed
  and the data fit. So no tampered header, chunk, tag or chunk order is ever returned as data,
  and no authentic blob is refused to its reader.
\<close>

theorem blob_read_authentic:
  assumes "secrets_ok P" "gcm_ok P" "blob_ok b" "cap \<le> 8192"
  shows "(\<exists>b'. blob_read_all P slot owner gmask cap fl b = (SECURE_BLOB_STORE_OK, data, n, b')) \<longleftrightarrow>
    (\<exists>h. load_header slot fl b = Inr h \<and> hdr_owner_pin_hash h = owner \<and> gmask AND hdr_group_mask h \<noteq> 0 \<and>
         blob_stored P fl slot h data \<and> length data \<le> cap \<and> n = length data)"
  using blob_read_all_iff [OF assms, of slot owner gmask fl data n] by (auto simp: reader_allowed_def)

lemma blob_read_authentic_witness:
  "\<not> (\<exists>n b'. blob_read_all ref_platform 2 (replicate 32 4) 5 8192 ref_flash_dev ref_blob
               = (SECURE_BLOB_STORE_OK, [10, 20, 30], n, b'))"
proof -
  have "load_header 2 ref_flash_dev ref_blob = Inl SECURE_BLOB_STORE_NOT_FOUND"
    using ref_slot(2) by (simp add: load_header_def slot_is_empty_def ref_blob_def)
  with blob_read_authentic [OF ref_ok(1,2) ref_blob_ok, of 8192 2 "replicate 32 4" 5 ref_flash_dev "[10, 20, 30]"]
  show ?thesis by auto
qed

text \<open>
  C27: A read with a PIN hash that is not the owner's, or with a mask that shares no bit with the
  blob's group, is denied before anything is decrypted: no byte is returned and nothing changes.
  In particular a blob of group 0 can be written but never read.
\<close>

theorem blob_read_denied:
  assumes "secrets_ok P" "slot_is_valid s" "blob_holds P fl b s uuid owner g data"
    and "reader \<noteq> owner \<or> gmask AND g = 0"
  shows "blob_read_all P s reader gmask cap fl b = (SECURE_BLOB_STORE_PERMISSION_DENIED, [], cap, b)"
  by (rule blob_read_not_allowed [OF assms])

lemma blob_read_denied_witness:
  "\<exists>fl tr b. blob_write ref_platform 2 [10, 20, 30] (replicate 16 1) (replicate 32 4) 5 ref_flash_dev ref_trng ref_blob
     = Some (SECURE_BLOB_STORE_OK, fl, tr, b) \<and>
   blob_read_all ref_platform 2 (replicate 32 9) 5 8192 fl b = (SECURE_BLOB_STORE_PERMISSION_DENIED, [], 8192, b)"
proof -
  obtain fl tr b where w: "blob_write ref_platform 2 [10, 20, 30] (replicate 16 1) (replicate 32 4) 5 ref_flash_dev ref_trng ref_blob
    = Some (SECURE_BLOB_STORE_OK, fl, tr, b)" by (rule ref_blob_write)
  from blob_write_stores(1) [OF ref_ok(1-3) ref_blob_ok _ _ _ ref_slot(1) w]
  have "blob_holds ref_platform fl b 2 (replicate 16 1) (replicate 32 4) 5 [10, 20, 30]" by simp
  moreover have "replicate 32 9 \<noteq> replicate 32 (4 :: byte)" by simp
  ultimately have "blob_read_all ref_platform 2 (replicate 32 9) 5 8192 fl b = (SECURE_BLOB_STORE_PERMISSION_DENIED, [], 8192, b)"
    by (intro blob_read_denied [OF ref_ok(1) ref_slot(2)] disjI1)
  with w show ?thesis by blast
qed

text \<open>
  C13: Whatever writes and deletions happen to other slots, in any number and order, whether they
  succeed or fail half way, a blob stays what it was.
\<close>

theorem blob_survives_other_slots:
  assumes "slots.steps ks (P, fl, b) (P', fl', b')" "store_good (P, fl, b)" "s \<notin> set ks"
    and "slot_is_valid s" "blob_holds P fl b s uuid owner g data"
  shows "blob_holds P' fl' b' s uuid owner g data"
  using slots.keeps_steps [OF assms(1-3), of "(uuid, owner, g, data)"] assms(4,5) by simp

lemma blob_survives_other_slots_witness:
  "\<exists>fl tr b fl' b'. blob_write ref_platform 2 [10, 20, 30] (replicate 16 1) (replicate 32 4) 5 ref_flash_dev ref_trng ref_blob
     = Some (SECURE_BLOB_STORE_OK, fl, tr, b) \<and> blob_delete ref_platform 3 fl b = (SECURE_BLOB_STORE_NOT_FOUND, fl', b') \<and>
     blob_holds ref_platform fl' b' 2 (replicate 16 1) (replicate 32 4) 5 [10, 20, 30]"
proof -
  obtain fl tr b where w: "blob_write ref_platform 2 [10, 20, 30] (replicate 16 1) (replicate 32 4) 5 ref_flash_dev ref_trng ref_blob
    = Some (SECURE_BLOB_STORE_OK, fl, tr, b)" by (rule ref_blob_write)
  note st = blob_write_stores [OF ref_ok(1-3) ref_blob_ok _ _ _ ref_slot(1) w, simplified]
  have e: "slot_is_empty 3 b"
    using st(2) by (simp add: slot_is_empty_def ref_blob_def)
  then have d: "blob_delete ref_platform 3 fl b = (SECURE_BLOB_STORE_NOT_FOUND, fl, b)"
    by (simp add: blob_delete_def valid_slot)
  have "slots.steps [3] (ref_platform, fl, b) (ref_platform, fl, b)"
    by (rule slots.steps_Cons [OF store_delete [OF d] slots.steps_Nil])
  moreover have "store_good (ref_platform, fl, b)" using ref_ok st(4) by simp
  ultimately have "blob_holds ref_platform fl b 2 (replicate 16 1) (replicate 32 4) 5 [10, 20, 30]"
    by (rule blob_survives_other_slots) (use st(1) ref_slot(2) in simp_all)
  with w d show ?thesis by blast
qed

text \<open>
  C26: Deleting leaves every byte of the slot erased and the slot empty, in RAM and in the table
  on flash; a later read, with any PIN hash and mask, finds nothing.
\<close>

theorem blob_delete_erases:
  assumes "secrets_ok P" "flash_ok P" "blob_ok b" "blob_delete P s fl b = (SECURE_BLOB_STORE_OK, fl', b')"
  shows "(\<forall>a. in_slot s a \<longrightarrow> flash_mem fl' a = 0xFF) \<and> read_fat fl' = g_fat b' \<and>
    fst (blob_read_all P s owner gmask cap fl' b') = SECURE_BLOB_STORE_NOT_FOUND"
proof -
  note d = blob_delete_ok [OF assms(2-4)]
  from assms(4) have "slot_is_valid s" by (auto simp: blob_delete_def split: if_splits)
  from blob_read_empty(1) [OF assms(1) this d(2)] d(5) fat_pg.holds_load [OF d(3)] show ?thesis by auto
qed

lemma blob_delete_erases_witness:
  "\<exists>fl tr b fl' b'. blob_write ref_platform 2 [10, 20, 30] (replicate 16 1) (replicate 32 4) 5 ref_flash_dev ref_trng ref_blob
     = Some (SECURE_BLOB_STORE_OK, fl, tr, b) \<and> blob_delete ref_platform 2 fl b = (SECURE_BLOB_STORE_OK, fl', b') \<and>
     fst (blob_read_all ref_platform 2 (replicate 32 4) 5 8192 fl' b') = SECURE_BLOB_STORE_NOT_FOUND"
proof -
  obtain fl tr b where w: "blob_write ref_platform 2 [10, 20, 30] (replicate 16 1) (replicate 32 4) 5 ref_flash_dev ref_trng ref_blob
    = Some (SECURE_BLOB_STORE_OK, fl, tr, b)" by (rule ref_blob_write)
  note st = blob_write_stores [OF ref_ok(1-3) ref_blob_ok _ _ _ ref_slot(1) w, simplified]
  have v: "slot_is_valid 2" "\<not> slot_is_empty 2 b"
    using st(2) slot_base_word [OF ref_slot(2)] ref_slot(2)
    by (simp_all add: slot_is_empty_def ref_blob_def blob_entry_def)
  obtain fl' b' where d: "blob_delete ref_platform 2 fl b = (SECURE_BLOB_STORE_OK, fl', b')"
    using blob_delete_reliable [OF ref_reliable st(4) v] by (metis prod.collapse)
  from blob_delete_erases [OF ref_ok(1,3) st(4) d] w d show ?thesis by blast
qed

end
