(* ===== verification/Names.thy ===== *)
theory Names
  imports BlobRead
begin

text \<open>
  The name and group table of \<^verbatim>\<open>firmware/src/commands.c\<close>: eight 64-byte entries in RAM,
  mirrored in the flash page at 0x3A400, which tell \<^verbatim>\<open>LIST\<close> and \<^verbatim>\<open>READ\<close> what each slot is
  called and which permission group it belongs to. An entry counts only if its tag is set.
  The page is a flash page in the sense of \<^verbatim>\<open>Flash\<close>.
\<close>

definition BLOB_NAME_TABLE_ADDR :: nat where "BLOB_NAME_TABLE_ADDR = 0x3A400"
definition NAME_ENTRY_SIZE :: nat where "NAME_ENTRY_SIZE = 64"
definition NAME_IN_USE_TAG :: byte where "NAME_IN_USE_TAG = 1"
definition MAX_NAME_SIZE :: nat where "MAX_NAME_SIZE = 32"

record name_entry =
  ne_name :: "byte list"
  ne_group_id :: u16
  ne_in_use :: byte
  ne_reserved :: "byte list"

definition name_bytes :: "name_entry \<Rightarrow> byte list" where
  "name_bytes e = ne_name e @ le16 (ne_group_id e) @ [ne_in_use e] @ ne_reserved e"

definition un_name :: "byte list \<Rightarrow> name_entry" where
  "un_name bs = \<lparr>ne_name = segment 0 32 bs, ne_group_id = un_le16 (segment 32 2 bs),
                ne_in_use = segment 34 1 bs ! 0, ne_reserved = segment 35 29 bs\<rparr>"

definition name_erased :: name_entry where
  "name_erased = un_name (replicate 64 0xFF)"

definition load_name_table :: "flash_dev \<Rightarrow> name_entry list" where
  "load_name_table fl =
     (let bs = flash_simple_read BLOB_NAME_TABLE_ADDR (NAME_ENTRY_SIZE * SECURE_BLOB_STORE_MAX_SLOTS) fl
      in map (\<lambda>i. un_name (segment (i * NAME_ENTRY_SIZE) NAME_ENTRY_SIZE bs)) [0..<SECURE_BLOB_STORE_MAX_SLOTS])"

definition name_page :: "name_entry list \<Rightarrow> byte list" where
  "name_page names = put (replicate 1024 0xFF) 0 (concat (map name_bytes names))"

definition flush_name_table :: "platform \<Rightarrow> name_entry list \<Rightarrow> flash_dev \<Rightarrow> int \<times> flash_dev" where
  "flush_name_table P names fl =
     (let page = name_page names;
          (rc, fl) = flash_simple_erase_page P BLOB_NAME_TABLE_ADDR fl
      in if rc \<noteq> 0 then (- 1, fl)
         else let (rc, fl) = flash_simple_write P BLOB_NAME_TABLE_ADDR page fl
              in if rc \<noteq> 0 then (- 1, fl) else (0, fl))"

text \<open>\<^verbatim>\<open>memcpy\<close> of 32 bytes, then the last one cleared.\<close>

definition new_name_entry :: "byte list \<Rightarrow> u16 \<Rightarrow> name_entry" where
  "new_name_entry name group_id =
     \<lparr>ne_name = take 31 name @ [0], ne_group_id = group_id, ne_in_use = NAME_IN_USE_TAG,
      ne_reserved = replicate 29 0xFF\<rparr>"

definition save_name_entry ::
    "platform \<Rightarrow> byte \<Rightarrow> byte list \<Rightarrow> u16 \<Rightarrow> flash_dev \<Rightarrow> name_entry list \<Rightarrow> int \<times> flash_dev \<times> name_entry list" where
  "save_name_entry P slot name group_id fl names =
     (if SECURE_BLOB_STORE_MAX_SLOTS \<le> unat slot then (- 1, fl, names)
      else let names = names[unat slot := new_name_entry name group_id];
               (rc, fl) = flush_name_table P names fl
           in (rc, fl, names))"

definition clear_name_entry ::
    "platform \<Rightarrow> byte \<Rightarrow> flash_dev \<Rightarrow> name_entry list \<Rightarrow> int \<times> flash_dev \<times> name_entry list" where
  "clear_name_entry P slot fl names =
     (if SECURE_BLOB_STORE_MAX_SLOTS \<le> unat slot then (- 1, fl, names)
      else let names = names[unat slot := name_erased];
               (rc, fl) = flush_name_table P names fl
           in (rc, fl, names))"

definition slot_occupied :: "byte \<Rightarrow> name_entry list \<Rightarrow> blob_state \<Rightarrow> bool" where
  "slot_occupied slot names b =
     (if SECURE_BLOB_STORE_MAX_SLOTS \<le> unat slot then False
      else if ne_in_use (names ! unat slot) \<noteq> NAME_IN_USE_TAG then False
      else fat_flash_addr (g_fat b ! unat slot) \<noteq> SECURE_BLOB_EMPTY_U32)"

section \<open>Entries and the page\<close>

definition name_ok :: "name_entry \<Rightarrow> bool" where
  "name_ok e \<longleftrightarrow> length (ne_name e) = 32 \<and> length (ne_reserved e) = 29"

definition names_ok :: "name_entry list \<Rightarrow> bool" where
  "names_ok names \<longleftrightarrow> length names = 8 \<and> (\<forall>e \<in> set names. name_ok e)"

lemma length_name_bytes [sizes]: "name_ok e \<Longrightarrow> length (name_bytes e) = 64"
  by (simp add: name_bytes_def name_ok_def)

lemma segment_1: "off < length bs \<Longrightarrow> [bs ! off] = segment off 1 bs"
  by (simp add: segment_def take_Suc_conv_app_nth hd_drop_conv_nth take_Suc)

lemma name_bytes_un: "length bs = 64 \<Longrightarrow> name_bytes (un_name bs) = bs"
proof -
  assume len: "length bs = 64"
  then have "[segment 34 1 bs ! 0] = segment 34 1 bs" by (simp add: segment_1 segment_nth)
  then have "name_bytes (un_name bs) = segment 0 32 bs @ segment 32 2 bs @ segment 34 1 bs @ segment 35 29 bs"
    using len by (simp add: name_bytes_def un_name_def le16_un_le16)
  with len show ?thesis by (simp add: segment_join)
qed

interpretation namec: exact_codec name_bytes un_name 64 name_ok
proof
  show "un_name (name_bytes x @ rest) = x" if "name_ok x" for x rest
    using that by (simp add: name_bytes_def un_name_def name_ok_def segment_def)
qed (simp_all add: length_name_bytes name_bytes_un, simp add: name_ok_def un_name_def)

lemma name_erased_sel [simp]: "name_ok name_erased" "ne_in_use name_erased = 0xFF"
  by (simp_all add: name_erased_def un_name_def name_ok_def segment_def)

lemma new_name_ok: "length name = 32 \<Longrightarrow> name_ok (new_name_entry name g)"
  by (simp add: name_ok_def new_name_entry_def)

lemma names_ok_update: "names_ok names \<Longrightarrow> name_ok e \<Longrightarrow> names_ok (names[i := e])"
  by (auto simp: names_ok_def dest: set_update_subset_insert [THEN subsetD])

lemma name_page_eq: "names_ok names \<Longrightarrow> name_page names = concat (map name_bytes names) @ replicate 512 0xFF"
  by (simp add: name_page_def put_def names_ok_def namec.length_enc_all)

lemma length_name_page [sizes]: "names_ok names \<Longrightarrow> length (name_page names) = 1024"
  by (simp add: name_page_eq names_ok_def namec.length_enc_all)

lemma name_addr [simp]: "BLOB_NAME_TABLE_ADDR mod 1024 = 0" "BLOB_NAME_TABLE_ADDR div 1024 = 233"
  by (simp_all add: BLOB_NAME_TABLE_ADDR_def)

lemma flush_name_cases:
  assumes "flush_name_table P names fl = (rc, fl')"
  obtains "rc = - 1" "flash_simple_erase_page P BLOB_NAME_TABLE_ADDR fl = (- 1, fl')"
    | fl1 rc1 where "flash_simple_erase_page P BLOB_NAME_TABLE_ADDR fl = (0, fl1)"
        "flash_simple_write P BLOB_NAME_TABLE_ADDR (name_page names) fl1 = (rc1, fl')" "rc = rc1"
  using assms erase_rc [of P BLOB_NAME_TABLE_ADDR fl] write_rc [of P BLOB_NAME_TABLE_ADDR "name_page names"]
  by (auto simp: flush_name_table_def Let_def split: prod.splits if_splits) (metis fst_conv insertE singletonD)+

interpretation name_pg: flash_page flush_name_table load_name_table BLOB_NAME_TABLE_ADDR name_page names_ok
proof
  fix P names fl rc fl' a
  assume P: "flash_ok P" and n: "names_ok names" and f: "flush_name_table P names fl = (rc, fl')"
    and a: "\<not> sector_of BLOB_NAME_TABLE_ADDR a"
  from f show "flash_mem fl' a = flash_mem fl a"
  proof (cases rule: flush_name_cases)
    case 1
    then show ?thesis using erase_frame [OF P _ a] by blast
  next
    case (2 fl1 rc1)
    then show ?thesis
      using erase_frame [OF P 2(1) a] write_sector_frame [OF P name_addr(1) _ 2(2) a] length_name_page [OF n] by simp
  qed
next
  fix P names fl fl'
  assume P: "flash_ok P" and n: "names_ok names" and f: "flush_name_table P names fl = (0, fl')"
  from f show "flash_simple_read BLOB_NAME_TABLE_ADDR (length (name_page names)) fl' = name_page names"
  proof (cases rule: flush_name_cases)
    case (2 fl1 rc1)
    then show ?thesis
      using rewrite_sector [OF P name_addr(1) _ 2(1), of "name_page names" fl'] length_name_page [OF n] by simp
  qed simp
next
  fix names fl
  assume n: "names_ok names" and r: "flash_simple_read BLOB_NAME_TABLE_ADDR (length (name_page names)) fl = name_page names"
  have "flash_simple_read BLOB_NAME_TABLE_ADDR 512 fl = segment 0 512 (name_page names)"
    using read_segment [of 0 512 1024 BLOB_NAME_TABLE_ADDR fl] r length_name_page [OF n] by simp
  also have "\<dots> = concat (map name_bytes names)"
    using n by (simp add: name_page_eq names_ok_def namec.length_enc_all)
  finally show "load_name_table fl = names"
    using n namec.dec_all [of names 8 "[]"]
    by (simp add: load_name_table_def names_ok_def SECURE_BLOB_STORE_MAX_SLOTS_def NAME_ENTRY_SIZE_def)
qed (simp_all add: length_name_page)

section \<open>Table updates\<close>

lemma save_name_cases:
  "slot_is_valid slot \<Longrightarrow> save_name_entry P slot name g fl names =
    (case flush_name_table P (names[unat slot := new_name_entry name g]) fl of
       (rc, fl') \<Rightarrow> (rc, fl', names[unat slot := new_name_entry name g]))"
  by (simp add: save_name_entry_def valid_slot SECURE_BLOB_STORE_MAX_SLOTS_def Let_def)

lemma clear_name_cases:
  "slot_is_valid slot \<Longrightarrow> clear_name_entry P slot fl names =
    (case flush_name_table P (names[unat slot := name_erased]) fl of
       (rc, fl') \<Rightarrow> (rc, fl', names[unat slot := name_erased]))"
  by (simp add: clear_name_entry_def valid_slot SECURE_BLOB_STORE_MAX_SLOTS_def Let_def)

lemma save_name_invalid: "\<not> slot_is_valid slot \<Longrightarrow> save_name_entry P slot name g fl names = (- 1, fl, names)"
  by (simp add: save_name_entry_def valid_slot SECURE_BLOB_STORE_MAX_SLOTS_def)

lemma slot_occupied_iff:
  "slot_occupied slot names b \<longleftrightarrow>
   slot_is_valid slot \<and> ne_in_use (names ! unat slot) = NAME_IN_USE_TAG \<and> \<not> slot_is_empty slot b"
  by (auto simp: slot_occupied_def slot_is_empty_def valid_slot SECURE_BLOB_STORE_MAX_SLOTS_def)

end
