(* ===== verification/Commands.thy ===== *)
theory Commands
  imports Names Messaging
begin

text \<open>
  The host command handlers of \<^verbatim>\<open>firmware/src/commands.c\<close>: list, read, write, and the bring-up
  commands delete, change PIN, boot flag, digest and echo. The device state \<open>hsm\<close> collects
  the state of the components below; each handler takes the received packet (its length is
  \<^verbatim>\<open>pkt_len\<close>) and gives its C return value with the new state. The handlers are modelled whole,
  every early return with its message included; \<^verbatim>\<open>print_debug\<close> is a no-op in release builds.
  A handler that waits on the host for ever is \<open>None\<close>.
\<close>

record hsm =
  h_flash :: flash_dev
  h_trng :: trng_dev
  h_uart :: uart_dev
  h_replay :: replay_cache
  h_pin :: pin_state
  h_blob :: blob_state
  h_names :: "name_entry list"

definition MAX_FILE_COUNT :: nat where "MAX_FILE_COUNT = 8"
definition MAX_CONTENTS_SIZE :: nat where "MAX_CONTENTS_SIZE = 8192"
definition UUID_SIZE :: nat where "UUID_SIZE = 16"
definition WRITE_COMMAND_SIZE :: nat where "WRITE_COMMAND_SIZE = 8251"
definition WRITE_CMD_MIN_LEN :: nat where "WRITE_CMD_MIN_LEN = WRITE_COMMAND_SIZE - MAX_CONTENTS_SIZE"

section \<open>Messages\<close>

text \<open>\<^verbatim>\<open>write_packet\<close> and \<^verbatim>\<open>print_error\<close> on the device's UARTs.\<close>

definition send :: "int \<Rightarrow> byte \<Rightarrow> byte list \<Rightarrow> hsm \<Rightarrow> (msg_status \<times> hsm) option" where
  "send uart_id type buf h =
     (do { (rc, u) \<leftarrow> write_packet uart_id type buf (h_uart h); Some (rc, h\<lparr>h_uart := u\<rparr>) })"

definition print_error :: "byte list \<Rightarrow> hsm \<Rightarrow> hsm option" where
  "print_error msg h = (do { (_, h) \<leftarrow> send CONTROL_INTERFACE ERROR_MSG msg h; Some h })"

text \<open>\<^verbatim>\<open>print_error(msg); return -1;\<close>\<close>

definition fail :: "string \<Rightarrow> hsm \<Rightarrow> (int \<times> hsm) option" where
  "fail msg h = (do { h \<leftarrow> print_error (cstr msg @ [10]) h; Some (- 1, h) })"

text \<open>\<^verbatim>\<open>write_packet(CONTROL_INTERFACE, type, NULL, 0); return 0;\<close>\<close>

definition done_reply :: "byte \<Rightarrow> byte list \<Rightarrow> hsm \<Rightarrow> (int \<times> hsm) option" where
  "done_reply type buf h = (do { (_, h) \<leftarrow> send CONTROL_INTERFACE type buf h; Some (0, h) })"

text \<open>\<^verbatim>\<open>return write_packet(...)\<close>: the status as the C value of \<^verbatim>\<open>msg_status_t\<close>.\<close>

fun msg_status_int :: "msg_status \<Rightarrow> int" where
  "msg_status_int MSG_OK = 0"
| "msg_status_int MSG_BAD_PTR = 1"
| "msg_status_int MSG_TIMEOUT = - 2"
| "msg_status_int MSG_NO_ACK = 2"
| "msg_status_int MSG_BAD_LEN = 3"

definition return_reply :: "byte \<Rightarrow> byte list \<Rightarrow> hsm \<Rightarrow> (int \<times> hsm) option" where
  "return_reply type buf h =
     (do { (rc, h) \<leftarrow> send CONTROL_INTERFACE type buf h; Some (msg_status_int rc, h) })"

section \<open>Component calls on the device\<close>

definition do_check_pin :: "platform \<Rightarrow> byte list \<Rightarrow> hsm \<Rightarrow> bool \<times> hsm" where
  "do_check_pin P pin h =
     (let (ok, fl, s) = check_pin P pin (h_flash h) (h_pin h) in (ok, h\<lparr>h_flash := fl, h_pin := s\<rparr>))"

definition do_save_name :: "platform \<Rightarrow> byte \<Rightarrow> byte list \<Rightarrow> u16 \<Rightarrow> hsm \<Rightarrow> int \<times> hsm" where
  "do_save_name P slot name g h =
     (let (rc, fl, names) = save_name_entry P slot name g (h_flash h) (h_names h)
      in (rc, h\<lparr>h_flash := fl, h_names := names\<rparr>))"

definition do_clear_name :: "platform \<Rightarrow> byte \<Rightarrow> hsm \<Rightarrow> int \<times> hsm" where
  "do_clear_name P slot h =
     (let (rc, fl, names) = clear_name_entry P slot (h_flash h) (h_names h)
      in (rc, h\<lparr>h_flash := fl, h_names := names\<rparr>))"

definition do_blob_write ::
    "platform \<Rightarrow> byte \<Rightarrow> byte list \<Rightarrow> byte list \<Rightarrow> byte list \<Rightarrow> u32 \<Rightarrow> hsm \<Rightarrow> (blob_status \<times> hsm) option" where
  "do_blob_write P slot data uuid owner g h =
     (do { (rc, fl, tr, b) \<leftarrow> blob_write P slot data uuid owner g (h_flash h) (h_trng h) (h_blob h);
           Some (rc, h\<lparr>h_flash := fl, h_trng := tr, h_blob := b\<rparr>) })"

definition occupied :: "byte \<Rightarrow> hsm \<Rightarrow> bool" where
  "occupied slot h = slot_occupied slot (h_names h) (h_blob h)"

definition name_of :: "byte \<Rightarrow> hsm \<Rightarrow> name_entry" where
  "name_of slot h = h_names h ! unat slot"

definition init_commands :: "hsm \<Rightarrow> int \<times> hsm" where
  "init_commands h =
     (let (rc, b) = blob_store_init (h_flash h) (h_blob h); h = h\<lparr>h_blob := b\<rparr>
      in if rc \<noteq> SECURE_BLOB_STORE_OK then (- 1, h)
         else (0, h\<lparr>h_names := load_name_table (h_flash h)\<rparr>))"

definition pin_gate :: "platform \<Rightarrow> byte list \<Rightarrow> hsm \<Rightarrow> (int \<times> hsm) option" where
  "pin_gate P pin h =
     (if pin_is_locked (h_pin h) then fail ''HSM locked'' h
      else let (ok, h) = do_check_pin P pin h
           in if \<not> ok then (if pin_is_locked (h_pin h) then fail ''HSM locked'' h else fail ''Invalid pin'' h)
              else Some (0, h))"

section \<open>Storing\<close>

text \<open>
  The common end of \<^verbatim>\<open>write\<close>'s two branches and of \<^verbatim>\<open>store_received_blob\<close>: hash the PIN, save
  the name, write the blob, undo the name if that fails.
\<close>

definition store_blob ::
    "platform \<Rightarrow> byte \<Rightarrow> byte list \<Rightarrow> byte list \<Rightarrow> u16 \<Rightarrow> byte list \<Rightarrow> byte list \<Rightarrow> hsm \<Rightarrow> (int \<times> hsm) option" where
  "store_blob P slot pin name g uuid contents h =
     (case get_pin_hash P (take PIN_LENGTH pin) of
        None \<Rightarrow> fail ''Crypto error'' h
      | Some owner \<Rightarrow>
          let (rc, h) = do_save_name P slot name g h
          in if rc \<noteq> 0 then fail ''Name store failed'' h
             else do { (rc, h) \<leftarrow> do_blob_write P slot contents uuid owner (ucast g) h;
                       if rc \<noteq> SECURE_BLOB_STORE_OK
                       then let (_, h) = do_clear_name P slot h in fail ''Store failed'' h
                       else Some (0, h) })"

record write_command =
  wc_pin :: "byte list"
  wc_slot :: byte
  wc_group_id :: u16
  wc_name :: "byte list"
  wc_uuid :: "byte list"
  wc_contents_len :: u16
  wc_contents :: "byte list"

definition un_write_command :: "byte list \<Rightarrow> write_command" where
  "un_write_command bs =
     \<lparr>wc_pin = segment 0 6 bs, wc_slot = bs ! 6, wc_group_id = un_le16 (segment 7 2 bs),
      wc_name = segment 9 32 bs, wc_uuid = segment 41 16 bs,
      wc_contents_len = un_le16 (segment 57 2 bs), wc_contents = drop 59 bs\<rparr>"

definition write_cmd :: "platform \<Rightarrow> byte list \<Rightarrow> hsm \<Rightarrow> (int \<times> hsm) option" where
  "write_cmd P pkt h =
     (if length pkt < WRITE_CMD_MIN_LEN then fail ''Packet too short'' h
      else let cmd = un_write_command pkt in
        do { (rc, h) \<leftarrow> pin_gate P (wc_pin cmd) h;
             if rc \<noteq> 0 then Some (- 1, h)
             else if \<not> validate_permission P (wc_group_id cmd) PERM_WRITE then fail ''Invalid permission'' h
             else if length pkt - WRITE_CMD_MIN_LEN < unat (wc_contents_len cmd)
             then fail ''Packet too short for contents'' h
             else do { (rc, h) \<leftarrow> store_blob P (wc_slot cmd) (wc_pin cmd) (wc_name cmd) (wc_group_id cmd)
                                   (wc_uuid cmd) (take (unat (wc_contents_len cmd)) (wc_contents cmd)) h;
                       if rc \<noteq> 0 then Some (rc, h) else done_reply WRITE_MSG [] h } })"

section \<open>Reading\<close>

definition READ_COMMAND_SIZE :: nat where "READ_COMMAND_SIZE = 7"

definition read_cmd :: "platform \<Rightarrow> byte list \<Rightarrow> hsm \<Rightarrow> (int \<times> hsm) option" where
  "read_cmd P pkt h =
     (if length pkt < READ_COMMAND_SIZE then fail ''Packet too short'' h
      else let pin = segment 0 6 pkt; slot = pkt ! 6 in
        do { (rc, h) \<leftarrow> pin_gate P pin h;
             if rc \<noteq> 0 then Some (- 1, h)
             else if \<not> occupied slot h then fail ''File not found'' h
             else if \<not> validate_permission P (ne_group_id (name_of slot h)) PERM_READ
             then fail ''Invalid permission'' h
             else case get_pin_hash P pin of
               None \<Rightarrow> fail ''Crypto error'' h
             | Some owner \<Rightarrow>
                 let (rc, out, out_len, b) = blob_read_all P slot owner 0xFFFFFFFF MAX_CONTENTS_SIZE (h_flash h) (h_blob h);
                     h = h\<lparr>h_blob := b\<rparr>
                 in if rc \<noteq> SECURE_BLOB_STORE_OK then fail ''Read failed'' h
                    else return_reply READ_MSG (ne_name (name_of slot h) @ take out_len out) h })"

section \<open>Listing\<close>

definition LIST_COMMAND_SIZE :: nat where "LIST_COMMAND_SIZE = 6"

text \<open>The entries of \<^verbatim>\<open>file_metadata_t\<close>: slot, group, name.\<close>

definition metadata_bytes :: "byte \<Rightarrow> name_entry \<Rightarrow> byte list" where
  "metadata_bytes slot e = [slot] @ le16 (ne_group_id e) @ ne_name e"

definition slot_list :: "byte list" where
  "slot_list = map of_nat [0..<SECURE_BLOB_STORE_MAX_SLOTS]"

definition generate_list_files :: "hsm \<Rightarrow> byte list list" where
  "generate_list_files h =
     take MAX_FILE_COUNT (map (\<lambda>slot. metadata_bytes slot (name_of slot h)) (filter (\<lambda>slot. occupied slot h) slot_list))"

text \<open>The \<^verbatim>\<open>LIST_PKT_LEN(n)\<close> bytes of a \<^verbatim>\<open>list_response_t\<close>.\<close>

definition list_response :: "byte list list \<Rightarrow> byte list" where
  "list_response files = le32 (of_nat (length files)) @ concat files"

definition list_cmd :: "platform \<Rightarrow> byte list \<Rightarrow> hsm \<Rightarrow> (int \<times> hsm) option" where
  "list_cmd P pkt h =
     (if length pkt < LIST_COMMAND_SIZE then fail ''Packet too short'' h
      else do { (rc, h) \<leftarrow> pin_gate P (segment 0 6 pkt) h;
                if rc \<noteq> 0 then Some (- 1, h)
                else done_reply LIST_MSG (list_response (generate_list_files h)) h })"

section \<open>Bring-up commands\<close>

definition DELETE_COMMAND_SIZE :: nat where "DELETE_COMMAND_SIZE = 7"
definition CHANGE_PIN_COMMAND_SIZE :: nat where "CHANGE_PIN_COMMAND_SIZE = 12"

definition delete_file :: "platform \<Rightarrow> byte list \<Rightarrow> hsm \<Rightarrow> (int \<times> hsm) option" where
  "delete_file P pkt h =
     (if length pkt < DELETE_COMMAND_SIZE then fail ''Packet too short'' h
      else let slot = pkt ! 6 in
        do { (rc, h) \<leftarrow> pin_gate P (segment 0 6 pkt) h;
             if rc \<noteq> 0 then Some (- 1, h)
             else if \<not> occupied slot h then fail ''File not found'' h
             else let (rc, fl, b) = blob_delete P slot (h_flash h) (h_blob h);
                      h = h\<lparr>h_flash := fl, h_blob := b\<rparr>
                  in if rc \<noteq> SECURE_BLOB_STORE_OK then fail ''Delete failed'' h
                     else let (rc, h) = do_clear_name P slot h
                          in if rc \<noteq> 0 then fail ''Name clear failed'' h
                             else done_reply DELETE_FILE_MSG [] h })"

definition change_pin :: "platform \<Rightarrow> byte list \<Rightarrow> hsm \<Rightarrow> (int \<times> hsm) option" where
  "change_pin P pkt h =
     (if length pkt < CHANGE_PIN_COMMAND_SIZE then fail ''Packet too short'' h
      else if pin_is_locked (h_pin h) then fail ''HSM locked'' h
      else let (rc, fl, s) = pin_change P (segment 0 6 pkt) (segment 6 6 pkt) (h_flash h) (h_pin h);
               h = h\<lparr>h_flash := fl, h_pin := s\<rparr>
           in if rc \<noteq> 0
              then (if pin_is_locked (h_pin h) then fail ''HSM locked'' h else fail ''Invalid pin'' h)
              else done_reply CHANGE_PIN_MSG [] h)"

definition BOOT_LABEL :: "byte list" where "BOOT_LABEL = cstr ''ectf_boot_flag_v1''"

definition boot_flag :: "platform \<Rightarrow> byte list \<Rightarrow> hsm \<Rightarrow> (int \<times> hsm) option" where
  "boot_flag P pkt h =
     (case security_get_root_secret P of
        None \<Rightarrow> fail ''Crypto error'' h
      | Some root \<Rightarrow>
          (case secure_crypto_hmac_sha256 (k_master root) BOOT_LABEL 32 of
             None \<Rightarrow> fail ''Crypto error'' h
           | Some flag \<Rightarrow> done_reply BOOT_FLAG_MSG flag h))"

definition digest :: "platform \<Rightarrow> byte list \<Rightarrow> hsm \<Rightarrow> (int \<times> hsm) option" where
  "digest P pkt h =
     (let slot = (case pkt of [] \<Rightarrow> 0 | b # _ \<Rightarrow> b) in
      if SECURE_BLOB_STORE_MAX_SLOTS \<le> unat slot \<or> \<not> occupied slot h then fail ''File not found'' h
      else case security_get_root_secret P of
        None \<Rightarrow> fail ''Crypto error'' h
      | Some root \<Rightarrow>
          (case secure_crypto_hmac_sha256 (k_master root) BOOT_LABEL 32 of
             None \<Rightarrow> fail ''Crypto error'' h
           | Some full_hmac \<Rightarrow>
               let (rc, out, plaintext_len, b) =
                     blob_read_all_group_mask P slot (ucast (ne_group_id (name_of slot h))) MAX_CONTENTS_SIZE
                       (h_flash h) (h_blob h);
                   h = h\<lparr>h_blob := b\<rparr>
               in if rc \<noteq> SECURE_BLOB_STORE_OK then fail ''Read failed'' h
                  else case secure_crypto_sha256 (take plaintext_len out) 32 of
                    None \<Rightarrow> fail ''Crypto error'' h
                  | Some file_digest \<Rightarrow>
                      return_reply DIGEST_MSG (take 16 full_hmac @ take 16 file_digest) h))"

definition echo :: "byte list \<Rightarrow> hsm \<Rightarrow> (int \<times> hsm) option" where
  "echo pkt h = done_reply ECHO_MSG pkt h"

section \<open>The device between commands\<close>

definition hsm_ok :: "hsm \<Rightarrow> bool" where
  "hsm_ok h \<longleftrightarrow> pin_ok (h_pin h) \<and> blob_ok (h_blob h) \<and> names_ok (h_names h) \<and> replay_inv (h_replay h)"

text \<open>What a slot holds, as the commands see it: its name entry, and its blob.\<close>

definition holds_file ::
    "platform \<Rightarrow> hsm \<Rightarrow> byte \<Rightarrow> name_entry \<Rightarrow> byte list \<Rightarrow> byte list \<Rightarrow> byte list \<Rightarrow> bool" where
  "holds_file P h slot e uuid owner data \<longleftrightarrow>
     slot_is_valid slot \<and> name_of slot h = e \<and> ne_in_use e = NAME_IN_USE_TAG \<and>
     blob_holds P (h_flash h) (h_blob h) slot uuid owner (ucast (ne_group_id e)) data"

text \<open>The flash of the store: everything but the PIN page.\<close>

definition same_flash :: "hsm \<Rightarrow> hsm \<Rightarrow> bool" where
  "same_flash h h' \<longleftrightarrow> (\<forall>a. \<not> sector_of PIN_STATE_FLASH_ADDR a \<longrightarrow> flash_mem (h_flash h') a = flash_mem (h_flash h) a)"

definition same_store :: "hsm \<Rightarrow> hsm \<Rightarrow> bool" where
  "same_store h h' \<longleftrightarrow> same_flash h h' \<and> h_names h' = h_names h \<and> g_fat (h_blob h') = g_fat (h_blob h)"

lemma same_store_refl [simp]: "same_store h h"
  by (simp add: same_store_def same_flash_def)

lemma same_store_trans [trans]: "same_store h i \<Longrightarrow> same_store i j \<Longrightarrow> same_store h j"
  by (simp add: same_store_def same_flash_def)

lemma same_store_holds:
  assumes "same_store h h'" "holds_file P h slot e uuid owner data"
  shows "holds_file P h' slot e uuid owner data"
proof -
  have v: "slot_is_valid slot" using assms(2) by (simp add: holds_file_def)
  have "blob_stored P (h_flash h') slot hd data" if "blob_stored P (h_flash h) slot hd data" for hd
    by (rule blob_stored_frame [OF that]) (use assms(1) slot_not_pin [OF v] in \<open>auto simp: same_store_def same_flash_def\<close>)
  with assms show ?thesis by (auto simp: holds_file_def same_store_def blob_holds_def name_of_def)
qed

lemma same_store_occupied: "same_store h h' \<Longrightarrow> occupied slot h' = occupied slot h"
  by (simp add: same_store_def occupied_def slot_occupied_def)

lemma same_store_name: "same_store h h' \<Longrightarrow> name_of slot h' = name_of slot h"
  by (simp add: same_store_def name_of_def)

section \<open>Messages\<close>

definition say :: "string \<Rightarrow> hsm \<Rightarrow> hsm" where
  "say msg h = h\<lparr>h_uart := add_tx 0 (msg_header ERROR_MSG (of_nat (Suc (length msg))) @ cstr msg @ [10]) (h_uart h)\<rparr>"

lemma length_cstr [simp]: "length (cstr s) = length s"
  by (simp add: cstr_def)

lemma print_error_eq: "print_error msg h = Some (h\<lparr>h_uart := add_tx 0 (msg_header ERROR_MSG (of_nat (length msg)) @ msg) (h_uart h)\<rparr>)"
  by (simp add: print_error_def send_def write_packet_quiet needs_ack_def)

lemma fail_eq [simp]: "fail msg h = Some (- 1, say msg h)"
  by (simp add: fail_def print_error_eq say_def)

lemma say_sel [simp]:
  "h_flash (say m h) = h_flash h" "h_trng (say m h) = h_trng h" "h_replay (say m h) = h_replay h"
  "h_pin (say m h) = h_pin h" "h_blob (say m h) = h_blob h" "h_names (say m h) = h_names h"
  "uart_rx (h_uart (say m h)) = uart_rx (h_uart h)"
  by (simp_all add: say_def)

lemma say_tx: "\<exists>m. uart_tx (h_uart (say msg h)) = (uart_tx (h_uart h))(0 := m)"
  by (auto simp: say_def)

lemma hsm_ok_say [simp]: "hsm_ok (say m h) = hsm_ok h"
  by (simp add: hsm_ok_def)

lemma same_store_say [simp]: "same_store h (say m h)"
  by (simp add: same_store_def same_flash_def)

lemma send_only_uart: "send i type buf h = Some (rc, h') \<Longrightarrow> h' = h\<lparr>h_uart := h_uart h'\<rparr>"
  by (auto simp: send_def bind_eq_Some_conv)

lemma send_keeps:
  assumes "send i type buf h = Some (rc, h')"
  shows "same_store h h'" and "hsm_ok h' = hsm_ok h"
proof -
  obtain u where "h' = h\<lparr>h_uart := u\<rparr>" using send_only_uart [OF assms] by blast
  then show "same_store h h'" "hsm_ok h' = hsm_ok h" by (simp_all add: same_store_def same_flash_def hsm_ok_def)
qed

lemma reply_keeps:
  "done_reply type buf h = Some (rc, h') \<Longrightarrow> same_store h h' \<and> hsm_ok h' = hsm_ok h"
  "return_reply type buf h = Some (rc, h') \<Longrightarrow> same_store h h' \<and> hsm_ok h' = hsm_ok h"
  by (auto simp: done_reply_def return_reply_def bind_eq_Some_conv dest: send_keeps)

section \<open>The gate\<close>

definition attempted :: "platform \<Rightarrow> byte list \<Rightarrow> hsm \<Rightarrow> hsm" where
  "attempted P pin h = snd (do_check_pin P pin h)"

lemma attempted_keeps:
  assumes "flash_ok P" "hsm_ok h"
  shows "same_store h (attempted P pin h)" "hsm_ok (attempted P pin h)"
    and "h_uart (attempted P pin h) = h_uart h" "h_trng (attempted P pin h) = h_trng h"
    and "h_replay (attempted P pin h) = h_replay h" "h_blob (attempted P pin h) = h_blob h"
    and "g_pin_hash (h_pin (attempted P pin h)) = g_pin_hash (h_pin h)"
proof -
  obtain ok fl s where c: "check_pin P pin (h_flash h) (h_pin h) = (ok, fl, s)" by (metis prod_cases3)
  then have a: "attempted P pin h = h\<lparr>h_flash := fl, h_pin := s\<rparr>"
    by (simp add: attempted_def do_check_pin_def)
  have "flash_mem fl x = flash_mem (h_flash h) x" if "\<not> sector_of PIN_STATE_FLASH_ADDR x" for x
    by (rule check_pin_frame [OF assms(1) _ c that]) (use assms(2) in \<open>simp add: hsm_ok_def\<close>)
  then show "same_store h (attempted P pin h)" by (simp add: a same_store_def same_flash_def)
  show "hsm_ok (attempted P pin h)" using assms(2) pin_ok_check [OF _ c] by (simp add: a hsm_ok_def)
  show "h_uart (attempted P pin h) = h_uart h" "h_trng (attempted P pin h) = h_trng h"
    "h_replay (attempted P pin h) = h_replay h" "h_blob (attempted P pin h) = h_blob h" by (simp_all add: a)
  show "g_pin_hash (h_pin (attempted P pin h)) = g_pin_hash (h_pin h)" using check_pin_hash [OF c] by (simp add: a)
qed

lemma pin_gate_eq:
  assumes "secrets_ok P" "hsm_ok h"
  shows "pin_gate P pin h =
    Some (if pin_matches P (take 6 pin) (h_pin h) then (0, attempted P pin h)
          else (- 1, say ''Invalid pin'' (attempted P pin h)))"
proof -
  obtain ok fl s where c: "check_pin P pin (h_flash h) (h_pin h) = (ok, fl, s)" by (metis prod_cases3)
  then have "ok = pin_matches P (take 6 pin) (h_pin h)"
    using check_pin_iff [OF assms(1), of "h_pin h" pin "h_flash h"] assms(2) by (simp add: hsm_ok_def)
  with c show ?thesis by (simp add: pin_gate_def pin_is_locked_def do_check_pin_def attempted_def)
qed

lemma take_pin [simp]: "take 6 (segment 0 6 pkt) = segment 0 6 pkt"
  by (simp add: segment_def)

section \<open>One slot changes, the others stay\<close>

lemma slot_not_name: "slot_is_valid slot \<Longrightarrow> in_slot slot a \<Longrightarrow> \<not> sector_of BLOB_NAME_TABLE_ADDR a"
  using slot_below_fat [of slot a] by (auto simp: in_sector in_range_def BLOB_NAME_TABLE_ADDR_def)

definition files_kept :: "byte \<Rightarrow> hsm \<Rightarrow> hsm \<Rightarrow> bool" where
  "files_kept s h h' \<longleftrightarrow> (\<forall>k. k \<noteq> s \<and> slot_is_valid k \<longrightarrow>
     name_of k h' = name_of k h \<and> g_fat (h_blob h') ! unat k = g_fat (h_blob h) ! unat k \<and>
     (\<forall>a. in_slot k a \<longrightarrow> flash_mem (h_flash h') a = flash_mem (h_flash h) a))"

lemma files_kept_trans [trans]: "files_kept s h i \<Longrightarrow> files_kept s i j \<Longrightarrow> files_kept s h j"
  by (simp add: files_kept_def)

lemma files_kept_same: "same_store h h' \<Longrightarrow> files_kept s h h'"
  by (auto simp: files_kept_def same_store_def same_flash_def name_of_def slot_not_pin)

lemma files_kept_holds:
  assumes "files_kept s h h'" "k \<noteq> s" "holds_file P h k e uuid owner data"
  shows "holds_file P h' k e uuid owner data"
proof -
  have v: "slot_is_valid k" using assms(3) by (simp add: holds_file_def)
  have "blob_stored P (h_flash h') k hd data" if "blob_stored P (h_flash h) k hd data" for hd
    by (rule blob_stored_frame [OF that]) (use assms(1,2) v in \<open>auto simp: files_kept_def\<close>)
  with assms v show ?thesis by (auto simp: holds_file_def files_kept_def blob_holds_def)
qed

text \<open>RAM and flash agree: what a reset reloads is what the commands use.\<close>

definition tables_synced :: "hsm \<Rightarrow> bool" where
  "tables_synced h \<longleftrightarrow> fat_pg.holds (g_fat (h_blob h)) (h_flash h) \<and> name_pg.holds (h_names h) (h_flash h)"

lemma tables_synced_same: "tables_synced h \<Longrightarrow> same_store h h' \<Longrightarrow> tables_synced h'"
  unfolding tables_synced_def same_store_def same_flash_def
  using fat_pg.holds_other [of _ "h_flash h" PIN_STATE_FLASH_ADDR "h_flash h'"]
    name_pg.holds_other [of _ "h_flash h" PIN_STATE_FLASH_ADDR "h_flash h'"] by simp

section \<open>Names\<close>

lemma do_save_name_eq:
  assumes "do_save_name P slot name g h = (rc, h')" "slot_is_valid slot"
  obtains fl where "flush_name_table P ((h_names h)[unat slot := new_name_entry name g]) (h_flash h) = (rc, fl)"
    and "h' = h\<lparr>h_flash := fl, h_names := (h_names h)[unat slot := new_name_entry name g]\<rparr>"
  using assms by (auto simp: do_save_name_def save_name_cases split: prod.splits)

lemma do_clear_name_eq:
  assumes "do_clear_name P slot h = (rc, h')" "slot_is_valid slot"
  obtains fl where "flush_name_table P ((h_names h)[unat slot := name_erased]) (h_flash h) = (rc, fl)"
    and "h' = h\<lparr>h_flash := fl, h_names := (h_names h)[unat slot := name_erased]\<rparr>"
  using assms by (auto simp: do_clear_name_def clear_name_cases split: prod.splits)

lemma update_name_keeps:
  assumes P: "flash_ok P" and h: "hsm_ok h" and e: "name_ok e" and s: "slot_is_valid slot"
    and f: "flush_name_table P ((h_names h)[unat slot := e]) (h_flash h) = (rc, fl)"
    and h': "h' = h\<lparr>h_flash := fl, h_names := (h_names h)[unat slot := e]\<rparr>"
  shows "hsm_ok h'" "files_kept slot h h'" "name_of slot h' = e"
    and "rc = 0 \<Longrightarrow> fat_pg.holds (g_fat (h_blob h)) (h_flash h) \<Longrightarrow> tables_synced h'"
    and "rc = 0 \<Longrightarrow> name_pg.holds (h_names h') (h_flash h')"
proof -
  have ok: "names_ok ((h_names h)[unat slot := e])" using h e by (simp add: hsm_ok_def names_ok_update)
  have len: "unat slot < length (h_names h)" using h s by (simp add: hsm_ok_def names_ok_def valid_slot)
  have mem: "flash_mem fl a = flash_mem (h_flash h) a" if "\<not> sector_of BLOB_NAME_TABLE_ADDR a" for a
    by (rule name_pg.flush_frame [OF P ok f that])
  show "hsm_ok h'" using h ok by (simp add: hsm_ok_def h')
  show "name_of slot h' = e" using len by (simp add: name_of_def h')
  have "(h_names h)[unat slot := e] ! unat k = h_names h ! unat k" if "k \<noteq> slot" for k :: byte
    using that by (simp add: word_unat_eq_iff)
  then show "files_kept slot h h'"
    using mem slot_not_name by (auto simp: files_kept_def h' name_of_def)
  show n: "name_pg.holds (h_names h') (h_flash h')" if "rc = 0"
    using name_pg.holds_flush [OF P ok] f that by (simp add: h')
  show "tables_synced h'" if "rc = 0" "fat_pg.holds (g_fat (h_blob h)) (h_flash h)"
    using n [OF that(1)] fat_pg.holds_other [OF that(2), of BLOB_NAME_TABLE_ADDR fl] mem
    by (simp add: tables_synced_def h')
qed

lemma do_save_name_invalid: "\<not> slot_is_valid slot \<Longrightarrow> do_save_name P slot name g h = (- 1, h)"
  by (simp add: do_save_name_def save_name_invalid)

lemma find_own_slot: "slot_is_valid slot \<Longrightarrow> find_write_slot slot b = Inr slot"
  by (auto simp: find_write_slot_def valid_slot SECURE_BLOB_STORE_AUTO_SLOT_def)

section \<open>Storing\<close>

lemma do_blob_write_keeps:
  assumes P: "secrets_ok P" "gcm_ok P" "flash_ok P" and h: "hsm_ok h" and s: "slot_is_valid slot"
    and arg: "length uuid = 16" "length owner = 32" "length data \<le> 8192"
    and w: "do_blob_write P slot data uuid owner g h = Some (rc, h')"
  shows "hsm_ok h'" "files_kept slot h h'" "h_names h' = h_names h" "h_uart h' = h_uart h" "h_pin h' = h_pin h"
    and "h_replay h' = h_replay h"
    and "rc = SECURE_BLOB_STORE_OK \<Longrightarrow> blob_holds P (h_flash h') (h_blob h') slot uuid owner g data"
    and "rc = SECURE_BLOB_STORE_OK \<Longrightarrow> name_pg.holds (h_names h) (h_flash h) \<Longrightarrow> tables_synced h'"
proof -
  from w obtain fl tr b where b: "blob_write P slot data uuid owner g (h_flash h) (h_trng h) (h_blob h) = Some (rc, fl, tr, b)"
    and h': "h' = h\<lparr>h_flash := fl, h_trng := tr, h_blob := b\<rparr>"
    by (auto simp: do_blob_write_def bind_eq_Some_conv)
  have bo: "blob_ok (h_blob h)" using h by (simp add: hsm_ok_def)
  note slot = find_own_slot [OF s, of "h_blob h"]
  from blob_write_others [OF P bo arg slot b]
  have o: "other_slots_kept slot (h_flash h) (h_blob h) fl b" and b': "blob_ok b" by auto
  show "hsm_ok h'" using h b' by (simp add: h' hsm_ok_def)
  have ne: "unat k \<noteq> unat slot" if "k \<noteq> slot" for k :: byte using that by (simp add: word_unat_eq_iff)
  have "flash_mem fl a = flash_mem (h_flash h) a" if "k \<noteq> slot" "slot_is_valid k" "in_slot k a" for k a
    using o slots_disjoint [OF that(3), of slot] slot_not_fat [OF that(2,3)] that(1) by (auto simp: other_slots_kept_def)
  with ne o show "files_kept slot h h'" by (auto simp: files_kept_def h' name_of_def other_slots_kept_def)
  show "h_names h' = h_names h" "h_uart h' = h_uart h" "h_pin h' = h_pin h" "h_replay h' = h_replay h"
    by (simp_all add: h')
  show "blob_holds P (h_flash h') (h_blob h') slot uuid owner g data" if "rc = SECURE_BLOB_STORE_OK"
    using blob_write_stores(1) [OF P bo arg slot] b that by (simp add: h')
  show "tables_synced h'" if "rc = SECURE_BLOB_STORE_OK" "name_pg.holds (h_names h) (h_flash h)"
  proof -
    have "flash_mem fl a = flash_mem (h_flash h) a" if "sector_of BLOB_NAME_TABLE_ADDR a" for a
    proof -
      have "\<not> sector_of SECURE_BLOB_STORE_FAT_ADDR a" using that by (simp add: sector_of_def)
      moreover have "\<not> in_slot slot a" using that slot_not_name [OF s] by blast
      ultimately show ?thesis using o by (simp add: other_slots_kept_def)
    qed
    from name_pg.holds_frame [OF that(2) this] blob_write_stores(3) [OF P bo arg slot] b that(1)
    show ?thesis by (simp add: tables_synced_def h')
  qed
qed

text \<open>
  The three calls of \<open>store_blob\<close>: refused, the name not stored, the blob not stored and the
  name undone, or all done.
\<close>

lemma store_blob_cases:
  assumes P: "secrets_ok P" and pin: "6 \<le> length pin"
    and r: "store_blob P slot pin name g uuid contents h = Some (rc, h')"
  obtains h1 rc1 where "do_save_name P slot name g h = (rc1, h1)" "rc1 \<noteq> 0" "rc = - 1" "h' = say ''Name store failed'' h1"
    | h1 h2 h3 rc2 rc3 where "do_save_name P slot name g h = (0, h1)"
        "do_blob_write P slot contents uuid (pin_hash P (take 6 pin)) (ucast g) h1 = Some (rc2, h2)"
        "rc2 \<noteq> SECURE_BLOB_STORE_OK" "do_clear_name P slot h2 = (rc3, h3)" "rc = - 1" "h' = say ''Store failed'' h3"
    | h1 where "do_save_name P slot name g h = (0, h1)" "rc = 0"
        "do_blob_write P slot contents uuid (pin_hash P (take 6 pin)) (ucast g) h1 = Some (SECURE_BLOB_STORE_OK, h')"
proof -
  have o: "get_pin_hash P (take PIN_LENGTH pin) = Some (pin_hash P (take 6 pin))"
    using get_pin_hash_ok [OF P, of "take 6 pin"] pin by (simp add: PIN_LENGTH_def)
  obtain rc1 h1 where s: "do_save_name P slot name g h = (rc1, h1)" by fastforce
  show thesis
  proof (cases "rc1 = 0")
    case False
    with r o s show thesis by (intro that(1) [OF s]) (simp_all add: store_blob_def)
  next
    case rc1: True
    with r o s obtain rc2 h2 where w:
      "do_blob_write P slot contents uuid (pin_hash P (take 6 pin)) (ucast g) h1 = Some (rc2, h2)"
      by (auto simp: store_blob_def bind_eq_Some_conv)
    obtain rc3 h3 where c: "do_clear_name P slot h2 = (rc3, h3)" by fastforce
    show thesis
    proof (cases "rc2 = SECURE_BLOB_STORE_OK")
      case True
      with r o s w rc1 show thesis by (intro that(3) [of h1]) (simp_all add: store_blob_def)
    next
      case False
      with r o s w rc1 c show thesis by (intro that(2) [of h1 rc2 h2 rc3 h3]) (simp_all add: store_blob_def)
    qed
  qed
qed

lemma hsm_ok_names: "hsm_ok h \<Longrightarrow> names_ok (h_names h)"
  by (simp add: hsm_ok_def)

lemma save_name_keeps:
  assumes P: "flash_ok P" and h: "hsm_ok h" and n: "length name = 32"
    and s: "do_save_name P slot name g h = (rc, h')"
  shows "hsm_ok h'" "files_kept slot h h'" "h_uart h' = h_uart h" "h_pin h' = h_pin h" "h_replay h' = h_replay h"
    and "rc = 0 \<Longrightarrow> slot_is_valid slot" "rc = 0 \<Longrightarrow> name_of slot h' = new_name_entry name g"
    and "rc = 0 \<Longrightarrow> name_pg.holds (h_names h') (h_flash h')"
proof -
  have "hsm_ok h' \<and> files_kept slot h h' \<and> h_uart h' = h_uart h \<and> h_pin h' = h_pin h \<and> h_replay h' = h_replay h \<and>
    (rc = 0 \<longrightarrow> slot_is_valid slot \<and> name_of slot h' = new_name_entry name g \<and> name_pg.holds (h_names h') (h_flash h'))"
  proof (cases "slot_is_valid slot")
    case True
    from do_save_name_eq [OF s True] obtain fl
      where f: "flush_name_table P ((h_names h)[unat slot := new_name_entry name g]) (h_flash h) = (rc, fl)"
      and h': "h' = h\<lparr>h_flash := fl, h_names := (h_names h)[unat slot := new_name_entry name g]\<rparr>" .
    from update_name_keeps [OF P h new_name_ok [OF n] True f h'] True show ?thesis by (auto simp: h')
  next
    case False
    with h s show ?thesis by (auto simp: do_save_name_invalid files_kept_def)
  qed
  then show "hsm_ok h'" "files_kept slot h h'" "h_uart h' = h_uart h" "h_pin h' = h_pin h" "h_replay h' = h_replay h"
    "rc = 0 \<Longrightarrow> slot_is_valid slot" "rc = 0 \<Longrightarrow> name_of slot h' = new_name_entry name g"
    "rc = 0 \<Longrightarrow> name_pg.holds (h_names h') (h_flash h')" by auto
qed

lemma clear_name_keeps:
  assumes P: "flash_ok P" and h: "hsm_ok h" and v: "slot_is_valid slot" and s: "do_clear_name P slot h = (rc, h')"
  shows "hsm_ok h'" "files_kept slot h h'" "h_uart h' = h_uart h" "h_pin h' = h_pin h" "h_replay h' = h_replay h"
    and "\<not> occupied slot h'" "h_blob h' = h_blob h"
    and "rc = 0 \<Longrightarrow> fat_pg.holds (g_fat (h_blob h)) (h_flash h) \<Longrightarrow> tables_synced h'"
proof -
  from do_clear_name_eq [OF s v] obtain fl
    where f: "flush_name_table P ((h_names h)[unat slot := name_erased]) (h_flash h) = (rc, fl)"
    and h': "h' = h\<lparr>h_flash := fl, h_names := (h_names h)[unat slot := name_erased]\<rparr>" .
  note u = update_name_keeps [OF P h name_erased_sel(1) v f h']
  show "hsm_ok h'" "files_kept slot h h'" by (rule u)+
  show "h_uart h' = h_uart h" "h_pin h' = h_pin h" "h_replay h' = h_replay h" "h_blob h' = h_blob h" by (simp_all add: h')
  show "\<not> occupied slot h'"
    using u(3) by (simp add: occupied_def slot_occupied_iff name_of_def NAME_IN_USE_TAG_def)
  show "rc = 0 \<Longrightarrow> fat_pg.holds (g_fat (h_blob h)) (h_flash h) \<Longrightarrow> tables_synced h'" by (rule u(4))
qed

lemma store_blob_keeps:
  assumes P: "secrets_ok P" "gcm_ok P" "flash_ok P" and h: "hsm_ok h"
    and arg: "6 \<le> length pin" "length name = 32" "length uuid = 16" "length contents \<le> 8192"
    and r: "store_blob P slot pin name g uuid contents h = Some (rc, h')"
  shows "hsm_ok h' \<and> files_kept slot h h' \<and> h_pin h' = h_pin h \<and> h_replay h' = h_replay h \<and>
    (rc = 0 \<longrightarrow> holds_file P h' slot (new_name_entry name g) uuid (pin_hash P (take 6 pin)) contents \<and>
       tables_synced h' \<and> h_uart h' = h_uart h) \<and>
    (rc \<noteq> 0 \<longrightarrow> (\<exists>m. uart_tx (h_uart h') = (uart_tx (h_uart h))(0 := m)))"
  using P(1) arg(1) r
proof (cases rule: store_blob_cases)
  case (1 h1 rc1)
  note n = save_name_keeps [OF P(3) h arg(2) 1(1)]
  from 1 n files_kept_trans [OF n(2) files_kept_same [OF same_store_say [of h1 "''Name store failed''"]]]
  show ?thesis using say_tx [of "''Name store failed''" h1] by auto
next
  case (2 h1 h2 h3 rc2 rc3)
  note n = save_name_keeps [OF P(3) h arg(2) 2(1), simplified]
  note w = do_blob_write_keeps [OF P n(1) n(6) arg(3) length_pin_hash arg(4) 2(2)]
  note c = clear_name_keeps [OF P(3) w(1) n(6) 2(4)]
  have "files_kept slot h h3" using n(2) w(2) c(2) files_kept_trans by blast
  with 2 n w c files_kept_trans [OF this files_kept_same [OF same_store_say [of h3 "''Store failed''"]]]
  show ?thesis using say_tx [of "''Store failed''" h3] by auto
next
  case (3 h1)
  note n = save_name_keeps [OF P(3) h arg(2) 3(1), simplified]
  note w = do_blob_write_keeps [OF P n(1) n(6) arg(3) length_pin_hash arg(4) 3(3), simplified]
  from 3 n w files_kept_trans [OF n(2) w(2)] show ?thesis
    by (auto simp: holds_file_def name_of_def new_name_entry_def)
qed

end
