(* ===== verification/Peer.thy ===== *)
theory Peer
  imports Commands
begin

text \<open>
  The device-to-device commands of \<^verbatim>\<open>firmware/src/commands.c\<close>: \<^verbatim>\<open>receive\<close> fetches a file from a
  peer, \<^verbatim>\<open>interrogate\<close> asks a peer for its file list, \<^verbatim>\<open>listen\<close> serves both. Each opens with a
  fresh challenge and is authorised by a MAC under a group key that only devices holding the
  group's receive permission compute. The packed structs of \<^verbatim>\<open>commands.h\<close> are byte strings
  with explicit encoders; a received message shorter than its struct leaves the zeroes of
  the preceding \<^verbatim>\<open>memset\<close>.
\<close>

section \<open>Messages between devices\<close>

definition MAX_PERMS_COUNT :: nat where "MAX_PERMS_COUNT = 8"

record receive_request =
  rq_slot :: byte
  rq_requester_nonce :: u32

record receive_challenge =
  ch_slot :: byte
  ch_group_id :: u16
  ch_requester_nonce :: u32
  ch_target_nonce :: u32

record receive_proof = receive_challenge +
  pf_proof :: "byte list"

record interrogate_challenge =
  ic_requester_nonce :: u32
  ic_target_nonce :: u32

record group_proof =
  gp_group_id :: u16
  gp_proof :: "byte list"

record interrogate_proof = interrogate_challenge +
  ip_proof_count :: byte
  ip_proofs :: "group_proof list"

record hsm_file =
  f_in_use :: u32
  f_group_id :: u16
  f_name :: "byte list"
  f_contents_len :: u16
  f_nonce :: "byte list"
  f_tag :: "byte list"
  f_contents :: "byte list"

definition pad_to :: "nat \<Rightarrow> byte list \<Rightarrow> byte list" where
  "pad_to n bs = bs @ replicate (n - length bs) 0"

definition receive_request_bytes :: "receive_request \<Rightarrow> byte list" where
  "receive_request_bytes r = [rq_slot r] @ le32 (rq_requester_nonce r)"

definition un_receive_request :: "byte list \<Rightarrow> receive_request" where
  "un_receive_request bs = \<lparr>rq_slot = segment 0 1 bs ! 0, rq_requester_nonce = un_le32 (segment 1 4 bs)\<rparr>"

definition receive_challenge_bytes :: "('a) receive_challenge_scheme \<Rightarrow> byte list" where
  "receive_challenge_bytes c =
     [ch_slot c] @ le16 (ch_group_id c) @ le32 (ch_requester_nonce c) @ le32 (ch_target_nonce c)"

definition un_receive_challenge :: "byte list \<Rightarrow> receive_challenge" where
  "un_receive_challenge bs = \<lparr>ch_slot = segment 0 1 bs ! 0, ch_group_id = un_le16 (segment 1 2 bs),
     ch_requester_nonce = un_le32 (segment 3 4 bs), ch_target_nonce = un_le32 (segment 7 4 bs)\<rparr>"

definition receive_proof_bytes :: "receive_proof \<Rightarrow> byte list" where
  "receive_proof_bytes p = receive_challenge_bytes p @ pf_proof p"

definition un_receive_proof :: "byte list \<Rightarrow> receive_proof" where
  "un_receive_proof bs = receive_challenge.extend (un_receive_challenge bs) \<lparr>pf_proof = segment 11 32 bs\<rparr>"

definition interrogate_challenge_bytes :: "('a) interrogate_challenge_scheme \<Rightarrow> byte list" where
  "interrogate_challenge_bytes c = le32 (ic_requester_nonce c) @ le32 (ic_target_nonce c)"

definition un_interrogate_challenge :: "byte list \<Rightarrow> interrogate_challenge" where
  "un_interrogate_challenge bs =
     \<lparr>ic_requester_nonce = un_le32 (segment 0 4 bs), ic_target_nonce = un_le32 (segment 4 4 bs)\<rparr>"

definition group_proof_bytes :: "group_proof \<Rightarrow> byte list" where
  "group_proof_bytes g = le16 (gp_group_id g) @ gp_proof g"

definition un_group_proof :: "byte list \<Rightarrow> group_proof" where
  "un_group_proof bs = \<lparr>gp_group_id = un_le16 (segment 0 2 bs), gp_proof = segment 2 32 bs\<rparr>"

text \<open>The proofs present; the array behind them is zero.\<close>

definition interrogate_proof_bytes :: "interrogate_proof \<Rightarrow> byte list" where
  "interrogate_proof_bytes p =
     pad_to 281 (interrogate_challenge_bytes p @ [ip_proof_count p] @ concat (map group_proof_bytes (ip_proofs p)))"

definition un_interrogate_proof :: "byte list \<Rightarrow> interrogate_proof" where
  "un_interrogate_proof bs = interrogate_challenge.extend (un_interrogate_challenge bs)
     \<lparr>ip_proof_count = segment 8 1 bs ! 0,
      ip_proofs = map (\<lambda>i. un_group_proof (segment (9 + 34 * i) 34 bs)) [0..<MAX_PERMS_COUNT]\<rparr>"

definition file_bytes :: "hsm_file \<Rightarrow> byte list" where
  "file_bytes f = le32 (f_in_use f) @ le16 (f_group_id f) @ f_name f @ le16 (f_contents_len f) @
     f_nonce f @ f_tag f @ f_contents f"

definition un_file :: "byte list \<Rightarrow> hsm_file" where
  "un_file bs = \<lparr>f_in_use = un_le32 (segment 0 4 bs), f_group_id = un_le16 (segment 4 2 bs),
     f_name = segment 6 32 bs, f_contents_len = un_le16 (segment 38 2 bs), f_nonce = segment 40 12 bs,
     f_tag = segment 52 16 bs, f_contents = segment 68 8192 bs\<rparr>"

definition FILE_IN_USE :: u32 where "FILE_IN_USE = 0xdeadbeef"

text \<open>\<^verbatim>\<open>receive_response_t\<close>: a uuid and a file.\<close>

definition receive_response_bytes :: "byte list \<Rightarrow> hsm_file \<Rightarrow> byte list" where
  "receive_response_bytes uuid f = uuid @ file_bytes f"

definition RECEIVE_COMMAND_SIZE :: nat where "RECEIVE_COMMAND_SIZE = 8"
definition INTERROGATE_COMMAND_SIZE :: nat where "INTERROGATE_COMMAND_SIZE = 6"
definition RECEIVE_REQUEST_SIZE :: nat where "RECEIVE_REQUEST_SIZE = 5"
definition RECEIVE_CHALLENGE_SIZE :: nat where "RECEIVE_CHALLENGE_SIZE = 11"
definition RECEIVE_PROOF_SIZE :: nat where "RECEIVE_PROOF_SIZE = 43"
definition RECEIVE_RESPONSE_SIZE :: nat where "RECEIVE_RESPONSE_SIZE = 8276"
definition INTERROGATE_REQUEST_SIZE :: nat where "INTERROGATE_REQUEST_SIZE = 4"
definition INTERROGATE_CHALLENGE_SIZE :: nat where "INTERROGATE_CHALLENGE_SIZE = 8"
definition INTERROGATE_PROOF_SIZE :: nat where "INTERROGATE_PROOF_SIZE = 281"
definition LIST_RESPONSE_SIZE :: nat where "LIST_RESPONSE_SIZE = 284"

section \<open>Device calls\<close>

definition xfer_read :: "nat \<Rightarrow> hsm \<Rightarrow> (packet \<times> hsm) option" where
  "xfer_read cap h =
     (do { (r, u) \<leftarrow> read_packet_timeout TRANSFER_INTERFACE (of_nat cap) UART_XFER_TIMEOUT_MS (h_uart h);
           Some (r, h\<lparr>h_uart := u\<rparr>) })"

text \<open>A nonce read into a \<^verbatim>\<open>uint32_t\<close>.\<close>

definition fresh_nonce :: "hsm \<Rightarrow> (u32 option \<times> hsm) option" where
  "fresh_nonce h =
     (do { (n, tr) \<leftarrow> security_generate_nonce 4 (h_trng h);
           Some (case n of None \<Rightarrow> None | Some bs \<Rightarrow> Some (un_le32 bs), h\<lparr>h_trng := tr\<rparr>) })"

text \<open>\<^verbatim>\<open>write_packet(TRANSFER_INTERFACE, ERROR_MSG, msg, ...); return -1;\<close>\<close>

definition deny :: "string \<Rightarrow> hsm \<Rightarrow> (int \<times> hsm) option" where
  "deny msg h = (do { (_, h) \<leftarrow> send TRANSFER_INTERFACE ERROR_MSG (cstr msg) h; Some (- 1, h) })"

definition deny_and_fail :: "string \<Rightarrow> string \<Rightarrow> hsm \<Rightarrow> (int \<times> hsm) option" where
  "deny_and_fail msg err h = (do { (_, h) \<leftarrow> deny msg h; fail err h })"

definition check_replay :: "u32 \<Rightarrow> u32 \<Rightarrow> u16 \<Rightarrow> byte \<Rightarrow> hsm \<Rightarrow> bool \<times> hsm" where
  "check_replay nr nt g opc h =
     (let (ok, c) = security_secure_uart_check_and_update_replay nr nt g opc (h_replay h)
      in (ok, h\<lparr>h_replay := c\<rparr>))"

definition sign_proof :: "platform \<Rightarrow> u16 \<Rightarrow> byte list \<Rightarrow> byte list option" where
  "sign_proof P g message =
     (case security_get_root_secret P of
        None \<Rightarrow> None
      | Some root \<Rightarrow> secure_crypto_receive_proof_sign root g message 32)"

definition verify_proof :: "platform \<Rightarrow> u16 \<Rightarrow> byte list \<Rightarrow> byte list \<Rightarrow> bool" where
  "verify_proof P g message proof =
     (case security_get_root_secret P of
        None \<Rightarrow> False
      | Some root \<Rightarrow> secure_crypto_receive_proof_verify root g message proof)"

section \<open>Fetching a file\<close>

definition store_received_blob :: "platform \<Rightarrow> byte \<Rightarrow> byte list \<Rightarrow> hsm_file \<Rightarrow> byte list \<Rightarrow> hsm \<Rightarrow> (int \<times> hsm) option" where
  "store_received_blob P slot uuid f pin h =
     (if MAX_CONTENTS_SIZE < unat (f_contents_len f) then fail ''Transfer payload too large'' h
      else if \<not> validate_permission P (f_group_id f) PERM_RECEIVE then fail ''Invalid permission'' h
      else store_blob P slot pin (f_name f) (f_group_id f) uuid (take (unat (f_contents_len f)) (f_contents f)) h)"

text \<open>From the proof's reply on.\<close>

definition receive_finish :: "platform \<Rightarrow> byte \<Rightarrow> byte list \<Rightarrow> hsm \<Rightarrow> (int \<times> hsm) option" where
  "receive_finish P write_slot pin h =
     (do { (r, h) \<leftarrow> xfer_read RECEIVE_RESPONSE_SIZE h;
           if pk_status r \<noteq> MSG_OK then fail ''No response from target HSM'' h
           else if pk_cmd r = Some ERROR_MSG then fail ''Could not import file'' h
           else if pk_cmd r \<noteq> Some RECEIVE_MSG \<or> length (pk_data r) \<noteq> RECEIVE_RESPONSE_SIZE
           then fail ''Opcode mismatch'' h
           else do { (rc, h) \<leftarrow> store_received_blob P write_slot (segment 0 16 (pk_data r))
                                 (un_file (drop 16 (pk_data r))) pin h;
                     if rc \<noteq> 0 then Some (- 1, h) else done_reply RECEIVE_MSG [] h } })"

definition receive_prove :: "platform \<Rightarrow> receive_challenge \<Rightarrow> byte \<Rightarrow> byte list \<Rightarrow> hsm \<Rightarrow> (int \<times> hsm) option" where
  "receive_prove P challenge write_slot pin h =
     (case sign_proof P (ch_group_id challenge) (receive_challenge_bytes challenge) of
        None \<Rightarrow> fail ''Crypto error'' h
      | Some proof \<Rightarrow>
          do { (rc, h) \<leftarrow> send TRANSFER_INTERFACE RECEIVE_MSG
                 (receive_proof_bytes (receive_challenge.extend challenge \<lparr>pf_proof = proof\<rparr>)) h;
               if rc \<noteq> MSG_OK then fail ''No response from target HSM'' h
               else receive_finish P write_slot pin h })"

definition receive :: "platform \<Rightarrow> byte list \<Rightarrow> hsm \<Rightarrow> (int \<times> hsm) option" where
  "receive P pkt h =
     (if length pkt < RECEIVE_COMMAND_SIZE then fail ''Packet too short'' h
      else let pin = segment 0 6 pkt; read_slot = pkt ! 6; write_slot = pkt ! 7 in
      do { (rc, h) \<leftarrow> pin_gate P pin h;
           if rc \<noteq> 0 then Some (- 1, h)
           else do { (nonce, h) \<leftarrow> fresh_nonce h;
             case nonce of
               None \<Rightarrow> fail ''Nonce generation failed'' h
             | Some nonce \<Rightarrow>
                 do { (rc, h) \<leftarrow> send TRANSFER_INTERFACE RECEIVE_MSG
                        (receive_request_bytes \<lparr>rq_slot = read_slot, rq_requester_nonce = nonce\<rparr>) h;
                      if rc \<noteq> MSG_OK then fail ''No response from target HSM'' h
                      else do { (r, h) \<leftarrow> xfer_read RECEIVE_CHALLENGE_SIZE h;
                        let challenge = un_receive_challenge (pad_to RECEIVE_CHALLENGE_SIZE (pk_data r)) in
                        if pk_status r \<noteq> MSG_OK then fail ''No response from target HSM'' h
                        else if pk_cmd r = Some ERROR_MSG then fail ''Could not import file'' h
                        else if pk_cmd r \<noteq> Some RECEIVE_MSG \<or> length (pk_data r) \<noteq> RECEIVE_CHALLENGE_SIZE \<or>
                                ch_slot challenge \<noteq> read_slot \<or> ch_requester_nonce challenge \<noteq> nonce
                        then fail ''Opcode mismatch'' h
                        else if \<not> validate_permission P (ch_group_id challenge) PERM_RECEIVE
                        then fail ''Invalid permission'' h
                        else receive_prove P challenge write_slot pin h } } } })"

section \<open>Asking for a list\<close>

text \<open>The loop over \<^verbatim>\<open>global_permissions\<close>: one proof per group the device may receive.\<close>

fun interrogate_proofs ::
    "secure_crypto_root_secret \<Rightarrow> byte list \<Rightarrow> group_permission list \<Rightarrow> group_proof list \<Rightarrow> group_proof list option" where
  "interrogate_proofs root challenge [] proofs = Some proofs"
| "interrogate_proofs root challenge (p # perms) proofs =
     (if \<not> perm_receive p then interrogate_proofs root challenge perms proofs
      else if MAX_PERMS_COUNT \<le> length proofs then Some proofs
      else case secure_crypto_receive_proof_sign root (perm_group_id p) (challenge @ le16 (perm_group_id p)) 32 of
             None \<Rightarrow> None
           | Some proof \<Rightarrow> interrogate_proofs root challenge perms
                             (proofs @ [\<lparr>gp_group_id = perm_group_id p, gp_proof = proof\<rparr>]))"

definition interrogate_finish :: "hsm \<Rightarrow> (int \<times> hsm) option" where
  "interrogate_finish h =
     (do { (r, h) \<leftarrow> xfer_read LIST_RESPONSE_SIZE h;
           if pk_status r \<noteq> MSG_OK then fail ''No response from target HSM'' h
           else if pk_cmd r \<noteq> Some INTERROGATE_MSG \<or> LIST_RESPONSE_SIZE < length (pk_data r)
           then fail ''Opcode mismatch'' h
           else return_reply INTERROGATE_MSG (pk_data r) h })"

definition interrogate_prove :: "platform \<Rightarrow> interrogate_challenge \<Rightarrow> hsm \<Rightarrow> (int \<times> hsm) option" where
  "interrogate_prove P challenge h =
     (case security_get_root_secret P of
        None \<Rightarrow> fail ''Crypto error'' h
      | Some root \<Rightarrow>
          (case interrogate_proofs root (interrogate_challenge_bytes challenge)
                  (take MAX_PERMS_COUNT (global_permissions P)) [] of
             None \<Rightarrow> fail ''Crypto error'' h
           | Some proofs \<Rightarrow>
               do { (rc, h) \<leftarrow> send TRANSFER_INTERFACE INTERROGATE_MSG
                      (interrogate_proof_bytes (interrogate_challenge.extend challenge
                         \<lparr>ip_proof_count = of_nat (length proofs), ip_proofs = proofs\<rparr>)) h;
                    if rc \<noteq> MSG_OK then fail ''No response from target HSM'' h
                    else interrogate_finish h }))"

definition interrogate :: "platform \<Rightarrow> byte list \<Rightarrow> hsm \<Rightarrow> (int \<times> hsm) option" where
  "interrogate P pkt h =
     (if length pkt < INTERROGATE_COMMAND_SIZE then fail ''Packet too short'' h
      else do { (rc, h) \<leftarrow> pin_gate P (segment 0 6 pkt) h;
        if rc \<noteq> 0 then Some (- 1, h)
        else do { (nonce, h) \<leftarrow> fresh_nonce h;
          case nonce of
            None \<Rightarrow> fail ''Nonce generation failed'' h
          | Some nonce \<Rightarrow>
              do { (rc, h) \<leftarrow> send TRANSFER_INTERFACE INTERROGATE_MSG (le32 nonce) h;
                   if rc \<noteq> MSG_OK then fail ''No response from target HSM'' h
                   else do { (r, h) \<leftarrow> xfer_read INTERROGATE_CHALLENGE_SIZE h;
                     let challenge = un_interrogate_challenge (pad_to INTERROGATE_CHALLENGE_SIZE (pk_data r)) in
                     if pk_status r \<noteq> MSG_OK then fail ''No response from target HSM'' h
                     else if pk_cmd r \<noteq> Some INTERROGATE_MSG \<or> length (pk_data r) \<noteq> INTERROGATE_CHALLENGE_SIZE \<or>
                             ic_requester_nonce challenge \<noteq> nonce
                     then fail ''Opcode mismatch'' h
                     else interrogate_prove P challenge h } } } })"

section \<open>Serving\<close>

text \<open>
  The list for an interrogation: the occupied slots whose group is among the proofs'. The loop
  over the proofs has returned unless every one verified, so \<^verbatim>\<open>group_authorized[i]\<close> holds for
  each \<^verbatim>\<open>i < proof_count\<close>.
\<close>

definition listen_list :: "group_proof list \<Rightarrow> hsm \<Rightarrow> byte list list" where
  "listen_list proofs h =
     take MAX_FILE_COUNT (map (\<lambda>slot. metadata_bytes slot (name_of slot h))
       (filter (\<lambda>slot. occupied slot h \<and>
                  list_ex (\<lambda>g. gp_group_id g = ne_group_id (name_of slot h)) proofs) slot_list))"

definition listen_interrogate :: "platform \<Rightarrow> byte list \<Rightarrow> hsm \<Rightarrow> (int \<times> hsm) option" where
  "listen_interrogate P request h =
     (if length request \<noteq> INTERROGATE_REQUEST_SIZE then deny ''Interrogate denied'' h
      else do { (nonce, h) \<leftarrow> fresh_nonce h;
        case nonce of
          None \<Rightarrow> deny ''Interrogate denied'' h
        | Some nonce \<Rightarrow>
            let challenge = \<lparr>ic_requester_nonce = un_le32 request, ic_target_nonce = nonce\<rparr> in
            do { (rc, h) \<leftarrow> send TRANSFER_INTERFACE INTERROGATE_MSG (interrogate_challenge_bytes challenge) h;
                 if rc \<noteq> MSG_OK then Some (- 1, h)
                 else do { (r, h) \<leftarrow> xfer_read INTERROGATE_PROOF_SIZE h;
                   let p = un_interrogate_proof (pad_to INTERROGATE_PROOF_SIZE (pk_data r));
                       proofs = take (unat (ip_proof_count p)) (ip_proofs p) in
                   if pk_status r \<noteq> MSG_OK \<or> pk_cmd r \<noteq> Some INTERROGATE_MSG \<or>
                      length (pk_data r) \<noteq> INTERROGATE_PROOF_SIZE \<or> MAX_PERMS_COUNT < unat (ip_proof_count p) \<or>
                      ic_requester_nonce p \<noteq> ic_requester_nonce challenge \<or>
                      ic_target_nonce p \<noteq> ic_target_nonce challenge \<or> security_get_root_secret P = None
                   then deny ''Interrogate denied'' h
                   else if \<not> list_all (\<lambda>g. verify_proof P (gp_group_id g)
                             (interrogate_challenge_bytes challenge @ le16 (gp_group_id g)) (gp_proof g)) proofs
                   then deny ''Interrogate denied'' h
                   else let (ok, h) = check_replay (ic_requester_nonce challenge) (ic_target_nonce challenge) 0
                                        INTERROGATE_MSG h
                        in if \<not> ok then deny ''Interrogate denied'' h
                           else do { (rc, h) \<leftarrow> send TRANSFER_INTERFACE INTERROGATE_MSG
                                        (list_response (listen_list proofs h)) h;
                                     if rc \<noteq> MSG_OK then fail ''Transfer write failed'' h
                                     else done_reply LISTEN_MSG [] h } } } })"

text \<open>The file of a slot, once the peer is authorised.\<close>

definition listen_send_file :: "platform \<Rightarrow> byte \<Rightarrow> hsm \<Rightarrow> (int \<times> hsm) option" where
  "listen_send_file P slot h =
     (let (rc, out, plaintext_len, b) =
            blob_read_all_group_mask P slot (ucast (ne_group_id (name_of slot h))) MAX_CONTENTS_SIZE (h_flash h) (h_blob h);
          h = h\<lparr>h_blob := b\<rparr>
      in if rc \<noteq> SECURE_BLOB_STORE_OK then deny_and_fail ''Could not import file'' ''Failed to read file'' h
         else if MAX_CONTENTS_SIZE < plaintext_len
         then deny_and_fail ''Could not import file'' ''Transfer payload too large'' h
         else let f = \<lparr>f_in_use = FILE_IN_USE, f_group_id = ne_group_id (name_of slot h),
                       f_name = take 31 (ne_name (name_of slot h)) @ [0],
                       f_contents_len = of_nat plaintext_len, f_nonce = replicate 12 0, f_tag = replicate 16 0,
                       f_contents = pad_to MAX_CONTENTS_SIZE out\<rparr>
              in do { (rc, h) \<leftarrow> send TRANSFER_INTERFACE RECEIVE_MSG
                        (receive_response_bytes (fat_uuid (g_fat (h_blob h) ! unat slot)) f) h;
                      if rc \<noteq> MSG_OK then fail ''Transfer write failed'' h
                      else done_reply LISTEN_MSG [] h })"

definition listen_receive :: "platform \<Rightarrow> byte list \<Rightarrow> hsm \<Rightarrow> (int \<times> hsm) option" where
  "listen_receive P request h =
     (let command = un_receive_request (pad_to RECEIVE_REQUEST_SIZE request); slot = rq_slot command in
      if length request \<noteq> RECEIVE_REQUEST_SIZE then deny ''Could not import file'' h
      else if \<not> occupied slot h then deny_and_fail ''Could not import file'' ''File not found'' h
      else do { (nonce, h) \<leftarrow> fresh_nonce h;
        case nonce of
          None \<Rightarrow> deny ''Could not import file'' h
        | Some nonce \<Rightarrow>
            let challenge = \<lparr>ch_slot = slot, ch_group_id = ne_group_id (name_of slot h),
                             ch_requester_nonce = rq_requester_nonce command, ch_target_nonce = nonce\<rparr> in
            do { (rc, h) \<leftarrow> send TRANSFER_INTERFACE RECEIVE_MSG (receive_challenge_bytes challenge) h;
                 if rc \<noteq> MSG_OK then fail ''Transfer write failed'' h
                 else do { (r, h) \<leftarrow> xfer_read RECEIVE_PROOF_SIZE h;
                   let p = un_receive_proof (pad_to RECEIVE_PROOF_SIZE (pk_data r)) in
                   if pk_status r \<noteq> MSG_OK \<or> pk_cmd r \<noteq> Some RECEIVE_MSG \<or>
                      length (pk_data r) \<noteq> RECEIVE_PROOF_SIZE \<or> receive_challenge.truncate p \<noteq> challenge
                   then deny ''Could not import file'' h
                   else let proof_valid = verify_proof P (ch_group_id p) (receive_challenge_bytes challenge) (pf_proof p) in
                     if \<not> proof_valid then deny ''Could not import file'' h
                     else let (ok, h) = check_replay (ch_requester_nonce p) (ch_target_nonce p) (ch_group_id p)
                                          RECEIVE_MSG h
                          in if \<not> ok then deny ''Could not import file'' h
                             else listen_send_file P slot h } } })"

definition listen :: "platform \<Rightarrow> byte list \<Rightarrow> hsm \<Rightarrow> (int \<times> hsm) option" where
  "listen P pkt h =
     (do { (r, h) \<leftarrow> xfer_read INTERROGATE_PROOF_SIZE h;
           if pk_status r \<noteq> MSG_OK then fail ''No request on transfer UART'' h
           else if pk_cmd r = Some INTERROGATE_MSG then listen_interrogate P (pk_data r) h
           else if pk_cmd r = Some RECEIVE_MSG then listen_receive P (pk_data r) h
           else do { h \<leftarrow> print_error (cstr ''Bad message type'') h; Some (- 1, h) } })"

end
