(* ===== verification/Vault.thy ===== *)
theory Vault
  imports Commands
begin

text \<open>
  What the host commands promise, and that the handlers keep it. A \<open>vault\<close> is what the user of
  the device has in mind: the PIN (as its hash) and a map from slots to files. The \<open>spec_\<close>
  functions say how a command packet changes the vault and what is answered, without flash,
  cipher, tables or counters. \<open>represents P h v\<close> relates a device to its vault; each handler
  simulates its specification on a platform whose flash works.
\<close>

record stored_file =
  sf_name :: "byte list"
  sf_group :: u16
  sf_uuid :: "byte list"
  sf_owner :: "byte list"
  sf_data :: "byte list"

record vault =
  v_pin :: "byte list"
  v_files :: "byte \<Rightarrow> stored_file option"

datatype answer = Refused string | Answer byte "byte list"

definition opens :: "platform \<Rightarrow> byte list \<Rightarrow> vault \<Rightarrow> bool" where
  "opens P pin v \<longleftrightarrow> pin_hash P pin = v_pin v"

definition put_file :: "byte \<Rightarrow> stored_file \<Rightarrow> vault \<Rightarrow> vault" where
  "put_file slot f v = v\<lparr>v_files := (v_files v)(slot := Some f)\<rparr>"

definition drop_file :: "byte \<Rightarrow> vault \<Rightarrow> vault" where
  "drop_file slot v = v\<lparr>v_files := (v_files v)(slot := None)\<rparr>"

section \<open>The commands on a vault\<close>

definition written_file :: "platform \<Rightarrow> write_command \<Rightarrow> stored_file" where
  "written_file P cmd = \<lparr>sf_name = take 31 (wc_name cmd) @ [0], sf_group = wc_group_id cmd, sf_uuid = wc_uuid cmd,
     sf_owner = pin_hash P (wc_pin cmd), sf_data = take (unat (wc_contents_len cmd)) (wc_contents cmd)\<rparr>"

definition spec_write :: "platform \<Rightarrow> byte list \<Rightarrow> vault \<Rightarrow> answer \<times> vault" where
  "spec_write P pkt v =
     (let cmd = un_write_command pkt in
      if length pkt < 59 then (Refused ''Packet too short'', v)
      else if \<not> opens P (wc_pin cmd) v then (Refused ''Invalid pin'', v)
      else if \<not> validate_permission P (wc_group_id cmd) PERM_WRITE then (Refused ''Invalid permission'', v)
      else if length pkt - 59 < unat (wc_contents_len cmd) then (Refused ''Packet too short for contents'', v)
      else if \<not> slot_is_valid (wc_slot cmd) then (Refused ''Name store failed'', v)
      else (Answer WRITE_MSG [], put_file (wc_slot cmd) (written_file P cmd) v))"

definition spec_read :: "platform \<Rightarrow> byte list \<Rightarrow> vault \<Rightarrow> answer \<times> vault" where
  "spec_read P pkt v =
     (if length pkt < 7 then (Refused ''Packet too short'', v)
      else if \<not> opens P (segment 0 6 pkt) v then (Refused ''Invalid pin'', v)
      else case v_files v (pkt ! 6) of
        None \<Rightarrow> (Refused ''File not found'', v)
      | Some f \<Rightarrow>
          if \<not> validate_permission P (sf_group f) PERM_READ then (Refused ''Invalid permission'', v)
          else if sf_owner f \<noteq> v_pin v \<or> sf_group f = 0 then (Refused ''Read failed'', v)
          else (Answer READ_MSG (sf_name f @ sf_data f), v))"

definition file_line :: "byte \<Rightarrow> stored_file \<Rightarrow> byte list" where
  "file_line slot f = [slot] @ le16 (sf_group f) @ sf_name f"

definition spec_list :: "platform \<Rightarrow> byte list \<Rightarrow> vault \<Rightarrow> answer \<times> vault" where
  "spec_list P pkt v =
     (if length pkt < 6 then (Refused ''Packet too short'', v)
      else if \<not> opens P (segment 0 6 pkt) v then (Refused ''Invalid pin'', v)
      else (Answer LIST_MSG (list_response
              (map (\<lambda>slot. file_line slot (the (v_files v slot)))
                 (filter (\<lambda>slot. v_files v slot \<noteq> None) slot_list))), v))"

definition spec_delete :: "platform \<Rightarrow> byte list \<Rightarrow> vault \<Rightarrow> answer \<times> vault" where
  "spec_delete P pkt v =
     (if length pkt < 7 then (Refused ''Packet too short'', v)
      else if \<not> opens P (segment 0 6 pkt) v then (Refused ''Invalid pin'', v)
      else if v_files v (pkt ! 6) = None then (Refused ''File not found'', v)
      else (Answer DELETE_FILE_MSG [], drop_file (pkt ! 6) v))"

definition spec_change_pin :: "platform \<Rightarrow> byte list \<Rightarrow> vault \<Rightarrow> answer \<times> vault" where
  "spec_change_pin P pkt v =
     (if length pkt < 12 then (Refused ''Packet too short'', v)
      else if \<not> opens P (segment 0 6 pkt) v then (Refused ''Invalid pin'', v)
      else (Answer CHANGE_PIN_MSG [], v\<lparr>v_pin := pin_hash P (segment 6 6 pkt)\<rparr>))"

section \<open>The vault of a device\<close>

definition platform_good :: "platform \<Rightarrow> bool" where
  "platform_good P \<longleftrightarrow> secrets_ok P \<and> gcm_ok P \<and> flash_ok P \<and> flash_reliable P"

lemma platform_goodD:
  assumes "platform_good P"
  shows "secrets_ok P" "gcm_ok P" "flash_ok P" "flash_reliable P"
  using assms by (simp_all add: platform_good_def)

definition file_at :: "platform \<Rightarrow> hsm \<Rightarrow> byte \<Rightarrow> stored_file \<Rightarrow> bool" where
  "file_at P h slot f \<longleftrightarrow>
     holds_file P h slot (new_name_entry (sf_name f) (sf_group f)) (sf_uuid f) (sf_owner f) (sf_data f) \<and>
     take 31 (sf_name f) @ [0] = sf_name f"

fun slot_shows :: "platform \<Rightarrow> hsm \<Rightarrow> byte \<Rightarrow> stored_file option \<Rightarrow> bool" where
  "slot_shows P h slot None \<longleftrightarrow> \<not> occupied slot h"
| "slot_shows P h slot (Some f) \<longleftrightarrow> file_at P h slot f"

text \<open>The PIN page holds the hash in RAM.\<close>

definition pin_kept :: "hsm \<Rightarrow> bool" where
  "pin_kept h \<longleftrightarrow> fst (pin_load (h_flash h)) = g_pin_hash (h_pin h)"

definition represents :: "platform \<Rightarrow> hsm \<Rightarrow> vault \<Rightarrow> bool" where
  "represents P h v \<longleftrightarrow> hsm_ok h \<and> g_pin_hash (h_pin h) = v_pin v \<and> pin_kept h \<and> tables_synced h \<and>
     (\<forall>slot. slot_shows P h slot (v_files v slot))"

text \<open>
  What the host sees: an error message in full, or an answer. The header of an answer goes out
  whatever the host does, and its contents block by block as the host acknowledges; a host that
  acknowledges every block gets all of it, and the command reports success.
\<close>

definition host_acks :: "nat \<Rightarrow> uart_dev \<Rightarrow> byte option list \<Rightarrow> bool" where
  "host_acks len u rest \<longleftrightarrow> delivers (uart_frame_timeout_ms CONTROL_INTERFACE) (uart_rx u 0)
     (concat (replicate (frame_blocks len) ack_frame)) rest"

definition frame_started :: "byte \<Rightarrow> byte list \<Rightarrow> uart_dev \<Rightarrow> uart_dev \<Rightarrow> bool" where
  "frame_started type bs u u' \<longleftrightarrow>
     (\<exists>n. uart_tx u' 0 = uart_tx u 0 @ msg_header type (of_nat (length bs)) @ take (256 * n) bs) \<and>
     (\<forall>k. k \<noteq> 0 \<longrightarrow> uart_tx u' k = uart_tx u k \<and> uart_rx u' k = uart_rx u k)"

fun answers :: "answer \<Rightarrow> int \<Rightarrow> hsm \<Rightarrow> hsm \<Rightarrow> bool" where
  "answers (Refused msg) rc h h' \<longleftrightarrow> rc = - 1 \<and>
     h_uart h' = add_tx 0 (msg_header ERROR_MSG (of_nat (Suc (length msg))) @ cstr msg @ [10]) (h_uart h)"
| "answers (Answer type bs) rc h h' \<longleftrightarrow> rc \<noteq> - 1 \<and> frame_started type bs (h_uart h) (h_uart h') \<and>
     (\<forall>rest. host_acks (length bs) (h_uart h) rest \<longrightarrow> rc = 0 \<and>
        h_uart h' = add_tx 0 (msg_header type (of_nat (length bs)) @ bs) (set_rx 0 rest (h_uart h)))"

text \<open>Everything of the answer has gone out.\<close>

fun answered_in_full :: "answer \<Rightarrow> hsm \<Rightarrow> hsm \<Rightarrow> bool" where
  "answered_in_full (Refused msg) h h' \<longleftrightarrow> False"
| "answered_in_full (Answer type bs) h h' \<longleftrightarrow>
     uart_tx (h_uart h') 0 = uart_tx (h_uart h) 0 @ msg_header type (of_nat (length bs)) @ bs"

section \<open>The PIN page\<close>

lemma pin_load_cong:
  assumes "\<And>a. sector_of PIN_STATE_FLASH_ADDR a \<Longrightarrow> flash_mem fl' a = flash_mem fl a"
  shows "pin_load fl' = pin_load fl"
proof -
  have "flash_simple_read PIN_STATE_FLASH_ADDR n fl' = flash_simple_read PIN_STATE_FLASH_ADDR n fl" if "n \<le> 1024" for n
    by (intro read_cong assms) (use that in \<open>auto simp: in_range_def sector_of_def PIN_STATE_FLASH_ADDR_def\<close>)
  then show ?thesis by (simp add: pin_load_def load_pin_state_def)
qed

lemma pin_flush_hash:
  assumes "flash_ok P" "flash_reliable P" "length x = 32"
  shows "fst (pin_load (snd (pin_flush P (x, c) fl))) = x"
proof -
  have "pin_flush P (x, c) fl = (0, snd (pin_flush P (x, c) fl))"
    using pin_flush_reliable [OF assms(2), of "(x, c)" fl] by (metis prod.collapse)
  from pin_flush_image [OF assms(1) _ this] pin_load_page [OF assms(3)] assms(3) show ?thesis by simp
qed

definition same_pin_page :: "hsm \<Rightarrow> hsm \<Rightarrow> bool" where
  "same_pin_page h h' \<longleftrightarrow> g_pin_hash (h_pin h') = g_pin_hash (h_pin h) \<and>
     (\<forall>a. sector_of PIN_STATE_FLASH_ADDR a \<longrightarrow> flash_mem (h_flash h') a = flash_mem (h_flash h) a)"

lemma same_pin_page_kept: "same_pin_page h h' \<Longrightarrow> pin_kept h' = pin_kept h"
  using pin_load_cong [of "h_flash h'" "h_flash h"] by (simp add: same_pin_page_def pin_kept_def)

lemma same_pin_page_refl [simp]: "same_pin_page h h"
  by (simp add: same_pin_page_def)

lemma same_pin_page_trans [trans]: "same_pin_page h i \<Longrightarrow> same_pin_page i j \<Longrightarrow> same_pin_page h j"
  by (simp add: same_pin_page_def)

lemma same_pin_page_eq: "h_flash h' = h_flash h \<Longrightarrow> h_pin h' = h_pin h \<Longrightarrow> same_pin_page h h'"
  by (simp add: same_pin_page_def)

lemma pin_page_apart:
  "sector_of PIN_STATE_FLASH_ADDR a \<Longrightarrow> \<not> sector_of BLOB_NAME_TABLE_ADDR a"
  "sector_of PIN_STATE_FLASH_ADDR a \<Longrightarrow> \<not> sector_of SECURE_BLOB_STORE_FAT_ADDR a"
  by (simp_all add: sector_of_def SECURE_BLOB_STORE_FAT_ADDR_def)

lemma same_pin_page_names:
  assumes P: "flash_ok P" and n: "names_ok names" and f: "flush_name_table P names (h_flash h) = (rc, fl)"
    and h': "h' = h\<lparr>h_flash := fl, h_names := ns\<rparr>"
  shows "same_pin_page h h'"
  using name_pg.flush_frame [OF P n f] pin_page_apart(1) by (simp add: same_pin_page_def h')

lemma same_pin_page_save:
  assumes "flash_ok P" "hsm_ok h" "length name = 32" "do_save_name P slot name g h = (rc, h')"
  shows "same_pin_page h h'"
proof (cases "slot_is_valid slot")
  case True
  from assms(4) True obtain fl
    where f: "flush_name_table P ((h_names h)[unat slot := new_name_entry name g]) (h_flash h) = (rc, fl)"
      and h': "h' = h\<lparr>h_flash := fl, h_names := (h_names h)[unat slot := new_name_entry name g]\<rparr>"
    by (rule do_save_name_eq)
  show ?thesis
    by (rule same_pin_page_names [OF assms(1) names_ok_update [OF hsm_ok_names [OF assms(2)] new_name_ok [OF assms(3)]] f h'])
qed (use assms(4) in \<open>simp add: do_save_name_invalid\<close>)

lemma same_pin_page_clear:
  assumes "flash_ok P" "hsm_ok h" "slot_is_valid slot" "do_clear_name P slot h = (rc, h')"
  shows "same_pin_page h h'"
proof -
  from assms(4,3) obtain fl where f: "flush_name_table P ((h_names h)[unat slot := name_erased]) (h_flash h) = (rc, fl)"
    and h': "h' = h\<lparr>h_flash := fl, h_names := (h_names h)[unat slot := name_erased]\<rparr>"
    by (rule do_clear_name_eq)
  show ?thesis
    by (rule same_pin_page_names [OF assms(1) names_ok_update [OF hsm_ok_names [OF assms(2)] name_erased_sel(1)] f h'])
qed

lemma same_pin_page_blob:
  assumes "slot_is_valid slot" "other_slots_kept slot (h_flash h) (h_blob h) fl b"
    and "h' = h\<lparr>h_flash := fl, h_trng := tr, h_blob := b\<rparr> \<or> h' = h\<lparr>h_flash := fl, h_blob := b\<rparr>"
  shows "same_pin_page h h'"
proof -
  have "flash_mem fl a = flash_mem (h_flash h) a" if "sector_of PIN_STATE_FLASH_ADDR a" for a
    using assms(2) slot_not_pin [OF assms(1), of a] pin_page_apart(2) [OF that] that by (auto simp: other_slots_kept_def)
  with assms(3) show ?thesis by (auto simp: same_pin_page_def)
qed

section \<open>Commands that leave the files\<close>

lemma represents_new_pin:
  assumes "represents P h v" "same_store h h'" "hsm_ok h'" "g_pin_hash (h_pin h') = p" "pin_kept h'"
  shows "represents P h' (v\<lparr>v_pin := p\<rparr>)"
proof -
  have "slot_shows P h' slot x" if "slot_shows P h slot x" for slot x
    using that same_store_holds [OF assms(2)] same_store_occupied [OF assms(2)] by (cases x) (simp_all add: file_at_def)
  moreover have "tables_synced h'" using tables_synced_same [OF _ assms(2)] assms(1) by (simp add: represents_def)
  ultimately show ?thesis
    using assms(1,3-5) by (simp add: represents_def)
qed

lemma represents_same:
  assumes "represents P h v" "same_store h h'" "hsm_ok h'" "g_pin_hash (h_pin h') = g_pin_hash (h_pin h)" "pin_kept h'"
  shows "represents P h' v"
  using represents_new_pin [OF assms(1-3), of "v_pin v"] assms by (simp add: represents_def)

lemma represents_io:
  assumes "represents P h v" "same_store h h'" "hsm_ok h'" "h_flash h' = h_flash h" "h_pin h' = h_pin h"
  shows "represents P h' v"
  using represents_same [OF assms(1-3)] same_pin_page_kept [OF same_pin_page_eq [OF assms(4,5)]] assms(1,5)
  by (simp add: represents_def)

lemma represents_say [simp]: "represents P h v \<Longrightarrow> represents P (say m h) v"
  by (rule represents_io) (simp_all add: represents_def)

lemma represents_send:
  assumes "represents P h v" "send i type buf h = Some (rc, h')"
  shows "represents P h' v"
proof -
  obtain u where "h' = h\<lparr>h_uart := u\<rparr>" using send_only_uart [OF assms(2)] by blast
  then have "h_flash h' = h_flash h" "h_pin h' = h_pin h" by simp_all
  with represents_io [OF assms(1) send_keeps(1) [OF assms(2)]] send_keeps(2) [OF assms(2)] assms(1)
  show ?thesis by (simp add: represents_def)
qed

lemma control_handle [simp]: "get_uart_handle CONTROL_INTERFACE = 0"
  by (simp add: get_uart_handle_def CONTROL_INTERFACE_def CONFIG_UART_COUNT_def)

lemma msg_status_ne [simp]: "msg_status_int rc \<noteq> - 1"
  by (cases rc) simp_all

lemma msg_status_zero [simp]: "msg_status_int rc = 0 \<longleftrightarrow> rc = MSG_OK"
  by (cases rc) simp_all

lemma acks_frames [simp]: "acks (replicate n ack_frame)"
  by (simp add: acks_def ack_frame_def msg_header_def le16_def)

text \<open>What \<open>send\<close> puts on the host's line is an answer, whether its result is passed on or not.\<close>

lemma send_answers:
  assumes "send CONTROL_INTERFACE type buf h = Some (st, h')" "needs_ack type" "h_uart h = h_uart h0"
  shows "answers (Answer type buf) (msg_status_int st) h0 h'" "answers (Answer type buf) 0 h0 h'"
    and "st = MSG_OK \<Longrightarrow> answered_in_full (Answer type buf) h0 h'"
proof -
  from assms(1) have w: "write_packet CONTROL_INTERFACE type buf (h_uart h0) = Some (st, h_uart h')"
    using assms(3) by (auto simp: send_def bind_eq_Some_conv)
  have all: "st = MSG_OK \<and> h_uart h' = add_tx 0 (msg_header type (of_nat (length buf)) @ buf) (set_rx 0 rest (h_uart h0))"
    if "host_acks (length buf) (h_uart h0) rest" for rest
    using write_packet_acked [of CONTROL_INTERFACE "h_uart h0" "replicate (frame_blocks (length buf)) ack_frame" rest buf type]
      that assms(2) w by (simp add: host_acks_def)
  have "frame_started type buf (h_uart h0) (h_uart h')"
    using write_packet_blocks [OF w] write_packet_prefix(1) [OF w] by (simp add: frame_started_def sent_prefix_def)
  with all show "answers (Answer type buf) (msg_status_int st) h0 h'" "answers (Answer type buf) 0 h0 h'" by auto
  show "answered_in_full (Answer type buf) h0 h'" if "st = MSG_OK" using write_packet_prefix(2) [OF w that] by simp
qed

lemma reply_sim:
  assumes "represents P h v" "h_uart h = h_uart h0" "needs_ack type"
  shows "done_reply type buf h = Some (rc, h') \<Longrightarrow> represents P h' v \<and> answers (Answer type buf) rc h0 h'"
    and "return_reply type buf h = Some (rc, h') \<Longrightarrow> represents P h' v \<and> answers (Answer type buf) rc h0 h' \<and>
      (rc = 0 \<longrightarrow> answered_in_full (Answer type buf) h0 h')"
proof -
  show "represents P h' v \<and> answers (Answer type buf) rc h0 h'" if "done_reply type buf h = Some (rc, h')"
    using that represents_send [OF assms(1)] send_answers(2) [OF _ assms(3,2)]
    unfolding done_reply_def bind_eq_Some_conv by (auto simp del: answers.simps)
  show "represents P h' v \<and> answers (Answer type buf) rc h0 h' \<and> (rc = 0 \<longrightarrow> answered_in_full (Answer type buf) h0 h')"
    if "return_reply type buf h = Some (rc, h')"
    using that represents_send [OF assms(1)] send_answers(1,3) [OF _ assms(3,2)]
    unfolding return_reply_def bind_eq_Some_conv by (auto simp del: answers.simps answered_in_full.simps)
qed

lemma say_answers [simp]: "h_uart h = h_uart h0 \<Longrightarrow> answers (Refused m) (- 1) h0 (say m h)"
  by (simp add: say_def)

section \<open>The gate\<close>

lemma attempted_kept:
  assumes P: "platform_good P" and h: "hsm_ok h" "pin_kept h"
  shows "pin_kept (attempted P pin h)"
proof -
  have ok: "pin_ok (h_pin h)" using h(1) by (simp add: hsm_ok_def)
  then have "fst (pin_load (snd (pin_flush P (g_pin_hash (h_pin h), c) (h_flash h)))) = g_pin_hash (h_pin h)" for c
    using pin_flush_hash [OF platform_goodD(3,4) [OF P]] by (simp add: pin_ok_def)
  with h(2) show ?thesis
    by (simp add: attempted_def do_check_pin_def check_pin_cases [OF platform_goodD(1) [OF P] ok] pin_kept_def)
qed

lemma represents_attempted:
  assumes "platform_good P" "represents P h v"
  shows "represents P (attempted P pin h) v"
  using represents_same [OF assms(2)] attempted_keeps [OF platform_goodD(3) [OF assms(1)], of h pin]
    attempted_kept [OF assms(1)] assms(2) by (simp add: represents_def)

lemma opens_iff: "represents P h v \<Longrightarrow> pin_matches P pin (h_pin h) \<longleftrightarrow> opens P pin v"
  by (simp add: represents_def opens_def pin_matches_def)

lemma gate_open:
  assumes "platform_good P" "represents P h v"
  shows "pin_gate P (segment 0 6 pkt) h =
    Some (if opens P (segment 0 6 pkt) v then (0, attempted P (segment 0 6 pkt) h)
          else (- 1, say ''Invalid pin'' (attempted P (segment 0 6 pkt) h)))"
  using pin_gate_eq [OF platform_goodD(1) [OF assms(1)], of h "segment 0 6 pkt"] opens_iff [OF assms(2)] assms(2)
  by (simp add: represents_def)

text \<open>What a command leaves when it stops with a message.\<close>

definition simulates :: "platform \<Rightarrow> answer \<times> vault \<Rightarrow> hsm \<Rightarrow> int \<times> hsm \<Rightarrow> bool" where
  "simulates P av h r \<longleftrightarrow> represents P (snd r) (snd av) \<and> answers (fst av) (fst r) h (snd r)"

lemma simulates_fail:
  "represents P h v \<Longrightarrow> h_uart h = h_uart h0 \<Longrightarrow> simulates P (Refused m, v) h0 (- 1, say m h)"
  unfolding simulates_def using say_answers [of h h0 m] by (simp del: answers.simps)

text \<open>A result of 0 that says that all of the answer went out.\<close>

definition simulates_in_full :: "platform \<Rightarrow> answer \<times> vault \<Rightarrow> hsm \<Rightarrow> int \<times> hsm \<Rightarrow> bool" where
  "simulates_in_full P av h r \<longleftrightarrow> simulates P av h r \<and> (fst r = 0 \<longrightarrow> answered_in_full (fst av) h (snd r))"

lemma in_full_fail: "represents P h v \<Longrightarrow> h_uart h = h_uart h0 \<Longrightarrow> simulates_in_full P (Refused m, v) h0 (- 1, say m h)"
  by (simp add: simulates_in_full_def simulates_fail)

lemma in_full_reply:
  assumes "represents P h v" "h_uart h = h_uart h0" "needs_ack type" "return_reply type buf h = Some r"
  shows "simulates_in_full P (Answer type buf, v) h0 r"
  unfolding simulates_in_full_def simulates_def
  using reply_sim(2) [OF assms(1-3), of buf "fst r" "snd r"] assms(4) by (cases r; simp del: answers.simps answered_in_full.simps)

lemma commands_need_acks [simp]:
  "needs_ack LIST_MSG" "needs_ack READ_MSG" "needs_ack WRITE_MSG" "needs_ack DELETE_FILE_MSG" "needs_ack CHANGE_PIN_MSG"
  by (simp_all add: needs_ack_def)

lemma simulates_reply:
  assumes "represents P h v" "h_uart h = h_uart h0" "needs_ack type"
  shows "done_reply type buf h = Some r \<Longrightarrow> simulates P (Answer type buf, v) h0 r"
    and "return_reply type buf h = Some r \<Longrightarrow> simulates P (Answer type buf, v) h0 r"
  unfolding simulates_def using reply_sim [OF assms, of buf "fst r" "snd r"] by (cases r; simp del: answers.simps)+

lemma attempted_uart [simp]: "h_uart (attempted P pin h) = h_uart h"
  by (cases "check_pin P pin (h_flash h) (h_pin h)") (simp add: attempted_def do_check_pin_def)

section \<open>Reading and listing\<close>

lemma file_at_occupied:
  assumes "file_at P h slot f"
  shows "occupied slot h" "slot_is_valid slot"
proof -
  from assms have hf: "slot_is_valid slot" "name_of slot h = new_name_entry (sf_name f) (sf_group f)"
    "g_fat (h_blob h) ! unat slot = blob_entry slot (sf_uuid f) (length (sf_data f))"
    by (auto simp: file_at_def holds_file_def blob_holds_def)
  from slot_base_word [OF hf(1)] hf show "occupied slot h" "slot_is_valid slot"
    by (simp_all add: occupied_def slot_occupied_iff name_of_def new_name_entry_def slot_is_empty_def blob_entry_def)
qed

lemma represents_occupied:
  assumes "represents P h v"
  shows "occupied slot h \<longleftrightarrow> v_files v slot \<noteq> None"
proof -
  have "slot_shows P h slot (v_files v slot)" using assms by (simp add: represents_def)
  then show ?thesis using file_at_occupied by (cases "v_files v slot") auto
qed

lemma represents_file: "represents P h v \<Longrightarrow> v_files v slot = Some f \<Longrightarrow> file_at P h slot f"
  unfolding represents_def by (metis slot_shows.simps(2))

lemma file_at_name:
  "file_at P h slot f \<Longrightarrow> ne_name (name_of slot h) = sf_name f \<and> ne_group_id (name_of slot h) = sf_group f"
  by (simp add: file_at_def holds_file_def new_name_entry_def)

lemma file_at_bounds:
  assumes "file_at P h slot f"
  shows "length (sf_data f) \<le> 8192"
  using assms by (auto simp: file_at_def holds_file_def blob_holds_def blob_stored_def)

lemma full_mask: "(0xFFFFFFFF :: u32) AND ucast (g :: u16) = 0 \<longleftrightarrow> g = 0"
proof -
  have "(0xFFFFFFFF :: u32) = - 1" by simp
  then have "(0xFFFFFFFF :: u32) AND ucast g = ucast g" by (metis and.left_neutral)
  moreover have "(ucast g :: u32) = 0 \<longleftrightarrow> g = 0" by transfer (simp add: take_bit_take_bit)
  ultimately show ?thesis by simp
qed

lemma read_file:
  assumes P: "platform_good P" and h: "hsm_ok h" and f: "file_at P h slot f"
    and r: "blob_read_all P slot owner 0xFFFFFFFF 8192 (h_flash h) (h_blob h) = (rc, out, n, b)"
  shows "blob_ok b \<and> g_fat b = g_fat (h_blob h) \<and>
    (if sf_owner f = owner \<and> sf_group f \<noteq> 0 then rc = SECURE_BLOB_STORE_OK \<and> take n out = sf_data f
     else rc = SECURE_BLOB_STORE_PERMISSION_DENIED)"
proof -
  have bo: "blob_ok (h_blob h)" using h by (simp add: hsm_ok_def)
  have bh: "blob_holds P (h_flash h) (h_blob h) slot (sf_uuid f) (sf_owner f) (ucast (sf_group f)) (sf_data f)"
    using f by (simp add: file_at_def holds_file_def new_name_entry_def)
  note g = full_mask [of "sf_group f"]
  note keep = blob_read_keeps(1) [OF platform_goodD(1) [OF P] bo r]
  show ?thesis
  proof (cases "sf_owner f = owner \<and> sf_group f \<noteq> 0")
    case True
    with g have m: "(0xFFFFFFFF :: u32) AND ucast (sf_group f) \<noteq> 0" by blast
    from blob_write_read_all(1) [OF platform_goodD(1,2) [OF P] bo file_at_occupied(2) [OF f] bh m file_at_bounds [OF f] order.refl] True r
    obtain b' where "(rc, out, n, b) = (SECURE_BLOB_STORE_OK, sf_data f, length (sf_data f), b')" by metis
    with True keep show ?thesis by simp
  next
    case False
    then have "owner \<noteq> sf_owner f \<or> (0xFFFFFFFF :: u32) AND ucast (sf_group f) = 0" using g by blast
    from blob_read_not_allowed [OF platform_goodD(1) [OF P] file_at_occupied(2) [OF f] bh this, of 8192] r
    have "rc = SECURE_BLOB_STORE_PERMISSION_DENIED" by (metis prod.inject)
    with False keep show ?thesis by simp
  qed
qed

lemma represents_read:
  assumes "represents P h v" "blob_ok b" "g_fat b = g_fat (h_blob h)"
  shows "represents P (h\<lparr>h_blob := b\<rparr>) v"
  by (rule represents_io [OF assms(1)]) (use assms in \<open>simp_all add: represents_def hsm_ok_def same_store_def same_flash_def\<close>)

text \<open>A read is its answer, given in a state of the same vault.\<close>

fun give_answer :: "answer \<Rightarrow> hsm \<Rightarrow> (int \<times> hsm) option" where
  "give_answer (Refused m) h = fail m h"
| "give_answer (Answer type bs) h = return_reply type bs h"

lemma read_cmd_eq:
  assumes P: "platform_good P" and h: "represents P h v"
  obtains h1 where "represents P h1 v" "h_uart h1 = h_uart h" "read_cmd P pkt h = give_answer (fst (spec_read P pkt v)) h1"
proof -
  let ?h = "attempted P (segment 0 6 pkt) h" and ?slot = "pkt ! 6"
  have hh: "represents P ?h v" by (rule represents_attempted [OF P h])
  consider "length pkt < 7" | "7 \<le> length pkt" "\<not> opens P (segment 0 6 pkt) v" | "7 \<le> length pkt" "opens P (segment 0 6 pkt) v" by linarith
  then show thesis
  proof cases
    case 1
    then show thesis by (intro that [OF h refl]) (simp add: read_cmd_def spec_read_def READ_COMMAND_SIZE_def)
  next
    case 2
    with gate_open [OF P h, of pkt] have "read_cmd P pkt h = give_answer (fst (spec_read P pkt v)) ?h"
      by (simp add: read_cmd_def spec_read_def READ_COMMAND_SIZE_def)
    with that [OF hh] show thesis by simp
  next
    case go: 3
    have gate: "pin_gate P (segment 0 6 pkt) h = Some (0, ?h)" using gate_open [OF P h, of pkt] go by simp
    have own: "get_pin_hash P (segment 0 6 pkt) = Some (v_pin v)"
      using get_pin_hash_ok [OF platform_goodD(1) [OF P], of "segment 0 6 pkt"] go by (simp add: opens_def)
    show thesis
    proof (cases "v_files v ?slot")
      case None
      with gate go represents_occupied [OF hh, of ?slot] show thesis
        by (intro that [OF hh]) (simp_all add: read_cmd_def spec_read_def READ_COMMAND_SIZE_def Let_def)
    next
      case (Some f)
      note f = represents_file [OF hh Some]
      obtain rc out n b where
        b: "blob_read_all P ?slot (v_pin v) 0xFFFFFFFF 8192 (h_flash ?h) (h_blob ?h) = (rc, out, n, b)" by (metis prod_cases4)
      have ok: "hsm_ok ?h" using hh by (simp add: represents_def)
      note rd = read_file [OF P ok f b]
      note hb = represents_read [OF hh conjunct1 [OF rd] conjunct1 [OF conjunct2 [OF rd]]]
      show thesis
      proof (cases "validate_permission P (sf_group f) PERM_READ")
        case False
        with gate go own represents_occupied [OF hh, of ?slot] Some file_at_name [OF f] show thesis
          by (intro that [OF hh]) (simp_all add: read_cmd_def spec_read_def READ_COMMAND_SIZE_def Let_def)
      next
        case True
        have "read_cmd P pkt h = (if rc \<noteq> SECURE_BLOB_STORE_OK then fail ''Read failed'' (?h\<lparr>h_blob := b\<rparr>)
            else return_reply READ_MSG (sf_name f @ take n out) (?h\<lparr>h_blob := b\<rparr>))"
          using True gate go own represents_occupied [OF hh, of ?slot] Some file_at_name [OF f] b
          by (simp add: read_cmd_def READ_COMMAND_SIZE_def MAX_CONTENTS_SIZE_def Let_def name_of_def)
        with True go Some rd have "read_cmd P pkt h = give_answer (fst (spec_read P pkt v)) (?h\<lparr>h_blob := b\<rparr>)"
          by (auto simp: spec_read_def split: if_splits)
        with that [OF hb] show thesis by simp
      qed
    qed
  qed
qed

lemma spec_read_keeps: "snd (spec_read P pkt v) = v"
  by (simp add: spec_read_def split: option.split)

lemma spec_read_reply: "fst (spec_read P pkt v) = Answer type bs \<Longrightarrow> type = READ_MSG"
  by (auto simp: spec_read_def split: option.splits if_splits)

lemma sim_read:
  assumes P: "platform_good P" and h: "represents P h v" and r: "read_cmd P pkt h = Some r"
  shows "simulates_in_full P (spec_read P pkt v) h r"
proof -
  obtain h1 where h1: "represents P h1 v" "h_uart h1 = h_uart h" "read_cmd P pkt h = give_answer (fst (spec_read P pkt v)) h1"
    by (rule read_cmd_eq [OF P h])
  have s: "spec_read P pkt v = (fst (spec_read P pkt v), v)" using spec_read_keeps [of P pkt v] by (simp add: prod_eq_iff)
  show ?thesis
  proof (cases "fst (spec_read P pkt v)")
    case (Refused m)
    with s h1 r in_full_fail [OF h1(1,2), of m] show ?thesis by auto
  next
    case (Answer type bs)
    with h1(3) r have "return_reply type bs h1 = Some r" by simp
    moreover have "needs_ack type" using spec_read_reply [OF Answer] by simp
    ultimately show ?thesis using in_full_reply [OF h1(1,2)] s Answer by metis
  qed
qed

text \<open>It returns if the host acknowledges the blocks of the answer.\<close>

fun host_follows :: "answer \<Rightarrow> hsm \<Rightarrow> bool" where
  "host_follows (Refused m) h \<longleftrightarrow> True"
| "host_follows (Answer type bs) h \<longleftrightarrow> (\<exists>rest. host_acks (length bs) (h_uart h) rest)"

lemma slot_list_eq: "slot_list = [0, 1, 2, 3, 4, 5, 6, 7]"
  by (simp add: slot_list_def SECURE_BLOB_STORE_MAX_SLOTS_def upt_rec)

lemma length_slot_list: "length (filter p slot_list) \<le> 8"
  using length_filter_le [of p slot_list] by (simp add: slot_list_eq)

lemma generate_list_eq:
  assumes "represents P h v"
  shows "generate_list_files h =
    map (\<lambda>slot. file_line slot (the (v_files v slot))) (filter (\<lambda>slot. v_files v slot \<noteq> None) slot_list)"
proof -
  let ?on = "filter (\<lambda>slot. v_files v slot \<noteq> None) slot_list"
  have "metadata_bytes slot (name_of slot h) = file_line slot (the (v_files v slot))" if "v_files v slot \<noteq> None" for slot
    using that represents_file [OF assms, of slot] file_at_name [of P h slot "the (v_files v slot)"]
    by (auto simp: metadata_bytes_def file_line_def)
  then have "map (\<lambda>slot. metadata_bytes slot (name_of slot h)) ?on = map (\<lambda>slot. file_line slot (the (v_files v slot))) ?on"
    by auto
  then show ?thesis
    using length_slot_list [of "\<lambda>slot. v_files v slot \<noteq> None"]
    by (simp add: generate_list_files_def represents_occupied [OF assms] MAX_FILE_COUNT_def)
qed

lemma sim_list:
  assumes P: "platform_good P" and h: "represents P h v" and r: "list_cmd P pkt h = Some r"
  shows "simulates P (spec_list P pkt v) h r"
proof (cases "length pkt < 6 \<or> \<not> opens P (segment 0 6 pkt) v")
  case True
  with r gate_open [OF P h, of pkt] show ?thesis
    by (auto simp: list_cmd_def spec_list_def LIST_COMMAND_SIZE_def
        intro!: simulates_fail h represents_attempted [OF P])
next
  case False
  let ?h = "attempted P (segment 0 6 pkt) h"
  note hh = represents_attempted [OF P h, of "segment 0 6 pkt"]
  have gate: "pin_gate P (segment 0 6 pkt) h = Some (0, ?h)" using gate_open [OF P h, of pkt] False by simp
  have "list_cmd P pkt h = done_reply LIST_MSG (list_response (generate_list_files ?h)) ?h"
    using False by (simp add: list_cmd_def LIST_COMMAND_SIZE_def gate)
  with r generate_list_eq [OF hh] have "done_reply LIST_MSG (list_response (map (\<lambda>slot. file_line slot (the (v_files v slot)))
      (filter (\<lambda>slot. v_files v slot \<noteq> None) slot_list))) ?h = Some r" by simp
  from simulates_reply(1) [OF hh _ _ this] False show ?thesis by (simp add: spec_list_def)
qed

section \<open>Writing and deleting\<close>

lemma represents_update:
  assumes h: "represents P h v" and h': "hsm_ok h'" "tables_synced h'" and k: "files_kept s h h'"
    and pin: "same_pin_page h h'" and s: "slot_shows P h' s x"
  shows "represents P h' (v\<lparr>v_files := (v_files v)(s := x)\<rparr>)"
proof -
  have "slot_shows P h' slot (v_files v slot)" if "slot \<noteq> s" for slot
  proof -
    have "slot_shows P h slot (v_files v slot)" using h by (simp add: represents_def)
    moreover have "occupied slot h' = occupied slot h"
      using k that by (auto simp: files_kept_def occupied_def slot_occupied_iff name_of_def slot_is_empty_def)
    ultimately show ?thesis
      using files_kept_holds [OF k that] by (cases "v_files v slot") (simp_all add: file_at_def)
  qed
  moreover have "pin_kept h' \<and> g_pin_hash (h_pin h') = v_pin v"
    using h same_pin_page_kept [OF pin] pin by (simp add: represents_def same_pin_page_def)
  ultimately show ?thesis using h' s by (simp add: represents_def)
qed

lemma blob_write_reliable:
  assumes P: "platform_good P" and b: "blob_ok b"
    and arg: "length uuid = 16" "length owner = 32" "length data \<le> 8192" "g \<le> 0xFFFF" "find_write_slot slot b = Inr s"
    and w: "blob_write P slot data uuid owner g fl tr b = Some (rc, fl', tr', b')"
  shows "rc = SECURE_BLOB_STORE_OK"
proof -
  from platform_goodD(1) [OF P] arg(3,5) w obtain nonce where "security_generate_nonce 12 tr = Some (Some nonce, tr')"
    by (rule blob_write_steps) (use arg(4) in auto)
  then have "12 \<le> 4 * length (trng_words (trng_polls tr))"
    using trng_read_iff [of 12 tr nonce] by (auto simp: security_generate_nonce_def bind_eq_Some_conv split: if_splits)
  then have "3 \<le> length (trng_words (trng_polls tr))" by simp
  from blob_write_succeeds [OF platform_goodD(1,2,4) [OF P] b arg this, of fl] w show ?thesis by (metis option.inject prod.inject)
qed

lemma flush_names_reliable: "flash_reliable P \<Longrightarrow> fst (flush_name_table P names fl) = 0"
  using erase_reliable [of P BLOB_NAME_TABLE_ADDR fl] write_reliable [of P BLOB_NAME_TABLE_ADDR]
  by (auto simp: flush_name_table_def Let_def split_def)

lemma ucast_le_mask: "(ucast (g :: u16) :: u32) \<le> 0xFFFF"
proof -
  have "unat (ucast g :: u32) = unat g" by transfer (simp add: take_bit_take_bit)
  moreover have "unat g < 65536" using unsigned_less [of g, where 'a = nat] by simp
  ultimately show ?thesis by (simp add: word_le_nat_alt)
qed

lemma store_blob_reliable:
  assumes P: "platform_good P" and h: "hsm_ok h" and s: "slot_is_valid slot"
    and arg: "6 \<le> length pin" "length name = 32" "length uuid = 16" "length contents \<le> 8192"
    and r: "store_blob P slot pin name g uuid contents h = Some (rc, h')"
  shows "rc = 0 \<and> same_pin_page h h'"
  using platform_goodD(1) [OF P] arg(1) r
proof (cases rule: store_blob_cases)
  case (1 h1 rc1)
  then have "rc1 = 0"
    using flush_names_reliable [OF platform_goodD(4) [OF P]] save_name_cases [OF s, of P name g "h_flash h" "h_names h"]
    by (auto simp: do_save_name_def split: prod.splits) (metis fst_conv)
  with 1 show ?thesis by simp
next
  case (2 h1 h2 h3 rc2 rc3)
  note n = save_name_keeps [OF platform_goodD(3) [OF P] h arg(2) 2(1)]
  have "rc2 = SECURE_BLOB_STORE_OK"
    using 2(2) n(1) by (auto simp: do_blob_write_def bind_eq_Some_conv hsm_ok_def
      intro: blob_write_reliable [OF P _ arg(3) length_pin_hash arg(4) ucast_le_mask find_own_slot [OF s]])
  with 2 show ?thesis by simp
next
  case (3 h1)
  note n = save_name_keeps [OF platform_goodD(3) [OF P] h arg(2) 3(1)]
  from 3(3) obtain fl tr b where w: "blob_write P slot contents uuid (pin_hash P (take 6 pin)) (ucast g) (h_flash h1) (h_trng h1) (h_blob h1)
      = Some (SECURE_BLOB_STORE_OK, fl, tr, b)" and h': "h' = h1\<lparr>h_flash := fl, h_trng := tr, h_blob := b\<rparr>"
    by (auto simp: do_blob_write_def bind_eq_Some_conv)
  have "blob_ok (h_blob h1)" using n(1) by (simp add: hsm_ok_def)
  from blob_write_others [OF platform_goodD(1-3) [OF P] this arg(3) length_pin_hash arg(4) find_own_slot [OF s] w]
  have "same_pin_page h1 h'" using same_pin_page_blob [OF s] h' by blast
  with 3 same_pin_page_trans [OF same_pin_page_save [OF platform_goodD(3) [OF P] h arg(2) 3(1)]] show ?thesis by simp
qed

lemma store_blob_invalid:
  assumes "secrets_ok P" "\<not> slot_is_valid slot" "6 \<le> length pin"
  shows "store_blob P slot pin name g uuid contents h = Some (- 1, say ''Name store failed'' h)"
  using get_pin_hash_ok [OF assms(1), of "take 6 pin"] assms(3)
  by (simp add: store_blob_def PIN_LENGTH_def do_save_name_invalid [OF assms(2)])

lemma store_sim:
  assumes P: "platform_good P" and h: "represents P h v" and s: "slot_is_valid slot"
    and arg: "length pin = 6" "length name = 32" "length uuid = 16" "length contents \<le> 8192"
    and r: "store_blob P slot pin name g uuid contents h = Some (rc, h')"
  shows "rc = 0 \<and> h_uart h' = h_uart h \<and> represents P h'
    (put_file slot \<lparr>sf_name = take 31 name @ [0], sf_group = g, sf_uuid = uuid, sf_owner = pin_hash P pin,
       sf_data = contents\<rparr> v)"
proof -
  let ?f = "\<lparr>sf_name = take 31 name @ [0], sf_group = g, sf_uuid = uuid, sf_owner = pin_hash P pin, sf_data = contents\<rparr>"
  have ok: "hsm_ok h" using h by (simp add: represents_def)
  have pin: "6 \<le> length pin" using arg(1) by simp
  note rel = store_blob_reliable [OF P ok s pin arg(2-4) r]
  note k = store_blob_keeps [OF platform_goodD(1-3) [OF P] ok pin arg(2-4) r]
  have "new_name_entry (take 31 name @ [0]) g = new_name_entry name g"
    using arg(2) by (simp add: new_name_entry_def)
  with k rel have "slot_shows P h' slot (Some ?f)" using arg(1,2) by (simp add: file_at_def)
  with represents_update [OF h _ _ _ _ this] k rel show ?thesis by (simp add: put_file_def)
qed

lemma wc_pin_eq: "wc_pin (un_write_command pkt) = segment 0 6 pkt"
  by (simp add: un_write_command_def)

lemma write_parts:
  assumes "59 \<le> length pkt"
  shows "length (wc_pin (un_write_command pkt)) = 6" "length (wc_name (un_write_command pkt)) = 32"
    and "length (wc_uuid (un_write_command pkt)) = 16"
  using assms by (simp_all add: un_write_command_def)

lemma sim_write:
  assumes P: "platform_good P" and h: "represents P h v" and len: "length pkt \<le> 8251"
    and r: "write_cmd P pkt h = Some r"
  shows "simulates P (spec_write P pkt v) h r"
proof (cases "length pkt < 59 \<or> \<not> opens P (segment 0 6 pkt) v")
  case True
  with r gate_open [OF P h, of pkt] show ?thesis
    by (auto simp: write_cmd_def spec_write_def WRITE_CMD_MIN_LEN_def WRITE_COMMAND_SIZE_def MAX_CONTENTS_SIZE_def
        Let_def wc_pin_eq intro!: simulates_fail h represents_attempted [OF P])
next
  case False
  let ?h = "attempted P (segment 0 6 pkt) h" and ?c = "un_write_command pkt"
  note hh = represents_attempted [OF P h, of "segment 0 6 pkt"]
  from False have parts: "length (wc_pin ?c) = 6" "length (wc_name ?c) = 32" "length (wc_uuid ?c) = 16"
    "wc_pin ?c = segment 0 6 pkt" using write_parts [of pkt] wc_pin_eq by simp_all
  have gate: "pin_gate P (segment 0 6 pkt) h = Some (0, ?h)" using gate_open [OF P h, of pkt] False by simp
  show ?thesis
  proof (cases "validate_permission P (wc_group_id ?c) PERM_WRITE \<and> unat (wc_contents_len ?c) \<le> length pkt - 59")
    case no: False
    with False r gate parts show ?thesis
      by (auto simp: write_cmd_def spec_write_def WRITE_CMD_MIN_LEN_def WRITE_COMMAND_SIZE_def MAX_CONTENTS_SIZE_def
        Let_def intro!: simulates_fail hh)
  next
    case yes: True
    let ?data = "take (unat (wc_contents_len ?c)) (wc_contents ?c)"
    have w: "write_cmd P pkt h = do { (rc, h) \<leftarrow> store_blob P (wc_slot ?c) (wc_pin ?c) (wc_name ?c) (wc_group_id ?c)
        (wc_uuid ?c) ?data ?h; if rc \<noteq> 0 then Some (rc, h) else done_reply WRITE_MSG [] h }"
      using False yes gate parts
      by (simp add: write_cmd_def WRITE_CMD_MIN_LEN_def WRITE_COMMAND_SIZE_def MAX_CONTENTS_SIZE_def Let_def)
    show ?thesis
    proof (cases "slot_is_valid (wc_slot ?c)")
      case slot: True
      from r [unfolded w] obtain rc h' where st: "store_blob P (wc_slot ?c) (wc_pin ?c) (wc_name ?c) (wc_group_id ?c) (wc_uuid ?c) ?data ?h
          = Some (rc, h')" and d: "(if rc \<noteq> 0 then Some (rc, h') else done_reply WRITE_MSG [] h') = Some r"
        by (auto simp: bind_eq_Some_conv)
      have "length ?data \<le> 8192" using yes len by (auto simp: min_def)
      from store_sim [OF P hh slot parts(1-3) this st] d
      have d': "done_reply WRITE_MSG [] h' = Some r" and u: "h_uart h' = h_uart h"
        and "represents P h' (put_file (wc_slot ?c) (written_file P ?c) v)"
        by (auto simp: written_file_def)
      from simulates_reply(1) [OF this(3,2) commands_need_acks(3) d'] False yes slot parts show ?thesis by (simp add: spec_write_def Let_def)
    next
      case slot: False
      with r w store_blob_invalid [OF platform_goodD(1) [OF P] slot] parts(1) have "r = (- 1, say ''Name store failed'' ?h)" by simp
      with False yes slot parts show ?thesis by (auto simp: spec_write_def Let_def intro: simulates_fail [OF hh])
    qed
  qed
qed

lemma deleted_keeps:
  assumes P: "platform_good P" and h: "hsm_ok h" and s: "slot_is_valid slot"
    and d: "blob_delete P slot (h_flash h) (h_blob h) = (SECURE_BLOB_STORE_OK, fl, b)"
    and c: "do_clear_name P slot (h\<lparr>h_flash := fl, h_blob := b\<rparr>) = (rc, h')"
  shows "hsm_ok h'" "tables_synced h'" "files_kept slot h h'" "same_pin_page h h'"
    and "\<not> occupied slot h'" "h_uart h' = h_uart h" "rc = 0"
proof -
  let ?h1 = "h\<lparr>h_flash := fl, h_blob := b\<rparr>"
  have bo: "blob_ok (h_blob h)" using h by (simp add: hsm_ok_def)
  from blob_delete_others [OF platform_goodD(3) [OF P] bo d]
  have oth: "other_slots_kept slot (h_flash h) (h_blob h) fl b" and ok1: "hsm_ok ?h1" using h by (simp_all add: hsm_ok_def)
  note k = clear_name_keeps [OF platform_goodD(3) [OF P] ok1 s c]
  show "hsm_ok h'" "\<not> occupied slot h'" by (rule k)+
  show "h_uart h' = h_uart h" using k(3) by simp
  have f: "fst (flush_name_table P ns fl') = 0" for ns fl' by (rule flush_names_reliable [OF platform_goodD(4) [OF P]])
  from do_clear_name_eq [OF c s] f show rc: "rc = 0" by (metis fst_conv)
  show "tables_synced h'" using k(8) [OF rc] blob_delete_ok(3) [OF platform_goodD(3) [OF P] bo d] by simp
  show "same_pin_page h h'"
    using same_pin_page_trans [OF same_pin_page_blob [OF s oth] same_pin_page_clear [OF platform_goodD(3) [OF P] ok1 s c]] by blast
  have ne: "unat j \<noteq> unat slot" if "j \<noteq> slot" for j :: byte using that by (simp add: word_unat_eq_iff)
  have "flash_mem fl a = flash_mem (h_flash h) a" if "j \<noteq> slot" "slot_is_valid j" "in_slot j a" for j a
    using oth slots_disjoint [OF that(3), of slot] slot_not_fat [OF that(2,3)] that(1) by (auto simp: other_slots_kept_def)
  with ne oth have "files_kept slot h ?h1" by (auto simp: files_kept_def name_of_def other_slots_kept_def)
  from files_kept_trans [OF this k(2)] show "files_kept slot h h'" .
qed

lemma sim_delete:
  assumes P: "platform_good P" and h: "represents P h v" and r: "delete_file P pkt h = Some r"
  shows "simulates P (spec_delete P pkt v) h r"
proof (cases "length pkt < 7 \<or> \<not> opens P (segment 0 6 pkt) v")
  case True
  with r gate_open [OF P h, of pkt] show ?thesis
    by (auto simp: delete_file_def spec_delete_def DELETE_COMMAND_SIZE_def
        intro!: simulates_fail h represents_attempted [OF P])
next
  case False
  let ?h = "attempted P (segment 0 6 pkt) h" and ?slot = "pkt ! 6"
  note hh = represents_attempted [OF P h, of "segment 0 6 pkt"]
  have gate: "pin_gate P (segment 0 6 pkt) h = Some (0, ?h)" using gate_open [OF P h, of pkt] False by simp
  have ok: "hsm_ok ?h" and bo: "blob_ok (h_blob ?h)" using hh by (simp_all add: represents_def hsm_ok_def)
  show ?thesis
  proof (cases "v_files v ?slot")
    case None
    with r gate False represents_occupied [OF hh, of ?slot] show ?thesis
      by (auto simp: delete_file_def spec_delete_def DELETE_COMMAND_SIZE_def Let_def intro: simulates_fail [OF hh])
  next
    case (Some f)
    note f = file_at_occupied [OF represents_file [OF hh Some]]
    obtain fl b where d: "blob_delete P ?slot (h_flash ?h) (h_blob ?h) = (SECURE_BLOB_STORE_OK, fl, b)"
      using blob_delete_reliable [OF platform_goodD(4) [OF P] bo f(2), of "h_flash ?h"] f(1)
      by (metis occupied_def slot_occupied_iff prod.collapse)
    let ?h1 = "?h\<lparr>h_flash := fl, h_blob := b\<rparr>"
    obtain rc h2 where c: "do_clear_name P ?slot ?h1 = (rc, h2)" by fastforce
    note oth = blob_delete_others [OF platform_goodD(3) [OF P] bo d]
    note k = deleted_keeps [OF P ok f(2) d c]
    from simulates_reply(1) [OF represents_update [OF hh k(1,2,3,4), where x = None] _ commands_need_acks(4), of h "[]" r]
      r gate False represents_occupied [OF hh, of ?slot] Some d c k
    show ?thesis
      by (simp add: delete_file_def spec_delete_def DELETE_COMMAND_SIZE_def Let_def drop_file_def)
  qed
qed

section \<open>Changing the PIN\<close>

lemma change_pin_effect:
  assumes P: "platform_good P" and h: "represents P h v" and len: "length old = 6" "length new = 6"
    and c: "pin_change P old new (h_flash h) (h_pin h) = (rc, fl, s)"
  shows "(rc = 0 \<longleftrightarrow> opens P old v) \<and>
    represents P (h\<lparr>h_flash := fl, h_pin := s\<rparr>) (if opens P old v then v\<lparr>v_pin := pin_hash P new\<rparr> else v)"
proof -
  let ?h = "h\<lparr>h_flash := fl, h_pin := s\<rparr>"
  have ok: "pin_ok (h_pin h)" and l: "length (v_pin v) = 32" using h by (auto simp: represents_def hsm_ok_def pin_ok_def)
  note cc = c [unfolded pin_change_cases [OF platform_goodD(1) [OF P] ok, of old new, simplified len, simplified] opens_iff [OF h]]
  have hash: "g_pin_hash (h_pin h) = v_pin v" using h by (simp add: represents_def)
  have fl: "\<exists>x c. fl = snd (pin_flush P (x, c) (h_flash h)) \<and> length x = 32 \<and> x = g_pin_hash s"
    using cc l hash by (auto split: if_splits)
  then obtain x n where x: "fl = snd (pin_flush P (x, n) (h_flash h))" "length x = 32" "g_pin_hash s = x" by auto
  have "flash_mem fl a = flash_mem (h_flash h) a" if "\<not> sector_of PIN_STATE_FLASH_ADDR a" for a
    using pin_flush_frame [OF platform_goodD(3) [OF P] _ _ that, of "(x, n)" "h_flash h"] x(1,2)
    by (cases "pin_flush P (x, n) (h_flash h)") simp
  then have same: "same_store h ?h" by (simp add: same_store_def same_flash_def)
  have okh: "hsm_ok ?h" using h cc by (auto simp: represents_def hsm_ok_def pin_ok_def split: if_splits)
  have kept: "pin_kept ?h" using pin_flush_hash [OF platform_goodD(3,4) [OF P] x(2)] x by (simp add: pin_kept_def)
  have "g_pin_hash s = (if opens P old v then pin_hash P new else v_pin v)" using cc hash by (auto split: if_splits)
  moreover have "rc = 0 \<longleftrightarrow> opens P old v"
    using cc pin_flush_reliable [OF platform_goodD(4) [OF P]] by (auto split: if_splits)
  moreover have "represents P ?h (v\<lparr>v_pin := g_pin_hash s\<rparr>)" by (rule represents_new_pin [OF h same okh _ kept]) simp
  ultimately show ?thesis by (cases "opens P old v") simp_all
qed

lemma sim_change_pin:
  assumes P: "platform_good P" and h: "represents P h v" and r: "change_pin P pkt h = Some r"
  shows "simulates P (spec_change_pin P pkt v) h r"
proof (cases "length pkt < 12")
  case True
  with r h show ?thesis by (auto simp: change_pin_def spec_change_pin_def CHANGE_PIN_COMMAND_SIZE_def intro: simulates_fail)
next
  case False
  obtain rc fl s where c: "pin_change P (segment 0 6 pkt) (segment 6 6 pkt) (h_flash h) (h_pin h) = (rc, fl, s)"
    by (metis prod_cases3)
  from change_pin_effect [OF P h _ _ c] False have e: "rc = 0 \<longleftrightarrow> opens P (segment 0 6 pkt) v"
    and hh: "represents P (h\<lparr>h_flash := fl, h_pin := s\<rparr>)
      (if opens P (segment 0 6 pkt) v then v\<lparr>v_pin := pin_hash P (segment 6 6 pkt)\<rparr> else v)" by simp_all
  have "h_uart (h\<lparr>h_flash := fl, h_pin := s\<rparr>) = h_uart h" by simp
  note sim = simulates_fail [OF hh this, of "''Invalid pin''"] simulates_reply(1) [OF hh this commands_need_acks(5), of "[]" r]
  show ?thesis
  proof (cases "opens P (segment 0 6 pkt) v")
    case True
    with sim(2) r False c e show ?thesis
      by (simp add: change_pin_def spec_change_pin_def CHANGE_PIN_COMMAND_SIZE_def pin_is_locked_def)
  next
    case no: False
    with sim(1) r False c e show ?thesis
      by (auto simp: change_pin_def spec_change_pin_def CHANGE_PIN_COMMAND_SIZE_def pin_is_locked_def)
  qed
qed

section \<open>A write completes\<close>

lemma done_returns:
  assumes "needs_ack type"
    and "delivers (uart_frame_timeout_ms CONTROL_INTERFACE) (uart_rx (h_uart h) 0)
      (concat (replicate (frame_blocks (length buf)) ack_frame)) rest"
  shows "\<exists>h'. done_reply type buf h = Some (0, h')" "\<exists>r. return_reply type buf h = Some r"
  using write_packet_acked [of CONTROL_INTERFACE "h_uart h" "replicate (frame_blocks (length buf)) ack_frame" rest buf type] assms
  by (simp_all add: done_reply_def return_reply_def send_def)

lemma store_returns:
  assumes P: "platform_good P" and h: "hsm_ok h" and s: "slot_is_valid slot"
    and arg: "length pin = 6" "length name = 32" "length uuid = 16" "length contents \<le> 8192"
    and w: "3 \<le> length (trng_words (trng_polls (h_trng h)))"
  shows "\<exists>r. store_blob P slot pin name g uuid contents h = Some r"
proof -
  obtain rc h1 where n: "do_save_name P slot name g h = (rc, h1)" by fastforce
  note k = save_name_keeps(1) [OF platform_goodD(3) [OF P] h arg(2) n]
  have tr: "h_trng h1 = h_trng h" using n s by (auto elim: do_save_name_eq)
  have bo: "blob_ok (h_blob h1)" using k by (simp add: hsm_ok_def)
  obtain fl tr' b where "blob_write P slot contents uuid (pin_hash P pin) (ucast g) (h_flash h1) (h_trng h1) (h_blob h1)
      = Some (SECURE_BLOB_STORE_OK, fl, tr', b)"
    by (rule blob_write_succeeds [OF platform_goodD(1,2,4) [OF P] bo arg(3) length_pin_hash arg(4) ucast_le_mask
          find_own_slot [OF s]]) (use w tr in simp_all)
  then show ?thesis
    using n get_pin_hash_ok [OF platform_goodD(1) [OF P], of pin] arg(1)
    by (simp add: store_blob_def do_blob_write_def PIN_LENGTH_def split: prod.splits)
qed

lemma write_goes_through:
  assumes "platform_good P" "represents P h v" "cmd = un_write_command pkt"
    and "WRITE_CMD_MIN_LEN + unat (wc_contents_len cmd) \<le> length pkt" "length pkt \<le> WRITE_COMMAND_SIZE"
    and "opens P (wc_pin cmd) v" "validate_permission P (wc_group_id cmd) PERM_WRITE" "slot_is_valid (wc_slot cmd)"
    and "3 \<le> length (trng_words (trng_polls (h_trng h)))"
    and "delivers (uart_frame_timeout_ms CONTROL_INTERFACE) (uart_rx (h_uart h) 0) ack_frame rest"
  shows "\<exists>h'. write_cmd P pkt h = Some (0, h') \<and> represents P h' (put_file (wc_slot cmd) (written_file P cmd) v)"
proof -
  let ?c = "un_write_command pkt" and ?h = "attempted P (segment 0 6 pkt) h"
  note [simp] = WRITE_CMD_MIN_LEN_def WRITE_COMMAND_SIZE_def MAX_CONTENTS_SIZE_def wc_pin_eq
  note hh = represents_attempted [OF assms(1,2), of "segment 0 6 pkt"]
  have len: "59 \<le> length pkt" "unat (wc_contents_len ?c) \<le> length pkt - 59" using assms(3,4) by auto
  have ok: "hsm_ok ?h" "h_trng ?h = h_trng h" "hsm_ok h" using hh assms(2)
    attempted_keeps(4) [OF platform_goodD(3) [OF assms(1)]] by (auto simp: represents_def)
  have gate: "pin_gate P (segment 0 6 pkt) h = Some (0, ?h)"
    using gate_open [OF assms(1,2), of pkt] assms(3,6) by simp
  have v: "slot_is_valid (wc_slot ?c)" using assms(3,8) by simp
  have d: "length (take (unat (wc_contents_len ?c)) (wc_contents ?c)) \<le> 8192" using len assms(5) by (auto simp: min_def)
  have parts: "length (wc_pin ?c) = 6" "length (wc_name ?c) = 32" "length (wc_uuid ?c) = 16"
    using write_parts [OF len(1)] by simp_all
  from store_returns [OF assms(1) ok(1) v parts d] assms(9) ok(2) obtain rc h1 where
    st: "store_blob P (wc_slot ?c) (wc_pin ?c) (wc_name ?c) (wc_group_id ?c) (wc_uuid ?c)
      (take (unat (wc_contents_len ?c)) (wc_contents ?c)) ?h = Some (rc, h1)" by (metis prod.collapse)
  from store_sim [OF assms(1) hh v parts d st] have s: "rc = 0" "h_uart h1 = h_uart h"
    "represents P h1 (put_file (wc_slot ?c) (written_file P ?c) v)" by (simp_all add: written_file_def)
  from done_returns(1) [of WRITE_MSG h1 "[]" rest] s(2) assms(10) obtain h2 where
    dn: "done_reply WRITE_MSG [] h1 = Some (0, h2)" by (auto simp: needs_ack_def frame_blocks_def)
  have "write_cmd P pkt h = Some (0, h2)"
    using len gate assms(3,7) st s(1) dn by (simp add: write_cmd_def Let_def)
  with reply_sim(1) [OF s(3) refl commands_need_acks(3) dn] assms(3) show ?thesis by blast
qed

lemma read_returns:
  assumes P: "platform_good P" and h: "represents P h v" and a: "host_follows (fst (spec_read P pkt v)) h"
  shows "\<exists>r. read_cmd P pkt h = Some r"
proof -
  obtain h1 where h1: "h_uart h1 = h_uart h" "read_cmd P pkt h = give_answer (fst (spec_read P pkt v)) h1"
    by (rule read_cmd_eq [OF P h])
  show ?thesis
  proof (cases "fst (spec_read P pkt v)")
    case (Answer type bs)
    with a obtain rest where "host_acks (length bs) (h_uart h1) rest" using h1(1) by auto
    with done_returns(2) [of type h1 bs rest] spec_read_reply [OF Answer] h1(2) Answer show ?thesis
      by (simp add: host_acks_def)
  qed (use h1(2) in simp)
qed

section \<open>A device with no files\<close>

lemma ref_platform_good: "platform_good ref_platform"
  by (simp add: platform_good_def ref_ok)

lemma concat_replicate_replicate: "concat (replicate n (replicate m x)) = replicate (n * m) x"
  by (induction n) (simp_all add: replicate_add)

lemma read_blank: "flash_simple_read addr n ref_flash_dev = replicate n 0xFF"
  by (simp add: ref_flash_dev_def flash_simple_read_def map_replicate_const)

definition ref_names :: "name_entry list" where
  "ref_names = replicate 8 name_erased"

lemma blank_tables: "fat_pg.holds (g_fat ref_blob) ref_flash_dev" "name_pg.holds ref_names ref_flash_dev"
proof -
  have "fat_bytes fat_erased = replicate 24 0xFF" "name_bytes name_erased = replicate 64 0xFF"
    by (simp_all add: fat_erased_def name_erased_def fatc.enc_dec namec.enc_dec)
  moreover have "names_ok ref_names" by (simp add: names_ok_def ref_names_def)
  moreover have "fat_ok (g_fat ref_blob)" using ref_blob_ok by (simp add: blob_ok_def)
  ultimately show "fat_pg.holds (g_fat ref_blob) ref_flash_dev" "name_pg.holds ref_names ref_flash_dev"
    by (simp_all add: fat_pg.holds_def name_pg.holds_def read_blank fat_image_def name_page_eq
        ref_blob_def ref_names_def concat_replicate_replicate flip: replicate_add)
qed

definition ref_hsm :: "byte list \<Rightarrow> hsm" where
  "ref_hsm line = \<lparr>h_flash = snd (pin_flush ref_platform (g_pin_hash ref_pin, 0) ref_flash_dev), h_trng = ref_trng,
     h_uart = ref_line line, h_replay = ref_replay, h_pin = ref_pin, h_blob = ref_blob, h_names = ref_names\<rparr>"

definition ref_vault :: vault where
  "ref_vault = \<lparr>v_pin = g_pin_hash ref_pin, v_files = (\<lambda>_. None)\<rparr>"

lemma ref_hsm_ok: "hsm_ok (ref_hsm line)"
  by (simp add: hsm_ok_def ref_hsm_def ref_pin_ok ref_blob_ok ref_replay_inv names_ok_def ref_names_def)

lemma ref_represents: "represents ref_platform (ref_hsm line) ref_vault"
proof -
  have l: "length (g_pin_hash ref_pin) = 32" using ref_pin_ok by (simp add: pin_ok_def)
  have "flash_mem (h_flash (ref_hsm line)) a = flash_mem ref_flash_dev a" if "\<not> sector_of PIN_STATE_FLASH_ADDR a" for a
    using pin_flush_frame [OF ref_flash _ _ that, of "(g_pin_hash ref_pin, 0)" ref_flash_dev] l
    by (cases "pin_flush ref_platform (g_pin_hash ref_pin, 0) ref_flash_dev") (simp add: ref_hsm_def)
  with fat_pg.holds_other [OF blank_tables(1), of PIN_STATE_FLASH_ADDR] name_pg.holds_other [OF blank_tables(2), of PIN_STATE_FLASH_ADDR]
  have "tables_synced (ref_hsm line)" by (simp add: tables_synced_def) (simp add: ref_hsm_def)
  moreover have "pin_kept (ref_hsm line)"
    using pin_flush_hash [OF ref_flash ref_reliable l] by (simp add: pin_kept_def ref_hsm_def)
  moreover have "\<not> occupied slot (ref_hsm line)" for slot
    by (cases "unat slot < 8") (simp_all add: occupied_def slot_occupied_iff ref_hsm_def ref_names_def valid_slot NAME_IN_USE_TAG_def)
  ultimately show ?thesis
    using ref_hsm_ok by (simp add: represents_def ref_vault_def) (simp add: ref_hsm_def)
qed

text \<open>A write packet: three bytes for slot 2 in group 5, with the right PIN.\<close>

definition ref_write_pkt :: "byte list" where
  "ref_write_pkt = [49, 50, 51, 52, 53, 54] @ [2] @ le16 5 @ replicate 32 97 @ replicate 16 1 @ le16 3 @ [10, 20, 30]"

lemma ref_write_parts:
  "length ref_write_pkt = 62" "segment 0 6 ref_write_pkt = [49, 50, 51, 52, 53, 54]"
  "un_write_command ref_write_pkt = \<lparr>wc_pin = [49, 50, 51, 52, 53, 54], wc_slot = 2, wc_group_id = 5,
     wc_name = replicate 32 97, wc_uuid = replicate 16 1, wc_contents_len = 3, wc_contents = [10, 20, 30]\<rparr>"
  by (simp_all add: ref_write_pkt_def un_write_command_def segment_def)

lemma ref_opens: "opens ref_platform [49, 50, 51, 52, 53, 54] ref_vault"
  by (simp add: opens_def ref_vault_def ref_pin_def)

lemma ref_permitted: "validate_permission ref_platform 5 PERM_WRITE" "validate_permission ref_platform 5 PERM_READ"
  by (simp_all add: validate_permission_def ref_platform_def ref_permissions_def MAX_PERMS_def)

section \<open>Properties\<close>

text \<open>
  C2: Every write packet, well formed or not, does to the device exactly what the specification
  says of its vault: the file is stored under the sender's PIN if PIN, permission, lengths and
  slot are right, and otherwise nothing of any file, the PIN or the tables changes and the
  message says why.
\<close>

theorem write_refines:
  assumes "platform_good P" "represents P h v" "length pkt \<le> WRITE_COMMAND_SIZE" "write_cmd P pkt h = Some (rc, h')"
  shows "represents P h' (snd (spec_write P pkt v)) \<and> answers (fst (spec_write P pkt v)) rc h h'"
  using sim_write [OF assms(1,2) _ assms(4)] assms(3) by (simp add: simulates_def WRITE_COMMAND_SIZE_def)

text \<open>
  C3: A read answers the name and the whole contents of the file last stored in the slot if the
  PIN is right, the device may read the group, and the file was stored under this PIN; otherwise
  it answers the matching error. It returns if the host acknowledges the blocks of the answer;
  then the host gets all of it and nothing else and the command returns 0. It returns 0 only when
  the whole answer went out, and it changes no file.
\<close>

theorem read_refines:
  assumes "platform_good P" "represents P h v"
  shows "(host_follows (fst (spec_read P pkt v)) h \<longrightarrow> (\<exists>r. read_cmd P pkt h = Some r)) \<and>
    (\<forall>rc h'. read_cmd P pkt h = Some (rc, h') \<longrightarrow>
       represents P h' (snd (spec_read P pkt v)) \<and> answers (fst (spec_read P pkt v)) rc h h' \<and>
       (rc = 0 \<longrightarrow> answered_in_full (fst (spec_read P pkt v)) h h'))"
  using read_returns [OF assms, of pkt] sim_read [OF assms, of pkt] unfolding simulates_in_full_def simulates_def by fastforce

text \<open>
  A list answers slot, group and name of exactly the files of the vault, in slot order, and
  only with the right PIN; it changes no file.
\<close>

theorem list_refines:
  assumes "platform_good P" "represents P h v" "list_cmd P pkt h = Some (rc, h')"
  shows "represents P h' (snd (spec_list P pkt v)) \<and> answers (fst (spec_list P pkt v)) rc h h'"
  using sim_list [OF assms] by (simp add: simulates_def)

text \<open>
  C34: A write with the right PIN and permission to a valid slot completes and reports success,
  if the flash works, the generator delivers a nonce and the host acknowledges.
\<close>

theorem write_completes:
  assumes "platform_good P" "represents P h v" "cmd = un_write_command pkt"
    and "WRITE_CMD_MIN_LEN + unat (wc_contents_len cmd) \<le> length pkt" "length pkt \<le> WRITE_COMMAND_SIZE"
    and "opens P (wc_pin cmd) v" "validate_permission P (wc_group_id cmd) PERM_WRITE" "slot_is_valid (wc_slot cmd)"
    and "3 \<le> length (trng_words (trng_polls (h_trng h)))"
    and "delivers (uart_frame_timeout_ms CONTROL_INTERFACE) (uart_rx (h_uart h) 0) ack_frame rest"
  shows "\<exists>h'. write_cmd P pkt h = Some (0, h') \<and> represents P h' (put_file (wc_slot cmd) (written_file P cmd) v)"
  by (rule write_goes_through [OF assms])

lemma ref_acks: "delivers (uart_frame_timeout_ms CONTROL_INTERFACE) (uart_rx (h_uart (ref_hsm bs)) 0) bs []"
proof -
  have "gap_ok (uart_frame_timeout_ms CONTROL_INTERFACE) 0" by (simp add: gap_ok_def uart_frame_timeout_ms_def)
  then have "delivers (uart_frame_timeout_ms CONTROL_INTERFACE) (map Some bs) bs []"
    by (induction bs) (auto intro: delivers_Cons [where k = 0, simplified])
  then show ?thesis by (simp add: ref_hsm_def ref_line_def)
qed

lemma ref_slot_2: "slot_is_valid 2"
  by (simp add: valid_slot)

lemma write_completes_witness:
  "\<exists>h'. write_cmd ref_platform ref_write_pkt (ref_hsm ack_frame) = Some (0, h') \<and>
     represents ref_platform h' (put_file 2 (written_file ref_platform (un_write_command ref_write_pkt)) ref_vault)"
proof -
  have w: "3 \<le> length (trng_words (trng_polls (h_trng (ref_hsm ack_frame))))"
    using ref_trng_words by (simp add: ref_hsm_def)
  show ?thesis
    using write_completes [OF ref_platform_good ref_represents refl _ _ _ _ _ w ref_acks, of ref_write_pkt]
    by (simp add: ref_write_parts ref_opens ref_permitted ref_slot_2 WRITE_CMD_MIN_LEN_def WRITE_COMMAND_SIZE_def
        MAX_CONTENTS_SIZE_def)
qed

definition ref_file :: stored_file where
  "ref_file = \<lparr>sf_name = replicate 31 97 @ [0], sf_group = 5, sf_uuid = replicate 16 1, sf_owner = g_pin_hash ref_pin,
     sf_data = [10, 20, 30]\<rparr>"

lemma ref_written: "written_file ref_platform (un_write_command ref_write_pkt) = ref_file"
  by (simp add: written_file_def ref_write_parts ref_file_def ref_pin_def)

lemma ref_spec_write: "spec_write ref_platform ref_write_pkt ref_vault = (Answer WRITE_MSG [], put_file 2 ref_file ref_vault)"
  using ref_written by (simp add: spec_write_def ref_write_parts ref_opens ref_permitted ref_slot_2)

text \<open>The device after that write, with another line to the host.\<close>

lemma ref_write:
  obtains h' where "write_cmd ref_platform ref_write_pkt (ref_hsm ack_frame) = Some (0, h')"
    and "\<And>line. represents ref_platform (h'\<lparr>h_uart := ref_line line\<rparr>) (put_file 2 ref_file ref_vault)"
proof -
  have w: "3 \<le> length (trng_words (trng_polls (h_trng (ref_hsm ack_frame))))"
    using ref_trng_words by (simp add: ref_hsm_def)
  from write_goes_through [OF ref_platform_good ref_represents refl _ _ _ _ _ w ref_acks, of ref_write_pkt] obtain h'
    where h': "write_cmd ref_platform ref_write_pkt (ref_hsm ack_frame) = Some (0, h')"
    and r: "represents ref_platform h' (put_file 2 ref_file ref_vault)"
    using ref_written by (auto simp: ref_write_parts ref_opens ref_permitted ref_slot_2 WRITE_CMD_MIN_LEN_def
        WRITE_COMMAND_SIZE_def MAX_CONTENTS_SIZE_def)
  have "represents ref_platform (h'\<lparr>h_uart := ref_line line\<rparr>) (put_file 2 ref_file ref_vault)" for line
    by (rule represents_io [OF r]) (use r in \<open>simp_all add: represents_def hsm_ok_def same_store_def same_flash_def\<close>)
  with h' show thesis by (rule that)
qed

lemma write_refines_witness:
  "\<exists>h'. write_cmd ref_platform ref_write_pkt (ref_hsm ack_frame) = Some (0, h') \<and>
     represents ref_platform h' (put_file 2 ref_file ref_vault) \<and> answers (Answer WRITE_MSG []) 0 (ref_hsm ack_frame) h'"
proof -
  obtain h' where h': "write_cmd ref_platform ref_write_pkt (ref_hsm ack_frame) = Some (0, h')" by (rule ref_write)
  from write_refines [OF ref_platform_good ref_represents _ h'] h' show ?thesis
    unfolding ref_spec_write by (simp add: ref_write_parts WRITE_COMMAND_SIZE_def)
qed

definition ref_read_pkt :: "byte list" where
  "ref_read_pkt = [49, 50, 51, 52, 53, 54, 2]"

lemma ref_read_parts: "length ref_read_pkt = 7" "segment 0 6 ref_read_pkt = [49, 50, 51, 52, 53, 54]" "ref_read_pkt ! 6 = 2"
  by (simp_all add: ref_read_pkt_def segment_def)

lemma read_refines_witness:
  "\<exists>h h'. represents ref_platform h (put_file 2 ref_file ref_vault) \<and>
     read_cmd ref_platform ref_read_pkt h = Some (0, h') \<and>
     uart_tx (h_uart h') 0 = msg_header READ_MSG 35 @ replicate 31 97 @ [0, 10, 20, 30]"
proof -
  let ?v = "put_file 2 ref_file ref_vault" and ?acks = "concat (replicate (frame_blocks 35) ack_frame)"
  obtain h0 where h0: "\<And>line. represents ref_platform (h0\<lparr>h_uart := ref_line line\<rparr>) ?v"
    by (rule ref_write) (rule that)
  let ?h = "h0\<lparr>h_uart := ref_line ?acks\<rparr>"
  have f: "v_files ?v (ref_read_pkt ! 6) = Some ref_file" by (simp add: put_file_def ref_read_parts)
  have o: "opens ref_platform (segment 0 6 ref_read_pkt) ?v" using ref_opens by (simp add: ref_read_parts opens_def put_file_def)
  have p: "validate_permission ref_platform (sf_group ref_file) PERM_READ" "sf_owner ref_file = v_pin ?v" "sf_group ref_file \<noteq> 0"
    using ref_permitted by (simp_all add: ref_file_def put_file_def ref_vault_def)
  let ?ans = "replicate 31 97 @ [0, 10, 20, 30 :: byte]"
  have s: "fst (spec_read ref_platform ref_read_pkt ?v) = Answer READ_MSG ?ans"
    using o f p by (simp add: spec_read_def ref_read_parts) (simp add: ref_file_def)
  have k: "host_acks (length ?ans) (h_uart ?h) []"
    using ref_acks [of ?acks] by (simp add: host_acks_def ref_hsm_def)
  note t = read_refines [OF ref_platform_good h0 [of ?acks], of ref_read_pkt, unfolded s]
  from t k obtain rc h' where r: "read_cmd ref_platform ref_read_pkt ?h = Some (rc, h')" by force
  with t have "answers (Answer READ_MSG ?ans) rc ?h h'" by blast
  then have "rc = 0" "h_uart h' = add_tx 0 (msg_header READ_MSG (of_nat (length ?ans)) @ ?ans) (set_rx 0 [] (h_uart ?h))"
    using k by simp_all
  with r h0 show ?thesis
    by (intro exI [of _ ?h] exI [of _ h']) (simp add: ref_line_def)
qed

lemma list_refines_witness:
  "\<exists>h' rc. list_cmd ref_platform [49, 50] (ref_hsm []) = Some (rc, h') \<and>
     represents ref_platform h' ref_vault \<and> answers (Refused ''Packet too short'') rc (ref_hsm []) h'"
proof -
  obtain rc h' where r: "list_cmd ref_platform [49, 50] (ref_hsm []) = Some (rc, h')"
    by (simp add: list_cmd_def LIST_COMMAND_SIZE_def)
  from list_refines [OF ref_platform_good ref_represents r] r show ?thesis by (simp add: spec_list_def)
qed

end
