(* ===== verification/PeerTransfer.thy ===== *)
theory PeerTransfer
  imports Peer Vault
begin

text \<open>
  What the device-to-device protocol guarantees: messages decode to what was sent; a device
  gives away a file or its list only to a peer that proved, on a fresh challenge, that it may
  receive the group; a device proves only what its permissions allow; and a transfer stores
  the file it was sent.
\<close>

section \<open>Messages\<close>

lemma byte_of_segment: "length bs = n \<Longrightarrow> off < n \<Longrightarrow> [segment off 1 bs ! 0] = segment off 1 bs"
  using segment_1 [of off bs] by (simp add: segment_nth)

interpretation rqc: exact_codec receive_request_bytes un_receive_request 5 "\<lambda>_. True"
proof
  show "receive_request_bytes (un_receive_request bs) = bs" if "length bs = 5" for bs
  proof -
    have "receive_request_bytes (un_receive_request bs) = segment 0 1 bs @ segment 1 4 bs"
      using that byte_of_segment [OF that, of 0]
      by (simp add: receive_request_bytes_def un_receive_request_def le32_un_le32)
    with that show ?thesis by (simp add: segment_join)
  qed
qed (simp_all add: receive_request_bytes_def un_receive_request_def segment_def)

interpretation chc: exact_codec "receive_challenge_bytes :: receive_challenge \<Rightarrow> _" un_receive_challenge 11 "\<lambda>_. True"
proof
  show "receive_challenge_bytes (un_receive_challenge bs :: receive_challenge) = bs" if "length bs = 11" for bs
  proof -
    have "receive_challenge_bytes (un_receive_challenge bs :: receive_challenge)
        = segment 0 1 bs @ segment 1 2 bs @ segment 3 4 bs @ segment 7 4 bs"
      using that byte_of_segment [OF that, of 0]
      by (simp add: receive_challenge_bytes_def un_receive_challenge_def le16_un_le16 le32_un_le32)
    with that show ?thesis by (simp add: segment_join)
  qed
qed (simp_all add: receive_challenge_bytes_def un_receive_challenge_def segment_def)

lemma receive_proof_bytes_un: "length bs = 43 \<Longrightarrow> receive_proof_bytes (un_receive_proof bs) = bs"
proof -
  assume len: "length bs = 43"
  have "receive_challenge_bytes (un_receive_proof bs) = receive_challenge_bytes (un_receive_challenge bs :: receive_challenge)"
    by (simp add: receive_challenge_bytes_def un_receive_proof_def receive_challenge.extend_def)
  also have "\<dots> = receive_challenge_bytes (un_receive_challenge (segment 0 11 bs) :: receive_challenge)"
    by (simp add: un_receive_challenge_def segment_slice)
  also have "\<dots> = segment 0 11 bs" using len by (intro chc.enc_dec) simp
  finally show ?thesis
    using len by (simp add: receive_proof_bytes_def un_receive_proof_def receive_challenge.extend_def segment_join)
qed

interpretation pfc: exact_codec receive_proof_bytes un_receive_proof 43 "\<lambda>p. length (pf_proof p) = 32"
proof
  show "un_receive_proof (receive_proof_bytes p @ rest) = p" if "length (pf_proof p) = 32" for p rest
    using that by (simp add: receive_proof_bytes_def un_receive_proof_def receive_challenge_bytes_def
        un_receive_challenge_def receive_challenge.extend_def segment_def)
qed (simp_all add: receive_proof_bytes_un, simp_all add: receive_proof_bytes_def receive_challenge_bytes_def
    un_receive_proof_def receive_challenge.extend_def)

interpretation icc: exact_codec "interrogate_challenge_bytes :: interrogate_challenge \<Rightarrow> _" un_interrogate_challenge 8 "\<lambda>_. True"
  by unfold_locales (simp_all add: interrogate_challenge_bytes_def un_interrogate_challenge_def le32_un_le32 segment_join)

interpretation gpc: exact_codec group_proof_bytes un_group_proof 34 "\<lambda>g. length (gp_proof g) = 32"
  by unfold_locales (simp_all add: group_proof_bytes_def un_group_proof_def le16_un_le16 segment_join)

definition file_ok :: "hsm_file \<Rightarrow> bool" where
  "file_ok f \<longleftrightarrow> length (f_name f) = 32 \<and> length (f_nonce f) = 12 \<and> length (f_tag f) = 16 \<and> length (f_contents f) = 8192"

interpretation filec: exact_codec file_bytes un_file 8260 file_ok
proof
  show "file_bytes (un_file bs) = bs" if "length bs = 8260" for bs
    using that by (simp add: file_bytes_def un_file_def le16_un_le16 le32_un_le32 segment_join)
qed (simp_all add: file_bytes_def un_file_def file_ok_def)

text \<open>The proofs of an interrogation: as many as were sent come back.\<close>

lemma interrogate_proof_roundtrip:
  assumes "length (ip_proofs p) \<le> 8" "\<forall>g \<in> set (ip_proofs p). length (gp_proof g) = 32"
    and "q = un_interrogate_proof (interrogate_proof_bytes p)"
  shows "interrogate_challenge.truncate q = interrogate_challenge.truncate p \<and> ip_proof_count q = ip_proof_count p \<and>
    take (length (ip_proofs p)) (ip_proofs q) = ip_proofs p \<and> length (interrogate_proof_bytes p) = 281"
proof -
  let ?ps = "concat (map group_proof_bytes (ip_proofs p))"
  have len: "length ?ps = 34 * length (ip_proofs p)"
    using gpc.length_enc_all [of "ip_proofs p"] assms(2) by (simp add: mult.commute)
  define pad where "pad = replicate (281 - (9 + 34 * length (ip_proofs p))) (0 :: byte)"
  have b: "interrogate_proof_bytes p
      = le32 (ic_requester_nonce p) @ le32 (ic_target_nonce p) @ [ip_proof_count p] @ ?ps @ pad"
    using len by (simp add: interrogate_proof_bytes_def pad_to_def interrogate_challenge_bytes_def pad_def)
  have "un_group_proof (segment (9 + 34 * i) 34 (interrogate_proof_bytes p)) = ip_proofs p ! i"
    if "i < length (ip_proofs p)" for i
  proof -
    have "segment (9 + 34 * i) 34 (interrogate_proof_bytes p) = segment (i * 34) 34 (?ps @ pad)"
      by (simp add: b mult.commute)
    with gpc.segment_enc_all [OF assms(2) that, of pad] gpc.dec_enc_bare [of "ip_proofs p ! i"] assms(2) that
    show ?thesis by simp
  qed
  then have "take (length (ip_proofs p)) (ip_proofs q) = ip_proofs p"
    using assms(1) by (intro nth_equalityI)
      (auto simp: assms(3) un_interrogate_proof_def interrogate_challenge.extend_def MAX_PERMS_COUNT_def)
  moreover have "length (interrogate_proof_bytes p) = 281" using len assms(1) by (simp add: b pad_def)
  ultimately show ?thesis
    by (simp add: assms(3) un_interrogate_proof_def interrogate_challenge.extend_def interrogate_challenge.truncate_def b
        un_interrogate_challenge_def segment_def)
qed

section \<open>Steps of the protocol\<close>

lemma transfer_handle [simp]: "get_uart_handle TRANSFER_INTERFACE = 1"
  by (simp add: get_uart_handle_def TRANSFER_INTERFACE_def CONFIG_UART_COUNT_def)

abbreviation frame :: "byte \<Rightarrow> byte list \<Rightarrow> byte list" where
  "frame type buf \<equiv> msg_header type (of_nat (length buf)) @ buf"

lemma not_needs_ack [simp]: "\<not> needs_ack ERROR_MSG"
  by (simp add: needs_ack_def)

lemma deny_eq [simp]: "deny msg h = Some (- 1, h\<lparr>h_uart := add_tx 1 (frame ERROR_MSG (cstr msg)) (h_uart h)\<rparr>)"
  by (simp add: deny_def send_def write_packet_quiet)

lemma deny_and_fail_eq [simp]:
  "deny_and_fail msg err h = Some (- 1, say err (h\<lparr>h_uart := add_tx 1 (frame ERROR_MSG (cstr msg)) (h_uart h)\<rparr>))"
  by (simp add: deny_and_fail_def)

text \<open>States that differ only in the UARTs, the random source and the replay cache.\<close>

definition same_files :: "hsm \<Rightarrow> hsm \<Rightarrow> bool" where
  "same_files h h' \<longleftrightarrow> h_flash h' = h_flash h \<and> h_pin h' = h_pin h \<and> h_blob h' = h_blob h \<and> h_names h' = h_names h"

lemma same_files_refl [simp]: "same_files h h"
  by (simp add: same_files_def)

lemma same_files_trans [trans]: "same_files h i \<Longrightarrow> same_files i j \<Longrightarrow> same_files h j"
  by (simp add: same_files_def)

lemma same_files_io [simp]:
  "same_files h (h\<lparr>h_uart := u\<rparr>)" "same_files h (h\<lparr>h_trng := tr\<rparr>)" "same_files h (h\<lparr>h_replay := c\<rparr>)" "same_files h (say m h)"
  by (simp_all add: same_files_def)

lemma same_files_step [simp]:
  "same_files h (h'\<lparr>h_uart := u\<rparr>) = same_files h h'" "same_files h (h'\<lparr>h_replay := c\<rparr>) = same_files h h'"
  "same_files h (say m h') = same_files h h'" "same_files (h\<lparr>h_trng := tr\<rparr>) h' = same_files h h'"
  by (simp_all add: same_files_def)

lemma same_files_store: "same_files h h' \<Longrightarrow> same_store h h'"
  by (simp add: same_files_def same_store_def same_flash_def)

lemma send_steps:
  assumes "send TRANSFER_INTERFACE type buf h = Some (rc, h')"
  shows "same_files h h'" "h_trng h' = h_trng h" "h_replay h' = h_replay h" "sent_prefix 1 (frame type buf) (h_uart h) (h_uart h')"
proof -
  obtain u where u: "h' = h\<lparr>h_uart := u\<rparr>" using send_only_uart [OF assms] by blast
  then show "same_files h h'" "h_trng h' = h_trng h" "h_replay h' = h_replay h" by simp_all
  show "sent_prefix 1 (frame type buf) (h_uart h) (h_uart h')"
    using assms write_packet_prefix(1) [of TRANSFER_INTERFACE type buf "h_uart h"] by (auto simp: send_def bind_eq_Some_conv)
qed

lemma xfer_read_steps:
  assumes "xfer_read cap h = Some (r, h')"
  shows "same_files h h'" "h_trng h' = h_trng h" "h_replay h' = h_replay h" "only_acks 1 (h_uart h) (h_uart h')"
proof -
  from assms obtain u where "read_packet_timeout TRANSFER_INTERFACE (of_nat cap) UART_XFER_TIMEOUT_MS (h_uart h) = Some (r, u)"
    and u: "h' = h\<lparr>h_uart := u\<rparr>" by (auto simp: xfer_read_def bind_eq_Some_conv)
  then show "only_acks 1 (h_uart h) (h_uart h')" using read_frame_any(1) [of TRANSFER_INTERFACE]
    by (simp add: read_packet_timeout_def)
  show "same_files h h'" "h_trng h' = h_trng h" "h_replay h' = h_replay h" by (simp_all add: u)
qed

lemma fresh_nonce_steps:
  assumes "fresh_nonce h = Some (n, h')"
  obtains tr where "h' = h\<lparr>h_trng := tr\<rparr>"
  using assms by (auto simp: fresh_nonce_def bind_eq_Some_conv)

lemma fresh_nonce_not_none: "fresh_nonce h \<noteq> Some (None, h')"
  using nonce_some [of 4 "h_trng h"] by (auto simp: fresh_nonce_def bind_eq_Some_conv split: option.splits)

text \<open>
  On the transfer line: at most a challenge (or what of it was acknowledged), acknowledgements
  of a message read, and a denial.
\<close>

definition only_challenged :: "byte list \<Rightarrow> byte list \<Rightarrow> uart_dev \<Rightarrow> uart_dev \<Rightarrow> bool" where
  "only_challenged challenge denial u u' \<longleftrightarrow> (\<exists>n k m. uart_tx u' 1 = uart_tx u 1 @ take n challenge @
     concat (replicate k ack_frame) @ take m denial)"

lemma only_challenged_prefix: "sent_prefix 1 ch u u' \<Longrightarrow> only_challenged ch d u u'"
  unfolding sent_prefix_def only_challenged_def by (metis append_Nil2 concat.simps(1) replicate_0 take0)

lemma only_challenged_read:
  assumes "sent_prefix 1 ch u v" "only_acks 1 v w"
  shows "only_challenged ch d u (add_tx 1 d w)"
proof -
  obtain n k where "uart_tx v 1 = uart_tx u 1 @ take n ch" "uart_tx w 1 = uart_tx v 1 @ concat (replicate k ack_frame)"
    using assms by (auto simp: sent_prefix_def only_acks_def)
  then have "uart_tx (add_tx 1 d w) 1 = uart_tx u 1 @ take n ch @ concat (replicate k ack_frame) @ take (length d) d" by simp
  then show ?thesis unfolding only_challenged_def by blast
qed

lemma only_challenged_deny: "only_challenged ch d u (add_tx 1 d u)"
  unfolding only_challenged_def by (rule exI [of _ 0], rule exI [of _ 0], rule exI [of _ "length d"]) simp

lemma only_challenged_say [simp]: "only_challenged ch d u (h_uart (say m h)) = only_challenged ch d u (h_uart h)"
  by (simp add: only_challenged_def say_def)

section \<open>Serving a file\<close>

text \<open>The challenge for a request: its slot with the group of the file there.\<close>

definition file_challenge :: "byte list \<Rightarrow> u32 \<Rightarrow> hsm \<Rightarrow> receive_challenge" where
  "file_challenge request nonce h =
     \<lparr>ch_slot = hd request, ch_group_id = ne_group_id (name_of (hd request) h),
      ch_requester_nonce = un_le32 (tl request), ch_target_nonce = nonce\<rparr>"

text \<open>Message, reply and MAC that let a file out.\<close>

definition proven :: "platform \<Rightarrow> receive_challenge \<Rightarrow> byte list \<Rightarrow> bool" where
  "proven P c proof \<longleftrightarrow> sign_proof P (ch_group_id c) (receive_challenge_bytes c) = Some proof"

lemma verify_proof_iff: "verify_proof P g m s \<longleftrightarrow> sign_proof P g m = Some s"
proof (cases "security_get_root_secret P")
  case (Some root)
  with recv.sound [of "(root, g)" m s] recv.complete [of "(root, g)" m 32 s] show ?thesis
    by (auto simp: verify_proof_def sign_proof_def)
qed (simp add: verify_proof_def sign_proof_def)

lemma request_parts:
  assumes "length request = 5"
  shows "un_receive_request (pad_to RECEIVE_REQUEST_SIZE request)
    = \<lparr>rq_slot = hd request, rq_requester_nonce = un_le32 (tl request)\<rparr>"
  using assms by (cases request) (simp_all add: un_receive_request_def pad_to_def RECEIVE_REQUEST_SIZE_def segment_def)

lemma check_replay_eq:
  "check_replay nr nt g opc h = (ok, h') \<Longrightarrow>
   \<exists>c. security_secure_uart_check_and_update_replay nr nt g opc (h_replay h) = (ok, c) \<and> h' = h\<lparr>h_replay := c\<rparr>"
  by (auto simp: check_replay_def split: prod.splits)

definition serve_denied :: "byte list \<Rightarrow> hsm \<Rightarrow> int \<Rightarrow> hsm \<Rightarrow> bool" where
  "serve_denied request h rc h' \<longleftrightarrow> rc = - 1 \<and> same_files h h' \<and>
     (\<exists>nonce. only_challenged (frame RECEIVE_MSG (receive_challenge_bytes (file_challenge request nonce h)))
        (frame ERROR_MSG (cstr ''Could not import file'')) (h_uart h) (h_uart h'))"

definition serve_authorised :: "platform \<Rightarrow> byte list \<Rightarrow> hsm \<Rightarrow> hsm \<Rightarrow> bool" where
  "serve_authorised P request h h2 \<longleftrightarrow> same_files h h2 \<and> occupied (hd request) h \<and>
     (\<exists>nonce proof tr. security_generate_nonce 4 (h_trng h) = Some (Some (le32 nonce), tr) \<and>
        proven P (file_challenge request nonce h) proof \<and>
        security_secure_uart_check_and_update_replay (un_le32 (tl request)) nonce
          (ne_group_id (name_of (hd request) h)) RECEIVE_MSG (h_replay h) = (True, h_replay h2))"

lemma fresh_nonce_some:
  assumes "fresh_nonce h = Some (Some n, h')"
  obtains tr where "security_generate_nonce 4 (h_trng h) = Some (Some (le32 n), tr)" "h' = h\<lparr>h_trng := tr\<rparr>"
  using assms nonce_length [of 4 "h_trng h"]
  by (auto simp: fresh_nonce_def bind_eq_Some_conv le32_un_le32 split: option.splits)

lemma listen_receive_outcomes:
  assumes r: "listen_receive P request h = Some (rc, h')"
  shows "serve_denied request h rc h' \<or>
    (\<exists>h2. serve_authorised P request h h2 \<and> listen_send_file P (hd request) h2 = Some (rc, h'))"
proof (cases "length request = 5 \<and> occupied (hd request) h")
  case False
  with r request_parts [of request] show ?thesis
    by (auto simp: listen_receive_def Let_def serve_denied_def RECEIVE_REQUEST_SIZE_def only_challenged_deny
        intro: same_files_trans split: if_splits)
next
  case True
  let ?slot = "hd request" and ?d = "frame ERROR_MSG (cstr ''Could not import file'')"
  note req = request_parts [OF conjunct1 [OF True]]
  from r True req obtain n h1 where n: "fresh_nonce h = Some (n, h1)"
    by (auto simp: listen_receive_def Let_def RECEIVE_REQUEST_SIZE_def bind_eq_Some_conv)
  show ?thesis
  proof (cases n)
    case None
    with n fresh_nonce_not_none show ?thesis by simp
  next
    case (Some nonce)
    from n Some obtain tr where tr: "security_generate_nonce 4 (h_trng h) = Some (Some (le32 nonce), tr)"
      and h1: "h1 = h\<lparr>h_trng := tr\<rparr>" by (auto elim: fresh_nonce_some)
    define ch where "ch = file_challenge request nonce h"
    have chal: "\<lparr>ch_slot = ?slot, ch_group_id = ne_group_id (name_of ?slot h1),
        ch_requester_nonce = un_le32 (tl request), ch_target_nonce = nonce\<rparr> = ch"
      by (simp add: ch_def file_challenge_def h1 name_of_def)
    from r True req n Some obtain rc1 h2 where s: "send TRANSFER_INTERFACE RECEIVE_MSG (receive_challenge_bytes ch) h1 = Some (rc1, h2)"
      by (auto simp: listen_receive_def Let_def RECEIVE_REQUEST_SIZE_def bind_eq_Some_conv chal)
    note s2 = send_steps [OF s]
    show ?thesis
    proof (cases "rc1 = MSG_OK")
      case False
      with r True req n Some s have "rc = - 1" "h' = say ''Transfer write failed'' h2"
        by (auto simp: listen_receive_def Let_def RECEIVE_REQUEST_SIZE_def chal)
      with s2 only_challenged_prefix [OF s2(4), of ?d] h1 show ?thesis
        by (auto simp: serve_denied_def ch_def intro: same_files_trans)
    next
      case ok: True
      from r True req n Some s ok obtain pk h3 where x: "xfer_read RECEIVE_PROOF_SIZE h2 = Some (pk, h3)"
        by (auto simp: listen_receive_def Let_def RECEIVE_REQUEST_SIZE_def bind_eq_Some_conv chal)
      note x3 = xfer_read_steps [OF x]
      have files: "same_files h h3" using h1 s2(1) x3(1) same_files_trans by (metis same_files_io(2))
      have den: "only_challenged (frame RECEIVE_MSG (receive_challenge_bytes ch)) ?d (h_uart h) (add_tx 1 ?d (h_uart h3))"
        using only_challenged_read [OF s2(4) x3(4)] h1 by simp
      define p where "p = un_receive_proof (pad_to RECEIVE_PROOF_SIZE (pk_data pk))"
      note step = r True req n Some s ok x
      show ?thesis
      proof (cases "pk_status pk \<noteq> MSG_OK \<or> pk_cmd pk \<noteq> Some RECEIVE_MSG \<or> length (pk_data pk) \<noteq> RECEIVE_PROOF_SIZE \<or>
          receive_challenge.truncate p \<noteq> ch \<or> \<not> verify_proof P (ch_group_id p) (receive_challenge_bytes ch) (pf_proof p)")
        case True
        with step have "rc = - 1" "h' = h3\<lparr>h_uart := add_tx 1 ?d (h_uart h3)\<rparr>"
          by (auto simp: listen_receive_def Let_def RECEIVE_REQUEST_SIZE_def chal p_def split: if_splits)
        with files den show ?thesis by (auto simp: serve_denied_def ch_def intro: same_files_trans)
      next
        case good: False
        then have g: "ch_group_id p = ch_group_id ch" "ch_requester_nonce p = ch_requester_nonce ch"
          "ch_target_nonce p = ch_target_nonce ch" by (auto simp: receive_challenge.truncate_def)
        obtain fresh h4 where c: "check_replay (ch_requester_nonce ch) (ch_target_nonce ch) (ch_group_id ch) RECEIVE_MSG h3
            = (fresh, h4)" by fastforce
        from check_replay_eq [OF c] obtain c2 where c2: "security_secure_uart_check_and_update_replay (ch_requester_nonce ch)
            (ch_target_nonce ch) (ch_group_id ch) RECEIVE_MSG (h_replay h3) = (fresh, c2)" "h4 = h3\<lparr>h_replay := c2\<rparr>" by blast
        have end4: "listen_receive P request h = (if \<not> fresh then deny ''Could not import file'' h4 else listen_send_file P ?slot h4)"
          using step good g c by (simp add: listen_receive_def Let_def RECEIVE_REQUEST_SIZE_def chal p_def)
        show ?thesis
        proof (cases fresh)
          case True
          have "h_replay h3 = h_replay h" using x3(3) s2(3) h1 by simp
          with True good g c2 files tr \<open>length request = 5 \<and> occupied ?slot h\<close>
          have "serve_authorised P request h h4"
            by (auto simp: serve_authorised_def proven_def verify_proof_iff ch_def file_challenge_def
                intro!: exI [of _ nonce] intro: same_files_trans)
          with r end4 True show ?thesis by auto
        next
          case False
          with r end4 files den c2 show ?thesis by (auto simp: serve_denied_def ch_def intro: same_files_trans)
        qed
      qed
    qed
  qed
qed

section \<open>Serving the list\<close>

definition list_challenge :: "byte list \<Rightarrow> u32 \<Rightarrow> interrogate_challenge" where
  "list_challenge request nonce = \<lparr>ic_requester_nonce = un_le32 request, ic_target_nonce = nonce\<rparr>"

definition list_denied :: "byte list \<Rightarrow> hsm \<Rightarrow> int \<Rightarrow> hsm \<Rightarrow> bool" where
  "list_denied request h rc h' \<longleftrightarrow> rc = - 1 \<and> same_files h h' \<and>
     (\<exists>nonce. only_challenged (frame INTERROGATE_MSG (interrogate_challenge_bytes (list_challenge request nonce)))
        (frame ERROR_MSG (cstr ''Interrogate denied'')) (h_uart h) (h_uart h'))"

text \<open>Every proof of the reply is a MAC under its group's key over this challenge and the group.\<close>

definition groups_proven :: "platform \<Rightarrow> interrogate_challenge \<Rightarrow> group_proof list \<Rightarrow> bool" where
  "groups_proven P c proofs \<longleftrightarrow> (\<forall>g \<in> set proofs.
     sign_proof P (gp_group_id g) (interrogate_challenge_bytes c @ le16 (gp_group_id g)) = Some (gp_proof g))"

definition list_authorised :: "platform \<Rightarrow> byte list \<Rightarrow> group_proof list \<Rightarrow> hsm \<Rightarrow> hsm \<Rightarrow> bool" where
  "list_authorised P request proofs h h2 \<longleftrightarrow> same_files h h2 \<and> length proofs \<le> 8 \<and>
     (\<exists>nonce tr. security_generate_nonce 4 (h_trng h) = Some (Some (le32 nonce), tr) \<and>
        groups_proven P (list_challenge request nonce) proofs \<and>
        security_secure_uart_check_and_update_replay (un_le32 request) nonce 0 INTERROGATE_MSG (h_replay h)
          = (True, h_replay h2))"

definition send_list :: "group_proof list \<Rightarrow> hsm \<Rightarrow> (int \<times> hsm) option" where
  "send_list proofs h =
     do { (rc, h) \<leftarrow> send TRANSFER_INTERFACE INTERROGATE_MSG (list_response (listen_list proofs h)) h;
          if rc \<noteq> MSG_OK then fail ''Transfer write failed'' h else done_reply LISTEN_MSG [] h }"

lemma listen_interrogate_outcomes:
  assumes r: "listen_interrogate P request h = Some (rc, h')"
  shows "list_denied request h rc h' \<or>
    (\<exists>proofs h2. list_authorised P request proofs h h2 \<and> send_list proofs h2 = Some (rc, h'))"
proof (cases "length request = 4")
  case False
  with r show ?thesis
    by (auto simp: listen_interrogate_def list_denied_def INTERROGATE_REQUEST_SIZE_def only_challenged_deny)
next
  case len: True
  let ?d = "frame ERROR_MSG (cstr ''Interrogate denied'')"
  from r len obtain n h1 where n: "fresh_nonce h = Some (n, h1)"
    by (auto simp: listen_interrogate_def Let_def INTERROGATE_REQUEST_SIZE_def bind_eq_Some_conv)
  then obtain nonce where Some: "n = Some nonce" using fresh_nonce_not_none by (cases n) auto
  with n obtain tr where tr: "security_generate_nonce 4 (h_trng h) = Some (Some (le32 nonce), tr)"
    and h1: "h1 = h\<lparr>h_trng := tr\<rparr>" by (auto elim: fresh_nonce_some)
  define ch where "ch = list_challenge request nonce"
  have chal: "\<lparr>ic_requester_nonce = un_le32 request, ic_target_nonce = nonce\<rparr> = ch"
    by (simp add: ch_def list_challenge_def)
  note defs = listen_interrogate_def Let_def INTERROGATE_REQUEST_SIZE_def
  from r len n Some obtain rc1 h2 where s: "send TRANSFER_INTERFACE INTERROGATE_MSG (interrogate_challenge_bytes ch) h1
      = Some (rc1, h2)" by (auto simp: defs bind_eq_Some_conv chal)
  note s2 = send_steps [OF s]
  show ?thesis
  proof (cases "rc1 = MSG_OK")
    case False
    with r len n Some s have "rc = - 1" "h' = h2" by (auto simp: defs chal)
    with s2 only_challenged_prefix [OF s2(4), of ?d] h1 show ?thesis by (auto simp: list_denied_def ch_def)
  next
    case ok: True
    from r len n Some s ok obtain pk h3 where x: "xfer_read INTERROGATE_PROOF_SIZE h2 = Some (pk, h3)"
      by (auto simp: defs bind_eq_Some_conv chal)
    note x3 = xfer_read_steps [OF x]
    have files: "same_files h h3" using h1 s2(1) x3(1) same_files_trans by fastforce
    have den: "only_challenged (frame INTERROGATE_MSG (interrogate_challenge_bytes ch)) ?d (h_uart h) (add_tx 1 ?d (h_uart h3))"
      using only_challenged_read [OF s2(4) x3(4)] h1 by simp
    define p where "p = un_interrogate_proof (pad_to INTERROGATE_PROOF_SIZE (pk_data pk))"
    define proofs where "proofs = take (unat (ip_proof_count p)) (ip_proofs p)"
    show ?thesis
    proof (cases "pk_status pk \<noteq> MSG_OK \<or> pk_cmd pk \<noteq> Some INTERROGATE_MSG \<or> length (pk_data pk) \<noteq> INTERROGATE_PROOF_SIZE \<or>
        MAX_PERMS_COUNT < unat (ip_proof_count p) \<or> ic_requester_nonce p \<noteq> ic_requester_nonce ch \<or>
        ic_target_nonce p \<noteq> ic_target_nonce ch \<or> security_get_root_secret P = None \<or>
        \<not> list_all (\<lambda>g. verify_proof P (gp_group_id g) (interrogate_challenge_bytes ch @ le16 (gp_group_id g)) (gp_proof g)) proofs")
      case True
      have "listen_interrogate P request h = deny ''Interrogate denied'' h3"
        using len n Some s ok x True by (simp only: defs) (auto simp: chal p_def proofs_def)
      with r files den show ?thesis by (auto simp: list_denied_def ch_def)
    next
      case good: False
      then obtain root where root: "security_get_root_secret P = Some root" by auto
      obtain fresh h4 where c: "check_replay (ic_requester_nonce ch) (ic_target_nonce ch) 0 INTERROGATE_MSG h3 = (fresh, h4)"
        by fastforce
      from check_replay_eq [OF c] obtain c2 where c2: "security_secure_uart_check_and_update_replay (ic_requester_nonce ch)
          (ic_target_nonce ch) 0 INTERROGATE_MSG (h_replay h3) = (fresh, c2)" "h4 = h3\<lparr>h_replay := c2\<rparr>" by blast
      have end4: "listen_interrogate P request h = (if \<not> fresh then deny ''Interrogate denied'' h4 else send_list proofs h4)"
        using len n Some s ok x good root c by (simp add: defs chal p_def proofs_def send_list_def)
      show ?thesis
      proof (cases fresh)
        case True
        have "groups_proven P ch proofs" "length proofs \<le> 8"
          using good by (auto simp: groups_proven_def list_all_iff verify_proof_iff proofs_def MAX_PERMS_COUNT_def)
        moreover have "h_replay h3 = h_replay h" using x3(3) s2(3) h1 by simp
        ultimately have "list_authorised P request proofs h h4"
          using True c2 files tr by (auto simp: list_authorised_def ch_def list_challenge_def intro!: exI [of _ nonce])
        with r end4 True show ?thesis by auto
      next
        case False
        with r end4 files den c2 show ?thesis by (auto simp: list_denied_def ch_def)
      qed
    qed
  qed
qed

lemma listen_list_eq:
  assumes "represents P h v"
  shows "listen_list proofs h = map (\<lambda>slot. file_line slot (the (v_files v slot)))
    (filter (\<lambda>slot. \<exists>f. v_files v slot = Some f \<and> sf_group f \<in> gp_group_id ` set proofs) slot_list)"
proof -
  let ?p = "\<lambda>slot. \<exists>f. v_files v slot = Some f \<and> sf_group f \<in> gp_group_id ` set proofs"
  have "(occupied slot h \<and> list_ex (\<lambda>g. gp_group_id g = ne_group_id (name_of slot h)) proofs) = ?p slot" for slot
    using represents_occupied [OF assms, of slot] represents_file [OF assms, of slot] file_at_name [of P h slot]
    by (cases "v_files v slot") (auto simp: list_ex_iff intro: rev_image_eqI)
  moreover have "metadata_bytes slot (name_of slot h) = file_line slot (the (v_files v slot))" if "?p slot" for slot
    using that represents_file [OF assms, of slot] file_at_name [of P h slot "the (v_files v slot)"]
    by (auto simp: metadata_bytes_def file_line_def)
  then have "map (\<lambda>slot. metadata_bytes slot (name_of slot h)) (filter ?p slot_list)
      = map (\<lambda>slot. file_line slot (the (v_files v slot))) (filter ?p slot_list)" by auto
  ultimately show ?thesis using length_slot_list [of ?p] by (simp add: listen_list_def MAX_FILE_COUNT_def)
qed

section \<open>Proving\<close>

definition offer :: "secure_crypto_root_secret \<Rightarrow> byte list \<Rightarrow> group_permission \<Rightarrow> group_proof" where
  "offer root c p = \<lparr>gp_group_id = perm_group_id p,
     gp_proof = mac_of LABEL_RECV_SEED (root, perm_group_id p) (c @ le16 (perm_group_id p))\<rparr>"

lemma interrogate_proofs_eq:
  "length acc + length (filter perm_receive perms) \<le> 8 \<Longrightarrow>
   interrogate_proofs root c perms acc = Some (acc @ map (offer root c) (filter perm_receive perms))"
proof (induction perms arbitrary: acc)
  case (Cons p perms)
  then show ?case
    using recv.sign_mac [of "(root, perm_group_id p)" "c @ le16 (perm_group_id p)" 32]
    by (auto simp: MAX_PERMS_COUNT_def offer_def)
qed simp

lemma sign_proof_eq:
  "secrets_ok P \<Longrightarrow> sign_proof P g m = Some (mac_of LABEL_RECV_SEED (\<lparr>k_master = K_master P\<rparr>, g) m)"
  using recv.sign_mac [of "(\<lparr>k_master = K_master P\<rparr>, g)" m 32] by (simp add: sign_proof_def root_secret)

text \<open>The groups the device may receive, each with a proof that any device with the same secrets accepts.\<close>

lemma offers_proven:
  assumes "secrets_ok P" "secrets_ok Q" "GLOBAL_SECRETS P = GLOBAL_SECRETS Q"
  shows "groups_proven Q c (map (offer \<lparr>k_master = K_master P\<rparr> (interrogate_challenge_bytes c)) perms)"
  using assms by (auto simp: groups_proven_def sign_proof_eq offer_def K_master_def)

definition only_requested :: "byte list \<Rightarrow> uart_dev \<Rightarrow> uart_dev \<Rightarrow> bool" where
  "only_requested request u u' \<longleftrightarrow> (\<exists>n k. uart_tx u' 1 = uart_tx u 1 @ take n request @ concat (replicate k ack_frame))"

lemma only_requested_prefix: "sent_prefix 1 req u u' \<Longrightarrow> only_requested req u u'"
  unfolding sent_prefix_def only_requested_def by (metis append_Nil2 concat.simps(1) replicate_0)

lemma only_requested_read: "sent_prefix 1 req u v \<Longrightarrow> only_acks 1 v w \<Longrightarrow> only_requested req u w"
  by (auto simp: sent_prefix_def only_acks_def only_requested_def) blast

lemma only_requested_none [simp]: "only_requested req u u"
  unfolding only_requested_def by (rule exI [of _ 0], rule exI [of _ 0]) simp

lemma only_requested_say [simp]: "only_requested req u (h_uart (say m h)) = only_requested req u (h_uart h)"
  by (simp add: only_requested_def say_def)

definition fetch_stopped :: "platform \<Rightarrow> byte list \<Rightarrow> hsm \<Rightarrow> int \<Rightarrow> hsm \<Rightarrow> bool" where
  "fetch_stopped P pkt h rc h' \<longleftrightarrow> rc = - 1 \<and> same_store h h' \<and>
     (\<exists>nonce. only_requested (frame RECEIVE_MSG (receive_request_bytes \<lparr>rq_slot = pkt ! 6, rq_requester_nonce = nonce\<rparr>))
        (h_uart h) (h_uart h'))"

definition fetch_authorised :: "platform \<Rightarrow> byte list \<Rightarrow> receive_challenge \<Rightarrow> hsm \<Rightarrow> hsm \<Rightarrow> bool" where
  "fetch_authorised P pkt c h h2 \<longleftrightarrow> pin_matches P (segment 0 6 pkt) (h_pin h) \<and> same_files (attempted P (segment 0 6 pkt) h) h2 \<and>
     ch_slot c = pkt ! 6 \<and> validate_permission P (ch_group_id c) PERM_RECEIVE \<and>
     (\<exists>tr. security_generate_nonce 4 (h_trng h) = Some (Some (le32 (ch_requester_nonce c)), tr))"

lemma receive_outcomes:
  assumes P: "secrets_ok P" "flash_ok P" and h: "hsm_ok h" and r: "receive P pkt h = Some (rc, h')"
  shows "fetch_stopped P pkt h rc h' \<or>
    (\<exists>c h2. fetch_authorised P pkt c h h2 \<and> receive_prove P c (pkt ! 7) (segment 0 6 pkt) h2 = Some (rc, h'))"
proof (cases "length pkt < 8 \<or> \<not> pin_matches P (segment 0 6 pkt) (h_pin h)")
  case True
  note a = attempted_keeps [OF P(2) h, of "segment 0 6 pkt"]
  have "\<exists>m h1. receive P pkt h = Some (- 1, say m h1) \<and> same_store h h1 \<and> h_uart h1 = h_uart h"
  proof (cases "length pkt < 8")
    case True
    then show ?thesis by (intro exI [of _ "''Packet too short''"] exI [of _ h]) (simp add: receive_def RECEIVE_COMMAND_SIZE_def)
  next
    case False
    with True pin_gate_eq [OF P(1) h, of "segment 0 6 pkt"] a(1,3) show ?thesis
      by (intro exI [of _ "''Invalid pin''"] exI [of _ "attempted P (segment 0 6 pkt) h"])
        (simp add: receive_def RECEIVE_COMMAND_SIZE_def)
  qed
  with r show ?thesis by (auto simp: fetch_stopped_def intro: same_store_trans)
next
  case False
  let ?h = "attempted P (segment 0 6 pkt) h" and ?slot = "pkt ! 6"
  note a = attempted_keeps [OF P(2) h, of "segment 0 6 pkt"]
  have gate: "pin_gate P (segment 0 6 pkt) h = Some (0, ?h)" using pin_gate_eq [OF P(1) h, of "segment 0 6 pkt"] False by simp
  note defs = receive_def Let_def RECEIVE_COMMAND_SIZE_def
  from r False gate obtain n h1 where n: "fresh_nonce ?h = Some (n, h1)" by (auto simp: defs bind_eq_Some_conv)
  then obtain nonce where Some: "n = Some nonce" using fresh_nonce_not_none by (cases n) auto
  with n obtain tr where tr: "security_generate_nonce 4 (h_trng h) = Some (Some (le32 nonce), tr)"
    and h1: "h1 = ?h\<lparr>h_trng := tr\<rparr>" using a(4) by (auto elim: fresh_nonce_some)
  let ?req = "receive_request_bytes \<lparr>rq_slot = ?slot, rq_requester_nonce = nonce\<rparr>"
  from r False gate n Some obtain rc1 h2 where s: "send TRANSFER_INTERFACE RECEIVE_MSG ?req h1 = Some (rc1, h2)"
    by (auto simp: defs bind_eq_Some_conv)
  note s2 = send_steps [OF s]
  have st2: "same_store h h2" using a(1) same_files_store [of ?h h2] s2(1) h1 same_store_trans by simp
  show ?thesis
  proof (cases "rc1 = MSG_OK")
    case False
    with r \<open>\<not> (length pkt < 8 \<or> _)\<close> gate n Some s have "rc = - 1" "h' = say ''No response from target HSM'' h2" by (auto simp: defs)
    with st2 same_store_trans [OF st2] only_requested_prefix [OF s2(4)] h1 show ?thesis by (auto simp: fetch_stopped_def)
  next
    case ok: True
    from r False gate n Some s ok obtain pk h3 where x: "xfer_read RECEIVE_CHALLENGE_SIZE h2 = Some (pk, h3)"
      by (auto simp: defs bind_eq_Some_conv)
    note x3 = xfer_read_steps [OF x]
    have st3: "same_store h h3" using st2 same_files_store [OF x3(1)] same_store_trans by blast
    have rq: "only_requested (frame RECEIVE_MSG ?req) (h_uart h) (h_uart h3)"
      using only_requested_read [OF s2(4) x3(4)] h1 by simp
    define c where "c = un_receive_challenge (pad_to RECEIVE_CHALLENGE_SIZE (pk_data pk))"
    show ?thesis
    proof (cases "pk_status pk \<noteq> MSG_OK \<or> pk_cmd pk \<noteq> Some RECEIVE_MSG \<or> length (pk_data pk) \<noteq> RECEIVE_CHALLENGE_SIZE \<or>
        ch_slot c \<noteq> ?slot \<or> ch_requester_nonce c \<noteq> nonce \<or> \<not> validate_permission P (ch_group_id c) PERM_RECEIVE")
      case True
      then have "\<exists>m. receive P pkt h = Some (- 1, say m h3)"
        using False gate n Some s ok x by (simp only: defs) (auto simp: c_def)
      with r st3 same_store_trans [OF st3] rq show ?thesis by (auto simp: fetch_stopped_def)
    next
      case good: False
      have "receive P pkt h = receive_prove P c (pkt ! 7) (segment 0 6 pkt) h3"
        using False gate n Some s ok x good by (simp add: defs c_def)
      moreover have "same_files ?h h3" using same_files_trans [OF s2(1) x3(1)] h1 by simp
      ultimately show ?thesis
        using r False good tr by (auto simp: fetch_authorised_def)
    qed
  qed
qed

section \<open>A file from device to device\<close>

lemma xfer_read_ok:
  assumes "delivers UART_XFER_TIMEOUT_MS (uart_rx (h_uart h) 1) (frame type data) rest" "length data \<le> cap" "cap < 65536"
  shows "xfer_read cap h = Some (\<lparr>pk_status = MSG_OK, pk_cmd = Some type, pk_len = of_nat (length data), pk_data = data\<rparr>,
    h\<lparr>h_uart := add_tx 1 (concat (replicate (frame_blocks (length data)) ack_frame)) (set_rx 1 rest (h_uart h))\<rparr>)"
proof -
  from assms(1) have "delivers UART_XFER_TIMEOUT_MS (uart_rx (h_uart h) 1)
      (([] @ [MSG_MAGIC]) @ ([type] @ le16 (of_nat (length data)) @ data)) rest" by (simp add: msg_header_def)
  then obtain mid where d: "delivers UART_XFER_TIMEOUT_MS (uart_rx (h_uart h) (get_uart_handle TRANSFER_INTERFACE)) ([] @ [MSG_MAGIC]) mid"
    "delivers UART_XFER_TIMEOUT_MS mid ([type] @ le16 (of_nat (length data)) @ data) rest"
    unfolding transfer_handle using delivers_append by blast
  have "unat (of_nat cap :: u16) = cap" using assms(3) by (simp add: unat_of_nat)
  with read_frame_ok [OF d(1) _ d(2), of "of_nat cap"] assms(2,3) show ?thesis
    by (simp add: xfer_read_def read_packet_timeout_def)
qed

text \<open>The file a device sends for a file of its vault.\<close>

definition sent_file :: "stored_file \<Rightarrow> hsm_file" where
  "sent_file f = \<lparr>f_in_use = FILE_IN_USE, f_group_id = sf_group f, f_name = sf_name f,
     f_contents_len = of_nat (length (sf_data f)), f_nonce = replicate 12 0, f_tag = replicate 16 0,
     f_contents = pad_to 8192 (sf_data f)\<rparr>"

text \<open>What a response can carry: the sizes of its fields. Every file that a device keeps is one.\<close>

definition sendable :: "stored_file \<Rightarrow> bool" where
  "sendable f \<longleftrightarrow> length (sf_name f) = 32 \<and> take 31 (sf_name f) @ [0] = sf_name f \<and>
     length (sf_uuid f) = 16 \<and> length (sf_data f) \<le> 8192"

lemma sendable_lengths:
  assumes "sendable f"
  shows "length (sf_name f) = 32" "length (sf_uuid f) = 16" "length (sf_data f) \<le> 8192"
  using assms by (simp_all add: sendable_def)

lemma file_at_sendable:
  assumes "hsm_ok h" "file_at P h slot f"
  shows "sendable f"
proof -
  have s: "slot_is_valid slot" "name_of slot h = new_name_entry (sf_name f) (sf_group f)" "take 31 (sf_name f) @ [0] = sf_name f"
    "g_fat (h_blob h) ! unat slot = blob_entry slot (sf_uuid f) (length (sf_data f))"
    using assms(2) by (auto simp: file_at_def holds_file_def blob_holds_def)
  from s(1) have i: "unat slot < 8" by (simp add: valid_slot)
  then have "name_of slot h \<in> set (h_names h)" "g_fat (h_blob h) ! unat slot \<in> set (g_fat (h_blob h))"
    using assms(1) by (auto simp: name_of_def hsm_ok_def names_ok_def blob_ok_def fat_ok_def)
  with assms(1) have "name_ok (name_of slot h)" "length (fat_uuid (g_fat (h_blob h) ! unat slot)) = 16"
    by (auto simp: hsm_ok_def names_ok_def blob_ok_def fat_ok_def)
  with s have "length (sf_name f) = 32" "length (sf_uuid f) = 16" by (simp_all add: name_ok_def new_name_entry_def blob_entry_def)
  with s(3) file_at_bounds [OF assms(2)] show ?thesis by (simp add: sendable_def)
qed

lemma sent_file_ok:
  assumes "sendable f"
  shows "file_ok (sent_file f)" "unat (f_contents_len (sent_file f)) = length (sf_data f)"
    and "length (receive_response_bytes (sf_uuid f) (sent_file f)) = 8276"
proof -
  note l = sendable_lengths [OF assms]
  show ok: "file_ok (sent_file f)" using l by (simp add: file_ok_def sent_file_def pad_to_def)
  show "unat (f_contents_len (sent_file f)) = length (sf_data f)" using l(3) by (simp add: sent_file_def unat_of_nat)
  show "length (receive_response_bytes (sf_uuid f) (sent_file f)) = 8276"
    using filec.enc_length [OF ok] l(2) by (simp add: receive_response_bytes_def)
qed

lemma group_mask_self: "(ucast (g :: u16) :: u32) AND ucast g = 0 \<longleftrightarrow> g = 0"
proof -
  have "(ucast g :: u32) = 0 \<longleftrightarrow> g = 0" by transfer (simp add: take_bit_take_bit)
  then show ?thesis by simp
qed

lemma listen_send_file_eq:
  assumes P: "platform_good P" and h: "represents P h v" and f: "v_files v slot = Some f" "sf_group f \<noteq> 0"
  obtains b where "represents P (h\<lparr>h_blob := b\<rparr>) v"
    and "listen_send_file P slot h = do {
       (rc, h) \<leftarrow> send TRANSFER_INTERFACE RECEIVE_MSG (receive_response_bytes (sf_uuid f) (sent_file f)) (h\<lparr>h_blob := b\<rparr>);
       if rc \<noteq> MSG_OK then fail ''Transfer write failed'' h else done_reply LISTEN_MSG [] h }"
proof -
  note fa = represents_file [OF h f(1)] and ok = h [unfolded represents_def, THEN conjunct1]
  have bo: "blob_ok (h_blob h)" using ok by (simp add: hsm_ok_def)
  have bh: "blob_holds P (h_flash h) (h_blob h) slot (sf_uuid f) (sf_owner f) (ucast (sf_group f)) (sf_data f)"
    using fa by (simp add: file_at_def holds_file_def new_name_entry_def)
  have m: "(ucast (sf_group f) :: u32) AND ucast (sf_group f) \<noteq> 0" using f(2) group_mask_self by blast
  from blob_write_read_all(2) [OF platform_goodD(1,2) [OF P] bo file_at_occupied(2) [OF fa] bh m file_at_bounds [OF fa] order.refl]
  obtain b where b: "blob_read_all_group_mask P slot (ucast (sf_group f)) 8192 (h_flash h) (h_blob h)
      = (SECURE_BLOB_STORE_OK, sf_data f, length (sf_data f), b)" by auto
  note keep = blob_read_keeps(2) [OF platform_goodD(1) [OF P] bo b]
  have "fat_uuid (g_fat (h_blob h) ! unat slot) = sf_uuid f" "take 31 (sf_name f) @ [0] = sf_name f"
    using fa by (auto simp: file_at_def holds_file_def blob_holds_def blob_entry_def)
  with b keep file_at_name [OF fa] file_at_bounds [OF fa]
  have "listen_send_file P slot h = do {
       (rc, h) \<leftarrow> send TRANSFER_INTERFACE RECEIVE_MSG (receive_response_bytes (sf_uuid f) (sent_file f)) (h\<lparr>h_blob := b\<rparr>);
       if rc \<noteq> MSG_OK then fail ''Transfer write failed'' h else done_reply LISTEN_MSG [] h }"
    by (simp add: listen_send_file_def MAX_CONTENTS_SIZE_def sent_file_def name_of_def)
  with represents_read [OF h conjunct1 [OF keep] conjunct2 [OF keep]] show thesis by (rule that)
qed

text \<open>The requester's end, once the file's frame arrives.\<close>

definition received_file :: "platform \<Rightarrow> byte list \<Rightarrow> stored_file \<Rightarrow> stored_file" where
  "received_file P pin f = f\<lparr>sf_owner := pin_hash P pin\<rparr>"

lemma receive_finish_eq:
  assumes h: "represents P h v" and ok: "sendable f"
    and d: "delivers UART_XFER_TIMEOUT_MS (uart_rx (h_uart h) 1)
      (frame RECEIVE_MSG (receive_response_bytes (sf_uuid f) (sent_file f))) rest"
    and perm: "validate_permission P (sf_group f) PERM_RECEIVE"
  defines "h1 \<equiv> h\<lparr>h_uart := add_tx 1 (concat (replicate (frame_blocks 8276) ack_frame)) (set_rx 1 rest (h_uart h))\<rparr>"
  shows "represents P h1 v" and "receive_finish P ws pin h =
    do { (rc, h) \<leftarrow> store_blob P ws pin (sf_name f) (sf_group f) (sf_uuid f) (sf_data f) h1;
         if rc \<noteq> 0 then Some (- 1, h) else done_reply RECEIVE_MSG [] h }"
proof -
  let ?bytes = "receive_response_bytes (sf_uuid f) (sent_file f)"
  note sf = sent_file_ok [OF ok] and l = sendable_lengths [OF ok]
  from xfer_read_ok [OF d, of 8276] sf(3) have x: "xfer_read RECEIVE_RESPONSE_SIZE h
      = Some (\<lparr>pk_status = MSG_OK, pk_cmd = Some RECEIVE_MSG, pk_len = of_nat 8276, pk_data = ?bytes\<rparr>, h1)"
    by (simp add: RECEIVE_RESPONSE_SIZE_def h1_def)
  show "represents P h1 v" unfolding h1_def
    by (rule represents_io [OF h]) (use h in \<open>simp_all add: represents_def hsm_ok_def same_store_def same_flash_def\<close>)
  have u: "segment 0 16 ?bytes = sf_uuid f" "drop 16 ?bytes = file_bytes (sent_file f)"
    using l(2) by (simp_all add: receive_response_bytes_def)
  have c: "take (unat (f_contents_len (sent_file f))) (f_contents (sent_file f)) = sf_data f"
    unfolding sf(2) by (simp add: sent_file_def pad_to_def)
  have st: "store_received_blob P ws (sf_uuid f) (sent_file f) pin h1
      = store_blob P ws pin (sf_name f) (sf_group f) (sf_uuid f) (sf_data f) h1"
    using perm l(3) sf(2) c by (simp add: store_received_blob_def MAX_CONTENTS_SIZE_def) (simp add: sent_file_def)
  show "receive_finish P ws pin h =
    do { (rc, h) \<leftarrow> store_blob P ws pin (sf_name f) (sf_group f) (sf_uuid f) (sf_data f) h1;
         if rc \<noteq> 0 then Some (- 1, h) else done_reply RECEIVE_MSG [] h }"
    using x u sf(3) filec.dec_enc_bare [OF sf(1)] st by (simp add: receive_finish_def RECEIVE_RESPONSE_SIZE_def)
qed

lemma received_store_sim:
  assumes P: "platform_good P" and h: "represents P h v" and ok: "sendable f"
    and s: "slot_is_valid ws" and pin: "length pin = 6"
    and w: "store_blob P ws pin (sf_name f) (sf_group f) (sf_uuid f) (sf_data f) h = Some (rc, h')"
  shows "rc = 0 \<and> h_uart h' = h_uart h \<and> represents P h' (put_file ws (received_file P pin f) v)"
proof -
  have "take 31 (sf_name f) @ [0] = sf_name f" using ok by (simp add: sendable_def)
  moreover have "received_file P pin f = \<lparr>sf_name = sf_name f, sf_group = sf_group f, sf_uuid = sf_uuid f,
      sf_owner = pin_hash P pin, sf_data = sf_data f\<rparr>" by (cases f) (simp add: received_file_def)
  ultimately show ?thesis using store_sim [OF P h s pin sendable_lengths [OF ok] w] by simp
qed

section \<open>A whole transfer\<close>

abbreviation ack_bytes :: "nat \<Rightarrow> byte list" where
  "ack_bytes n \<equiv> concat (replicate (frame_blocks n) ack_frame)"

abbreviation on_line :: "byte list \<Rightarrow> byte option list \<Rightarrow> hsm \<Rightarrow> hsm" where
  "on_line sent ps h \<equiv> h\<lparr>h_uart := add_tx 1 sent (set_rx 1 ps (h_uart h))\<rparr>"

lemma send_ok:
  assumes "delivers UART_XFER_TIMEOUT_MS (uart_rx (h_uart h) 1) (ack_bytes (length buf)) rest" "needs_ack type"
  shows "send TRANSFER_INTERFACE type buf h = Some (MSG_OK, on_line (frame type buf) rest h)"
  using write_packet_acked [of TRANSFER_INTERFACE "h_uart h" "replicate (frame_blocks (length buf)) ack_frame" rest buf type] assms
  by (simp add: send_def)

lemma represents_files:
  assumes "represents P h v" "same_files h h'" "replay_inv (h_replay h')"
  shows "represents P h' v"
  by (rule represents_io [OF assms(1) same_files_store [OF assms(2)]])
    (use assms in \<open>auto simp: represents_def hsm_ok_def same_files_def\<close>)

lemma represents_replay: "represents P h v \<Longrightarrow> replay_inv (h_replay h)"
  by (simp add: represents_def hsm_ok_def)

text \<open>The four messages of a transfer.\<close>

definition m_request :: "byte \<Rightarrow> u32 \<Rightarrow> byte list" where
  "m_request slot nr = receive_request_bytes \<lparr>rq_slot = slot, rq_requester_nonce = nr\<rparr>"

definition transfer_challenge :: "byte \<Rightarrow> stored_file \<Rightarrow> u32 \<Rightarrow> u32 \<Rightarrow> receive_challenge" where
  "transfer_challenge slot f nr nt =
     \<lparr>ch_slot = slot, ch_group_id = sf_group f, ch_requester_nonce = nr, ch_target_nonce = nt\<rparr>"

definition m_proof :: "platform \<Rightarrow> receive_challenge \<Rightarrow> byte list" where
  "m_proof P c = receive_proof_bytes (receive_challenge.extend c
     \<lparr>pf_proof = mac_of LABEL_RECV_SEED (\<lparr>k_master = K_master P\<rparr>, ch_group_id c) (receive_challenge_bytes c)\<rparr>)"

definition m_file :: "stored_file \<Rightarrow> byte list" where
  "m_file f = receive_response_bytes (sf_uuid f) (sent_file f)"

lemma length_messages [simp]:
  "length (m_request slot nr) = 5" "length (receive_challenge_bytes (c :: receive_challenge)) = 11" "length (m_proof P c) = 43"
  using recv.mac_length [of "(\<lparr>k_master = K_master P\<rparr>, ch_group_id c)"]
  by (simp_all add: m_request_def rqc.enc_length chc.enc_length m_proof_def pfc.enc_length receive_challenge.extend_def)

lemma proof_decodes: "un_receive_proof (m_proof P c) = receive_challenge.extend c
     \<lparr>pf_proof = mac_of LABEL_RECV_SEED (\<lparr>k_master = K_master P\<rparr>, ch_group_id c) (receive_challenge_bytes c)\<rparr>"
  unfolding m_proof_def
  by (rule pfc.dec_enc_bare) (use recv.mac_length in \<open>simp add: receive_challenge.extend_def\<close>)

lemma pad_same [simp]: "length bs = n \<Longrightarrow> pad_to n bs = bs"
  by (simp add: pad_to_def)

text \<open>Both ends: the bytes each gets, in order, are those the other sends.\<close>

definition to_server :: "platform \<Rightarrow> byte \<Rightarrow> stored_file \<Rightarrow> u32 \<Rightarrow> u32 \<Rightarrow> byte list" where
  "to_server P slot f nr nt = frame RECEIVE_MSG (m_request slot nr) @ ack_bytes 11 @
     frame RECEIVE_MSG (m_proof P (transfer_challenge slot f nr nt)) @ ack_bytes 8276"

definition to_requester :: "byte \<Rightarrow> stored_file \<Rightarrow> u32 \<Rightarrow> u32 \<Rightarrow> byte list" where
  "to_requester slot f nr nt = ack_bytes 5 @ frame RECEIVE_MSG (receive_challenge_bytes (transfer_challenge slot f nr nt)) @
     ack_bytes 43 @ frame RECEIVE_MSG (m_file f)"

lemma done_ok:
  assumes "delivers (uart_frame_timeout_ms CONTROL_INTERFACE) (uart_rx (h_uart h) 0) ack_frame rest" "needs_ack type"
  shows "done_reply type [] h = Some (0, h\<lparr>h_uart := add_tx 0 (frame type []) (set_rx 0 rest (h_uart h))\<rparr>)"
  using write_packet_acked [of CONTROL_INTERFACE "h_uart h" "[ack_frame]" rest "[]" type] acks_frames [of 1] assms
  by (simp add: done_reply_def send_def frame_blocks_def)

lemma extend_sel:
  "ch_slot (receive_challenge.extend c x) = ch_slot c" "ch_group_id (receive_challenge.extend c x) = ch_group_id c"
  "ch_requester_nonce (receive_challenge.extend c x) = ch_requester_nonce c"
  "ch_target_nonce (receive_challenge.extend c x) = ch_target_nonce c"
  "pf_proof (receive_challenge.extend c \<lparr>pf_proof = m\<rparr>) = m"
  by (simp_all add: receive_challenge.extend_def)

lemma listen_receive_ok:
  assumes "listen_send_file P slot h5 = r" and req: "length request = 5" "hd request = slot" "un_le32 (tl request) = nr"
    and o: "occupied slot h" and g: "ne_group_id (name_of slot h) = ch_group_id c"
    and c: "ch_slot c = slot" "ch_requester_nonce c = nr" "ch_target_nonce c = nt"
    and n: "security_generate_nonce 4 (h_trng h) = Some (Some (le32 nt), tr)"
    and s: "send TRANSFER_INTERFACE RECEIVE_MSG (receive_challenge_bytes c) (h\<lparr>h_trng := tr\<rparr>) = Some (MSG_OK, h3)"
    and x: "xfer_read 43 h3 = Some (\<lparr>pk_status = MSG_OK, pk_cmd = Some RECEIVE_MSG, pk_len = l,
        pk_data = m_proof Q c\<rparr>, h4)"
    and Q: "secrets_ok P" "secrets_ok Q" "GLOBAL_SECRETS P = GLOBAL_SECRETS Q"
    and ch: "check_replay nr nt (ch_group_id c) RECEIVE_MSG h4 = (True, h5)"
  shows "listen_receive P request h = r"
proof -
  have f: "fresh_nonce h = Some (Some nt, h\<lparr>h_trng := tr\<rparr>)" using n by (simp add: fresh_nonce_def)
  have e: "\<lparr>ch_slot = slot, ch_group_id = ne_group_id (name_of slot (h\<lparr>h_trng := tr\<rparr>)), ch_requester_nonce = nr,
      ch_target_nonce = nt\<rparr> = c" using g c by (simp add: name_of_def)
  have v: "verify_proof P (ch_group_id c) (receive_challenge_bytes c)
      (mac_of LABEL_RECV_SEED (\<lparr>k_master = K_master Q\<rparr>, ch_group_id c) (receive_challenge_bytes c))"
    using Q by (simp add: verify_proof_iff sign_proof_eq K_master_def)
  have t: "receive_challenge.truncate (receive_challenge.extend c x) = c" for x
    by (simp add: receive_challenge.truncate_def receive_challenge.extend_def)
  have q: "rq_slot (un_receive_request request) = slot" "rq_requester_nonce (un_receive_request request) = nr"
    using request_parts [OF req(1)] req by (simp_all add: RECEIVE_REQUEST_SIZE_def)
  show ?thesis
    using o req f s x v c ch assms(1)
    by (simp add: listen_receive_def Let_def RECEIVE_REQUEST_SIZE_def RECEIVE_PROOF_SIZE_def q e proof_decodes t extend_sel)
qed

lemma server_transfer:
  assumes P: "platform_good P" and h: "represents P h v" and f: "v_files v slot = Some f" "sf_group f \<noteq> 0"
    and Q: "secrets_ok Q" "GLOBAL_SECRETS P = GLOBAL_SECRETS Q"
    and n: "security_generate_nonce 4 (h_trng h) = Some (Some (le32 nt), tr)"
    and fresh: "fst (security_secure_uart_check_and_update_replay nr nt (sf_group f) RECEIVE_MSG (h_replay h))"
    and line: "delivers UART_XFER_TIMEOUT_MS (uart_rx (h_uart h) 1) (to_server Q slot f nr nt) rest"
    and host: "delivers (uart_frame_timeout_ms CONTROL_INTERFACE) (uart_rx (h_uart h) 0) ack_frame rest0"
  shows "\<exists>h'. listen P pkt h = Some (0, h') \<and> represents P h' v \<and>
    uart_tx (h_uart h') 1 = uart_tx (h_uart h) 1 @ to_requester slot f nr nt"
proof -
  let ?ms = UART_XFER_TIMEOUT_MS and ?c = "transfer_challenge slot f nr nt"
  from line obtain m1 m2 m3 where d1: "delivers ?ms (uart_rx (h_uart h) 1) (frame RECEIVE_MSG (m_request slot nr)) m1"
    and d2: "delivers ?ms m1 (ack_bytes 11) m2" and d3: "delivers ?ms m2 (frame RECEIVE_MSG (m_proof Q ?c)) m3"
    and d4: "delivers ?ms m3 (ack_bytes 8276) rest"
    unfolding to_server_def delivers_append by blast
  define h1 where "h1 = on_line (ack_bytes 5) m1 h"
  define h3 where "h3 = on_line (frame RECEIVE_MSG (receive_challenge_bytes ?c)) m2 (h1\<lparr>h_trng := tr\<rparr>)"
  define h4 where "h4 = on_line (ack_bytes 43) m3 h3"
  obtain c where c: "security_secure_uart_check_and_update_replay nr nt (sf_group f) RECEIVE_MSG (h_replay h) = (True, c)"
    using fresh by (metis prod.collapse)
  define h5 where "h5 = h4\<lparr>h_replay := c\<rparr>"
  note hs = h1_def h3_def h4_def h5_def
  have ci: "replay_inv c"
    using replay_inv_check [OF represents_replay [OF h], of "(nr, nt, sf_group f, RECEIVE_MSG)"] c by simp
  have same: "same_files h h1" "same_files h h5" by (simp_all add: hs same_files_def)
  have r5: "represents P h5 v" by (rule represents_files [OF h same(2)]) (simp add: hs ci)
  from listen_send_file_eq [OF P r5 f] obtain b where r6: "represents P (h5\<lparr>h_blob := b\<rparr>) v"
    and sf: "listen_send_file P slot h5 = do {
       (rc, h) \<leftarrow> send TRANSFER_INTERFACE RECEIVE_MSG (receive_response_bytes (sf_uuid f) (sent_file f)) (h5\<lparr>h_blob := b\<rparr>);
       if rc \<noteq> MSG_OK then fail ''Transfer write failed'' h else done_reply LISTEN_MSG [] h }" .
  have len: "length (m_file f) = 8276"
    using sent_file_ok(3) [OF file_at_sendable [OF _ represents_file [OF h f(1)]]] h by (simp add: represents_def m_file_def)
  define h6 where "h6 = on_line (frame RECEIVE_MSG (m_file f)) rest (h5\<lparr>h_blob := b\<rparr>)"
  have s6: "send TRANSFER_INTERFACE RECEIVE_MSG (m_file f) (h5\<lparr>h_blob := b\<rparr>) = Some (MSG_OK, h6)"
    unfolding h6_def by (rule send_ok) (use d4 len in \<open>simp_all add: hs needs_ack_def\<close>)
  define h7 where "h7 = h6\<lparr>h_uart := add_tx 0 (frame LISTEN_MSG []) (set_rx 0 rest0 (h_uart h6))\<rparr>"
  have done7: "done_reply LISTEN_MSG [] h6 = Some (0, h7)"
    unfolding h7_def by (rule done_ok) (use host in \<open>simp_all add: hs h6_def needs_ack_def\<close>)
  have sent: "listen_send_file P slot h5 = Some (0, h7)" using sf s6 done7 by (simp add: m_file_def)
  have req: "m_request slot nr = slot # le32 nr" by (simp add: m_request_def receive_request_bytes_def)
  have lr: "listen_receive P (m_request slot nr) h1 = Some (0, h7)"
  proof (rule listen_receive_ok [where c = ?c and Q = Q and nr = nr and nt = nt and ?h4.0 = h4 and ?h3.0 = h3, OF sent])
    show "security_generate_nonce 4 (h_trng h1) = Some (Some (le32 nt), tr)" using n by (simp add: hs)
    show "send TRANSFER_INTERFACE RECEIVE_MSG (receive_challenge_bytes ?c) (h1\<lparr>h_trng := tr\<rparr>) = Some (MSG_OK, h3)"
      unfolding h3_def by (rule send_ok) (use d2 in \<open>simp_all add: h1_def needs_ack_def\<close>)
    show "xfer_read 43 h3 = Some (\<lparr>pk_status = MSG_OK, pk_cmd = Some RECEIVE_MSG, pk_len = of_nat 43, pk_data = m_proof Q ?c\<rparr>, h4)"
      using xfer_read_ok [of h3 RECEIVE_MSG "m_proof Q ?c" m3 43] d3 by (simp add: h3_def h4_def)
    have "same_store h h1" by (rule same_files_store [OF same(1)])
    with represents_occupied [OF h, of slot] f(1) file_at_name [OF represents_file [OF h f(1)]]
    show "occupied slot h1" "ne_group_id (name_of slot h1) = ch_group_id ?c"
      by (simp_all add: same_store_occupied same_store_name transfer_challenge_def)
    show "check_replay nr nt (ch_group_id ?c) RECEIVE_MSG h4 = (True, h5)"
      using c by (simp add: check_replay_def transfer_challenge_def hs)
  qed (use req Q platform_goodD(1) [OF P] in \<open>simp_all add: transfer_challenge_def\<close>)
  have "listen P pkt h = Some (0, h7)"
    using xfer_read_ok [of h RECEIVE_MSG "m_request slot nr" m1 281] d1 lr
    by (simp add: listen_def INTERROGATE_PROOF_SIZE_def h1_def)
  moreover have "represents P h7 v" by (rule represents_files [OF r6]) (simp_all add: h7_def h6_def hs ci same_files_def)
  moreover have "uart_tx (h_uart h7) 1 = uart_tx (h_uart h) 1 @ to_requester slot f nr nt"
    by (simp add: h7_def h6_def hs to_requester_def)
  ultimately show ?thesis by blast
qed

lemma receive_finish_ok:
  assumes P: "platform_good P" and h: "represents P h v" and ok: "sendable f"
    and d: "delivers UART_XFER_TIMEOUT_MS (uart_rx (h_uart h) 1) (frame RECEIVE_MSG (m_file f)) rest"
    and perm: "validate_permission P (sf_group f) PERM_RECEIVE" and s: "slot_is_valid ws" and pin: "length pin = 6"
    and n: "3 \<le> length (trng_words (trng_polls (h_trng h)))"
    and host: "delivers (uart_frame_timeout_ms CONTROL_INTERFACE) (uart_rx (h_uart h) 0) ack_frame rest0"
  shows "\<exists>h'. receive_finish P ws pin h = Some (0, h') \<and> represents P h' (put_file ws (received_file P pin f) v) \<and>
    uart_tx (h_uart h') 1 = uart_tx (h_uart h) 1 @ ack_bytes 8276"
proof -
  let ?h = "on_line (ack_bytes 8276) rest h"
  note e1 = receive_finish_eq(1) [OF h ok d [unfolded m_file_def] perm]
    and e2 = receive_finish_eq(2) [OF h ok d [unfolded m_file_def] perm, of ws pin]
  have okh: "hsm_ok ?h" using e1 by (simp add: represents_def)
  have nh: "3 \<le> length (trng_words (trng_polls (h_trng ?h)))" using n by simp
  from store_returns [OF P okh s pin sendable_lengths [OF ok] nh] obtain rc h1 where
    w: "store_blob P ws pin (sf_name f) (sf_group f) (sf_uuid f) (sf_data f) ?h = Some (rc, h1)" by (metis prod.collapse)
  note st = received_store_sim [OF P e1 ok s pin w]
  have host1: "delivers (uart_frame_timeout_ms CONTROL_INTERFACE) (uart_rx (h_uart h1) 0) ack_frame rest0"
    using st host by simp
  define h2 where "h2 = h1\<lparr>h_uart := add_tx 0 (frame RECEIVE_MSG []) (set_rx 0 rest0 (h_uart h1))\<rparr>"
  have "done_reply RECEIVE_MSG [] h1 = Some (0, h2)"
    unfolding h2_def by (rule done_ok [OF host1]) (simp add: needs_ack_def)
  with e2 w st have "receive_finish P ws pin h = Some (0, h2)" by simp
  moreover have "represents P h2 (put_file ws (received_file P pin f) v)"
    by (rule represents_files [OF conjunct2 [OF conjunct2 [OF st]]])
      (use st in \<open>auto simp: h2_def same_files_def represents_def hsm_ok_def\<close>)
  moreover have "uart_tx (h_uart h2) 1 = uart_tx (h_uart h) 1 @ ack_bytes 8276" using st by (simp add: h2_def)
  ultimately show ?thesis by blast
qed

lemma requester_transfer:
  assumes P: "platform_good P" and h: "represents P h v" and len: "8 \<le> length pkt" and o: "opens P (segment 0 6 pkt) v"
    and ok: "sendable f"
    and perm: "validate_permission P (sf_group f) PERM_RECEIVE" and s: "slot_is_valid (pkt ! 7)"
    and n: "security_generate_nonce 4 (h_trng h) = Some (Some (le32 nr), tr)" "3 \<le> length (trng_words (trng_polls tr))"
    and line: "delivers UART_XFER_TIMEOUT_MS (uart_rx (h_uart h) 1) (to_requester (pkt ! 6) f nr nt) rest"
    and host: "delivers (uart_frame_timeout_ms CONTROL_INTERFACE) (uart_rx (h_uart h) 0) ack_frame rest0"
  shows "\<exists>h'. receive P pkt h = Some (0, h') \<and>
    represents P h' (put_file (pkt ! 7) (received_file P (segment 0 6 pkt) f) v) \<and>
    uart_tx (h_uart h') 1 = uart_tx (h_uart h) 1 @ to_server P (pkt ! 6) f nr nt"
proof -
  let ?ms = UART_XFER_TIMEOUT_MS and ?slot = "pkt ! 6" and ?pin = "segment 0 6 pkt" and ?h = "attempted P (segment 0 6 pkt) h"
  let ?c = "transfer_challenge ?slot f nr nt"
  from line obtain m1 m2 m3 where d1: "delivers ?ms (uart_rx (h_uart h) 1) (ack_bytes 5) m1"
    and d2: "delivers ?ms m1 (frame RECEIVE_MSG (receive_challenge_bytes ?c)) m2" and d3: "delivers ?ms m2 (ack_bytes 43) m3"
    and d4: "delivers ?ms m3 (frame RECEIVE_MSG (m_file f)) rest"
    unfolding to_requester_def delivers_append by blast
  note hh = represents_attempted [OF P h, of ?pin]
  have tr: "h_trng ?h = h_trng h" using attempted_keeps(4) [OF platform_goodD(3) [OF P]] h by (auto simp: represents_def)
  define h2 where "h2 = on_line (frame RECEIVE_MSG (m_request ?slot nr)) m1 (?h\<lparr>h_trng := tr\<rparr>)"
  define h3 where "h3 = on_line (ack_bytes 11) m2 h2"
  define h4 where "h4 = on_line (frame RECEIVE_MSG (m_proof P ?c)) m3 h3"
  note hs = h2_def h3_def h4_def
  have gate: "pin_gate P ?pin h = Some (0, ?h)" using gate_open [OF P h, of pkt] o by simp
  have fr: "fresh_nonce ?h = Some (Some nr, ?h\<lparr>h_trng := tr\<rparr>)" using n tr by (simp add: fresh_nonce_def)
  have s2: "send TRANSFER_INTERFACE RECEIVE_MSG (m_request ?slot nr) (?h\<lparr>h_trng := tr\<rparr>) = Some (MSG_OK, h2)"
    unfolding h2_def by (rule send_ok) (use d1 in \<open>simp_all add: needs_ack_def\<close>)
  have x3: "xfer_read 11 h2 = Some (\<lparr>pk_status = MSG_OK, pk_cmd = Some RECEIVE_MSG, pk_len = of_nat 11,
      pk_data = receive_challenge_bytes ?c\<rparr>, h3)"
    using xfer_read_ok [of h2 RECEIVE_MSG "receive_challenge_bytes ?c" m2 11] d2 by (simp add: hs)
  have s4: "send TRANSFER_INTERFACE RECEIVE_MSG (m_proof P ?c) h3 = Some (MSG_OK, h4)"
    unfolding h4_def by (rule send_ok) (use d3 in \<open>simp_all add: hs needs_ack_def\<close>)
  have dec: "un_receive_challenge (receive_challenge_bytes ?c) = ?c" by (rule chc.dec_enc_bare) simp
  have g: "ch_group_id ?c = sf_group f" "ch_slot ?c = ?slot" "ch_requester_nonce ?c = nr" by (simp_all add: transfer_challenge_def)
  have "receive_prove P ?c (pkt ! 7) ?pin h3 = receive_finish P (pkt ! 7) ?pin h4"
    using s4 by (simp add: receive_prove_def sign_proof_eq [OF platform_goodD(1) [OF P]] m_proof_def)
  then have eq: "receive P pkt h = receive_finish P (pkt ! 7) ?pin h4"
    using len gate fr s2 x3 perm g dec
    by (simp add: receive_def Let_def RECEIVE_COMMAND_SIZE_def RECEIVE_CHALLENGE_SIZE_def m_request_def)
  have r4: "represents P h4 v"
    by (rule represents_files [OF hh]) (use hh in \<open>auto simp: hs same_files_def represents_def hsm_ok_def\<close>)
  have "\<exists>h'. receive_finish P (pkt ! 7) ?pin h4 = Some (0, h') \<and>
      represents P h' (put_file (pkt ! 7) (received_file P ?pin f) v) \<and>
      uart_tx (h_uart h') 1 = uart_tx (h_uart h4) 1 @ ack_bytes 8276"
    by (rule receive_finish_ok [OF P r4 ok _ perm s]) (use d4 n(2) host len in \<open>simp_all add: hs\<close>)
  then show ?thesis unfolding eq by (auto simp: hs to_server_def)
qed

section \<open>Properties\<close>

text \<open>
  C7: Two devices with the same secrets, the requester's PIN right and the group's receive
  permission granted there: if each gets on its transfer line what the other sends, both
  commands complete, what each sends is what the other was taken to get, the requester ends
  with the file (name, group, identifier and contents as on the sender) in its slot under its
  own PIN, and the sender's files are as before.
\<close>

theorem transfer_completes:
  assumes "platform_good P" "represents P hR vR" "platform_good Q" "represents Q hS vS" "GLOBAL_SECRETS P = GLOBAL_SECRETS Q"
    and "8 \<le> length pkt" "opens P (segment 0 6 pkt) vR" "slot_is_valid (pkt ! 7)"
    and "v_files vS (pkt ! 6) = Some f" "sf_group f \<noteq> 0" "validate_permission P (sf_group f) PERM_RECEIVE"
    and "security_generate_nonce 4 (h_trng hR) = Some (Some (le32 nr), tr)" "3 \<le> length (trng_words (trng_polls tr))"
    and "security_generate_nonce 4 (h_trng hS) = Some (Some (le32 nt), tr')"
    and "fst (security_secure_uart_check_and_update_replay nr nt (sf_group f) RECEIVE_MSG (h_replay hS))"
    and "delivers UART_XFER_TIMEOUT_MS (uart_rx (h_uart hR) 1) (to_requester (pkt ! 6) f nr nt) restR"
    and "delivers UART_XFER_TIMEOUT_MS (uart_rx (h_uart hS) 1) (to_server P (pkt ! 6) f nr nt) restS"
    and "delivers (uart_frame_timeout_ms CONTROL_INTERFACE) (uart_rx (h_uart hR) 0) ack_frame cR"
    and "delivers (uart_frame_timeout_ms CONTROL_INTERFACE) (uart_rx (h_uart hS) 0) ack_frame cS"
  shows "\<exists>hR' hS'. receive P pkt hR = Some (0, hR') \<and> listen Q any hS = Some (0, hS') \<and>
    uart_tx (h_uart hR') 1 = uart_tx (h_uart hR) 1 @ to_server P (pkt ! 6) f nr nt \<and>
    uart_tx (h_uart hS') 1 = uart_tx (h_uart hS) 1 @ to_requester (pkt ! 6) f nr nt \<and>
    represents P hR' (put_file (pkt ! 7) (f\<lparr>sf_owner := pin_hash P (segment 0 6 pkt)\<rparr>) vR) \<and> represents Q hS' vS"
proof -
  have A: "hsm_ok hS" using assms(4) by (simp add: represents_def)
  from requester_transfer [OF assms(1,2,6,7) file_at_sendable [OF A represents_file [OF assms(4,9)]] assms(11,8,12,13,16,18)]
    server_transfer [OF assms(3,4,9,10) platform_goodD(1) [OF assms(1)] _ assms(14,15,17,19), of any] assms(5)
  show ?thesis by (auto simp: received_file_def)
qed

text \<open>
  C21: The requester asks for no proof of its peer. Whoever answers its request with the nonce it
  sent and the group's number, with no key at all, makes it store any name and contents of a
  group that it may receive, as an import that succeeded.
\<close>

theorem import_from_anyone:
  assumes "platform_good P" "represents P h v" "8 \<le> length pkt" "opens P (segment 0 6 pkt) v" "slot_is_valid (pkt ! 7)"
    and "sendable f" "validate_permission P (sf_group f) PERM_RECEIVE"
    and "security_generate_nonce 4 (h_trng h) = Some (Some (le32 nr), tr)" "3 \<le> length (trng_words (trng_polls tr))"
    and "delivers UART_XFER_TIMEOUT_MS (uart_rx (h_uart h) 1) (ack_bytes 5 @
      frame RECEIVE_MSG (receive_challenge_bytes (transfer_challenge (pkt ! 6) f nr nt)) @ ack_bytes 43 @
      frame RECEIVE_MSG (m_file f)) rest"
    and "delivers (uart_frame_timeout_ms CONTROL_INTERFACE) (uart_rx (h_uart h) 0) ack_frame host"
  shows "\<exists>h'. receive P pkt h = Some (0, h') \<and>
    represents P h' (put_file (pkt ! 7) (f\<lparr>sf_owner := pin_hash P (segment 0 6 pkt)\<rparr>) v)"
  using requester_transfer [OF assms(1-4,6,7,5,8,9) _ assms(11), of nt rest] assms(10)
  by (auto simp: to_requester_def received_file_def)



text \<open>
  C36: A device answers a challenge with a proof only after the right PIN, only for the slot and
  the nonce it asked for, and only for a group it may receive. In every other case nothing but
  its request and acknowledgements goes out on the transfer line, and its files stay.
\<close>

theorem proof_needs_pin_and_permission:
  assumes "secrets_ok P" "flash_ok P" "hsm_ok h" "receive P pkt h = Some (rc, h')"
  shows "fetch_stopped P pkt h rc h' \<or>
    (\<exists>c h2. fetch_authorised P pkt c h h2 \<and> receive_prove P c (pkt ! 7) (segment 0 6 pkt) h2 = Some (rc, h'))"
  by (rule receive_outcomes [OF assms])

text \<open>
  C37: The proofs of an interrogation are for exactly the groups the device may receive, and a
  device with the same secrets accepts every one of them.
\<close>

theorem interrogation_offers:
  assumes "secrets_ok P" "secrets_ok Q" "GLOBAL_SECRETS P = GLOBAL_SECRETS Q" "perms = take 8 (global_permissions P)"
  shows "\<exists>proofs. interrogate_proofs \<lparr>k_master = K_master P\<rparr> (interrogate_challenge_bytes c) perms [] = Some proofs \<and>
    map gp_group_id proofs = map perm_group_id (filter perm_receive perms) \<and> groups_proven Q c proofs"
proof -
  have "length (filter perm_receive perms) \<le> 8" using assms(4) length_filter_le [of perm_receive perms] by simp
  with interrogate_proofs_eq [of "[]" perms "\<lparr>k_master = K_master P\<rparr>" "interrogate_challenge_bytes c"]
    offers_proven [OF assms(1-3), of c "filter perm_receive perms"]
  show ?thesis by (simp add: offer_def comp_def)
qed

text \<open>
  The messages between devices decode to what was encoded, each in its fixed length; of an
  interrogation reply the challenge, the count and the proofs sent.
\<close>

theorem messages_roundtrip:
  assumes "length (pf_proof p) = 32" "file_ok f" "length (ip_proofs q) \<le> 8" "\<forall>g \<in> set (ip_proofs q). length (gp_proof g) = 32"
  shows "un_receive_proof (receive_proof_bytes p) = p \<and> un_file (file_bytes f) = f \<and>
    interrogate_challenge.truncate (un_interrogate_proof (interrogate_proof_bytes q)) = interrogate_challenge.truncate q \<and>
    ip_proof_count (un_interrogate_proof (interrogate_proof_bytes q)) = ip_proof_count q \<and>
    take (length (ip_proofs q)) (ip_proofs (un_interrogate_proof (interrogate_proof_bytes q))) = ip_proofs q \<and>
    length (receive_proof_bytes p) = RECEIVE_PROOF_SIZE \<and> length (interrogate_proof_bytes q) = INTERROGATE_PROOF_SIZE"
  using pfc.dec_enc_bare [OF assms(1)] filec.dec_enc_bare [OF assms(2)] interrogate_proof_roundtrip [OF assms(3,4) refl]
    pfc.enc_length [OF assms(1)] by (simp add: RECEIVE_PROOF_SIZE_def INTERROGATE_PROOF_SIZE_def)

section \<open>Two devices\<close>

text \<open>Lines to the host and to the peer, and a generator with a word to spare.\<close>

definition ref_lines :: "byte list \<Rightarrow> byte list \<Rightarrow> uart_dev" where
  "ref_lines host peer = \<lparr>uart_rx = (\<lambda>i. if i = 1 then map Some peer else map Some host), uart_tx = (\<lambda>_. [])\<rparr>"

definition ref_trng4 :: trng_dev where
  "ref_trng4 = ref_trng\<lparr>trng_polls := TrngReady 7 # trng_polls ref_trng\<rparr>"

lemma ref_trng4_nonce: "security_generate_nonce 4 ref_trng4 = Some (Some (le32 7), ref_trng)"
proof -
  have "trng_word_bytes 7 = le32 7" by (simp add: trng_word_bytes_def le32_def upt_rec)
  moreover have "trng_fill 4 [] (TrngReady 7 # ps) = Some (trng_word_bytes 7, ps)" for ps
    by (simp add: trng_fill.simps TRNG_POLL_LIMIT_def)
  ultimately show ?thesis by (simp add: security_generate_nonce_def trng_read_bytes_def ref_trng4_def)
qed

lemma delivers_all: "0 < uart_loops ms \<or> ms = UART_RX_TIMEOUT_MS \<Longrightarrow> delivers ms (map Some bs) bs []"
proof (induction bs)
  case (Cons b bs)
  then show ?case using delivers_Cons [of ms 0 "map Some bs" bs "[]" b] by (auto simp: gap_ok_def)
qed simp

lemma ref_lines_deliver:
  "delivers UART_XFER_TIMEOUT_MS (uart_rx (ref_lines host peer) 1) peer []"
  "delivers (uart_frame_timeout_ms CONTROL_INTERFACE) (uart_rx (ref_lines host peer) 0) host []"
  using delivers_all [of UART_XFER_TIMEOUT_MS] delivers_all [of "uart_frame_timeout_ms CONTROL_INTERFACE"] uart_loops_xfer
  by (simp_all add: ref_lines_def uart_frame_timeout_ms_def)

definition with_io :: "uart_dev \<Rightarrow> hsm \<Rightarrow> hsm" where
  "with_io u h = h\<lparr>h_uart := u, h_trng := ref_trng4, h_replay := ref_replay\<rparr>"

lemma with_io_sel [simp]: "h_uart (with_io u h) = u" "h_trng (with_io u h) = ref_trng4" "h_replay (with_io u h) = ref_replay"
  by (simp_all add: with_io_def)

lemma represents_with_io: "represents P h v \<Longrightarrow> represents P (with_io u h) v"
  by (rule represents_files) (simp_all add: with_io_def same_files_def ref_replay_inv)

lemma ref_fresh: "fst (security_secure_uart_check_and_update_replay nr nt g opc ref_replay)"
  by (simp add: security_secure_uart_check_and_update_replay_def ref_replay_def replay_entry_zero_def list_ex_iff Let_def)

text \<open>The requester fetches slot 2 of the sender into its slot 3.\<close>

definition ref_fetch_pkt :: "byte list" where
  "ref_fetch_pkt = [49, 50, 51, 52, 53, 54, 2, 3]"

lemma ref_fetch_parts: "length ref_fetch_pkt = 8" "segment 0 6 ref_fetch_pkt = [49, 50, 51, 52, 53, 54]"
  "ref_fetch_pkt ! 6 = 2" "ref_fetch_pkt ! 7 = 3"
  by (simp_all add: ref_fetch_pkt_def segment_def)

lemma ref_receivable: "validate_permission ref_platform 5 PERM_RECEIVE"
  by (simp add: validate_permission_def ref_platform_def ref_permissions_def MAX_PERMS_def)

lemma ref_sender:
  obtains hS where "represents ref_platform hS (put_file 2 ref_file ref_vault)"
  by (rule ref_write) (rule that)

lemma transfer_completes_witness:
  "\<exists>hR hS hR' hS' v. represents ref_platform hS (put_file 2 ref_file ref_vault) \<and>
     receive ref_platform ref_fetch_pkt hR = Some (0, hR') \<and> listen ref_platform [] hS = Some (0, hS') \<and>
     represents ref_platform hR' v \<and> v_files v 3 = Some ref_file"
proof -
  obtain h where "represents ref_platform h (put_file 2 ref_file ref_vault)" by (rule ref_sender)
  let ?hS = "with_io (ref_lines ack_frame (to_server ref_platform 2 ref_file 7 7)) h"
  let ?hR = "with_io (ref_lines ack_frame (to_requester 2 ref_file 7 7)) (ref_hsm [])"
  note S = represents_with_io [OF \<open>represents ref_platform h _\<close>] and R = represents_with_io [OF ref_represents]
  have f: "v_files (put_file 2 ref_file ref_vault) (ref_fetch_pkt ! 6) = Some ref_file"
    by (simp add: put_file_def ref_fetch_parts)
  have g: "sf_group ref_file = 5" "ref_file\<lparr>sf_owner := pin_hash ref_platform [49, 50, 51, 52, 53, 54]\<rparr> = ref_file"
    by (simp_all add: ref_file_def ref_pin_def)
  have n: "security_generate_nonce 4 (h_trng ?hR) = Some (Some (le32 7), ref_trng)"
    "security_generate_nonce 4 (h_trng ?hS) = Some (Some (le32 7), ref_trng)" using ref_trng4_nonce by simp_all
  have d: "delivers UART_XFER_TIMEOUT_MS (uart_rx (h_uart ?hR) 1) (to_requester (ref_fetch_pkt ! 6) ref_file 7 7) []"
    "delivers UART_XFER_TIMEOUT_MS (uart_rx (h_uart ?hS) 1) (to_server ref_platform (ref_fetch_pkt ! 6) ref_file 7 7) []"
    "delivers (uart_frame_timeout_ms CONTROL_INTERFACE) (uart_rx (h_uart ?hR) 0) ack_frame []"
    "delivers (uart_frame_timeout_ms CONTROL_INTERFACE) (uart_rx (h_uart ?hS) 0) ack_frame []"
    using ref_lines_deliver by (simp_all add: ref_fetch_parts)
  have "\<exists>hR' hS'. receive ref_platform ref_fetch_pkt ?hR = Some (0, hR') \<and> listen ref_platform [] ?hS = Some (0, hS') \<and>
    uart_tx (h_uart hR') 1 = uart_tx (h_uart ?hR) 1 @ to_server ref_platform (ref_fetch_pkt ! 6) ref_file 7 7 \<and>
    uart_tx (h_uart hS') 1 = uart_tx (h_uart ?hS) 1 @ to_requester (ref_fetch_pkt ! 6) ref_file 7 7 \<and>
    represents ref_platform hR' (put_file (ref_fetch_pkt ! 7) (ref_file\<lparr>sf_owner := pin_hash ref_platform
      (segment 0 6 ref_fetch_pkt)\<rparr>) ref_vault) \<and>
    represents ref_platform hS' (put_file 2 ref_file ref_vault)"
    by (rule transfer_completes [OF ref_platform_good R ref_platform_good S refl _ _ _ f _ _ n(1) ref_trng_words n(2) _ d])
      (simp_all add: g ref_fetch_parts ref_opens ref_receivable valid_slot ref_fresh)
  then obtain hR' hS' where "receive ref_platform ref_fetch_pkt ?hR = Some (0, hR')" "listen ref_platform [] ?hS = Some (0, hS')"
    and "represents ref_platform hR' (put_file 3 ref_file ref_vault)" unfolding ref_fetch_parts g by blast
  moreover have "v_files (put_file 3 ref_file ref_vault) 3 = Some ref_file" by (simp add: put_file_def)
  ultimately show ?thesis using S by blast
qed

lemma import_from_anyone_witness:
  "\<exists>h h' v. represents ref_platform h ref_vault \<and> receive ref_platform ref_fetch_pkt h = Some (0, h') \<and>
     represents ref_platform h' v \<and> v_files v 3 = Some (ref_file\<lparr>sf_data := [6, 6, 6]\<rparr>)"
proof -
  let ?f = "ref_file\<lparr>sf_data := [6, 6, 6]\<rparr>" and ?pin = "segment 0 6 ref_fetch_pkt"
  let ?h = "with_io (ref_lines ack_frame (to_requester 2 ?f 7 9)) (ref_hsm [])"
  have g: "sf_group ?f = 5" "?f\<lparr>sf_owner := pin_hash ref_platform [49, 50, 51, 52, 53, 54]\<rparr> = ?f"
    by (simp_all add: ref_file_def ref_pin_def)
  have s: "sendable ?f" by (simp add: sendable_def ref_file_def)
  have n: "security_generate_nonce 4 (h_trng ?h) = Some (Some (le32 7), ref_trng)" using ref_trng4_nonce by simp
  have d: "delivers UART_XFER_TIMEOUT_MS (uart_rx (h_uart ?h) 1) (ack_bytes 5 @
      frame RECEIVE_MSG (receive_challenge_bytes (transfer_challenge (ref_fetch_pkt ! 6) ?f 7 9)) @ ack_bytes 43 @
      frame RECEIVE_MSG (m_file ?f)) []"
    "delivers (uart_frame_timeout_ms CONTROL_INTERFACE) (uart_rx (h_uart ?h) 0) ack_frame []"
    using ref_lines_deliver by (simp_all add: to_requester_def ref_fetch_parts)
  have "\<exists>h'. receive ref_platform ref_fetch_pkt ?h = Some (0, h') \<and>
    represents ref_platform h' (put_file (ref_fetch_pkt ! 7) (?f\<lparr>sf_owner := pin_hash ref_platform ?pin\<rparr>) ref_vault)"
    by (rule import_from_anyone [OF ref_platform_good represents_with_io [OF ref_represents] _ _ _ s _ n ref_trng_words d])
      (simp_all add: ref_fetch_parts ref_opens valid_slot ref_receivable g)
  then obtain h' where "receive ref_platform ref_fetch_pkt ?h = Some (0, h')"
    "represents ref_platform h' (put_file 3 ?f ref_vault)" unfolding ref_fetch_parts g by blast
  moreover have "v_files (put_file 3 ?f ref_vault) 3 = Some ?f" by (simp add: put_file_def)
  ultimately show ?thesis using represents_with_io [OF ref_represents] by blast
qed

text \<open>A device whose generator is silent: it can deny, and challenge nobody.\<close>

definition ref_silent :: hsm where
  "ref_silent = (ref_hsm [])\<lparr>h_trng := ref_trng\<lparr>trng_polls := []\<rparr>\<rparr>"

lemma ref_silent_nonce: "security_generate_nonce 4 (h_trng ref_silent) \<noteq> Some (Some bs, tr)"
  using trng_read_iff [of 4 "h_trng ref_silent"]
  by (auto simp: security_generate_nonce_def bind_eq_Some_conv ref_silent_def)

lemma ref_silent_represents: "represents ref_platform ref_silent ref_vault"
  by (rule represents_files [OF ref_represents [of "[]"]]) (simp_all add: ref_silent_def same_files_def ref_hsm_def ref_replay_inv)

lemma ref_silent_ok: "hsm_ok ref_silent"
  using ref_silent_represents by (simp add: represents_def)



lemma proof_needs_pin_and_permission_witness:
  "\<exists>rc h'. receive ref_platform [2] ref_silent = Some (rc, h') \<and> fetch_stopped ref_platform [2] ref_silent rc h'"
proof -
  obtain rc h' where r: "receive ref_platform [2] ref_silent = Some (rc, h')"
    by (simp add: receive_def RECEIVE_COMMAND_SIZE_def)
  from proof_needs_pin_and_permission [OF ref_secrets ref_flash ref_silent_ok r] r ref_silent_nonce
  show ?thesis by (auto simp: fetch_authorised_def)
qed

lemma interrogation_offers_witness:
  "\<exists>proofs. interrogate_proofs \<lparr>k_master = K_master ref_platform\<rparr> (le32 1 @ le32 2) ref_permissions [] = Some proofs \<and>
     map gp_group_id proofs = [5]"
proof -
  have "ref_permissions = take 8 (global_permissions ref_platform)" by (simp add: ref_platform_def ref_permissions_def)
  from interrogation_offers [OF ref_secrets ref_secrets refl this, of "\<lparr>ic_requester_nonce = 1, ic_target_nonce = 2\<rparr>"]
  show ?thesis by (auto simp: interrogate_challenge_bytes_def) (simp add: ref_permissions_def)
qed

lemma messages_roundtrip_witness:
  "un_file (file_bytes \<lparr>f_in_use = 1, f_group_id = 5, f_name = replicate 32 97, f_contents_len = 2,
     f_nonce = replicate 12 0, f_tag = replicate 16 0, f_contents = replicate 8192 3\<rparr>) =
     \<lparr>f_in_use = 1, f_group_id = 5, f_name = replicate 32 97, f_contents_len = 2,
     f_nonce = replicate 12 0, f_tag = replicate 16 0, f_contents = replicate 8192 3\<rparr>"
  using messages_roundtrip [of "\<lparr>ch_slot = 1, ch_group_id = 5, ch_requester_nonce = 1, ch_target_nonce = 2, pf_proof = replicate 32 4\<rparr>"
    "\<lparr>f_in_use = 1, f_group_id = 5, f_name = replicate 32 97, f_contents_len = 2,
     f_nonce = replicate 12 0, f_tag = replicate 16 0, f_contents = replicate 8192 3\<rparr>"
    "\<lparr>ic_requester_nonce = 1, ic_target_nonce = 2, ip_proof_count = 1, ip_proofs = [\<lparr>gp_group_id = 5, gp_proof = replicate 32 4\<rparr>]\<rparr>"]
  by (simp add: file_ok_def)

end
