(* ===== verification/Heard.thy ===== *)
theory Heard
  imports PeerTransfer
begin

text \<open>
  What a device hears and says between two states of its lines. \<open>took k bs u u'\<close> says that the
  bytes taken from port \<open>k\<close> on the way from \<open>u\<close> to \<open>u'\<close> are \<open>bs\<close>; \<open>heard\<close> and \<open>told\<close> compute
  what was received and sent. A frame that is accepted is what was heard last.
\<close>

section \<open>Bytes taken from a line\<close>

definition line_bytes :: "byte option list \<Rightarrow> byte list" where
  "line_bytes ps = map the (filter (\<lambda>p. p \<noteq> None) ps)"

definition heard :: "int \<Rightarrow> uart_dev \<Rightarrow> uart_dev \<Rightarrow> byte list" where
  "heard k u u' = line_bytes (take (length (uart_rx u k) - length (uart_rx u' k)) (uart_rx u k))"

definition told :: "int \<Rightarrow> uart_dev \<Rightarrow> uart_dev \<Rightarrow> byte list" where
  "told k u u' = drop (length (uart_tx u k)) (uart_tx u' k)"

definition took :: "int \<Rightarrow> byte list \<Rightarrow> uart_dev \<Rightarrow> uart_dev \<Rightarrow> bool" where
  "took k bs u u' \<longleftrightarrow> (\<exists>ps. uart_rx u k = ps @ uart_rx u' k \<and> line_bytes ps = bs)"

lemma line_bytes_simps [simp]:
  "line_bytes [] = []" "line_bytes (None # ps) = line_bytes ps" "line_bytes (Some b # ps) = b # line_bytes ps"
  "line_bytes (ps @ qs) = line_bytes ps @ line_bytes qs" "line_bytes (replicate n None) = []"
  by (simp_all add: line_bytes_def)

lemma heard_took: "took k bs u u' \<Longrightarrow> heard k u u' = bs"
  by (auto simp: took_def heard_def)

lemma tookI: "uart_rx u k = ps @ uart_rx u' k \<Longrightarrow> took k (line_bytes ps) u u'"
  by (auto simp: took_def)

lemma took_none [simp]: "uart_rx u' k = uart_rx u k \<Longrightarrow> took k [] u u'"
  by (simp add: took_def)

lemma took_trans: "took k xs u v \<Longrightarrow> took k ys v w \<Longrightarrow> took k (xs @ ys) u w"
  unfolding took_def by (metis append_assoc line_bytes_simps(4))

lemma took_same_rx: "took k bs u v \<Longrightarrow> uart_rx w k = uart_rx v k \<Longrightarrow> took k bs u w"
  by (simp add: took_def)

lemma took_add_tx [simp]: "took k bs u (add_tx i m v) = took k bs u v" "took k bs (add_tx i m u) v = took k bs u v"
  by (simp_all add: took_def)

section \<open>Reading\<close>

lemma poll_took:
  "uart_poll n i u = (b, u') \<Longrightarrow> took (get_uart_handle i) (case b of None \<Rightarrow> [] | Some c \<Rightarrow> [c]) u u'"
proof (induction n arbitrary: u)
  case (Suc n)
  let ?h = "get_uart_handle i"
  show ?case
  proof (cases "uart_rx u ?h")
    case Nil
    with Suc.prems uart_poll_silent [OF Nil, of "Suc n"] show ?thesis by simp
  next
    case (Cons p ps)
    let ?u = "u\<lparr>uart_rx := (uart_rx u)(?h := ps)\<rparr>"
    have one: "took ?h (line_bytes [p]) u ?u" using Cons by (intro tookI) simp
    show ?thesis
    proof (cases p)
      case None
      with Cons Suc.prems have "uart_poll n i ?u = (b, u')" by (simp add: uart_try_readbyte_def)
      from took_trans [OF one Suc.IH [OF this]] None show ?thesis by simp
    next
      case (Some c)
      with Cons Suc.prems have "b = Some c" "u' = ?u" by (simp_all add: uart_try_readbyte_def)
      with one Some show ?thesis by simp
    qed
  qed
qed simp

lemma wait_took:
  assumes "uart_wait i u = Some (b, u')"
  shows "took (get_uart_handle i) [b] u u'"
proof -
  let ?h = "get_uart_handle i"
  from uart_wait_needs [OF assms] dropWhile_None obtain c rest where
    d: "dropWhile (\<lambda>p. p = None) (uart_rx u ?h) = Some c # rest" by metis
  with uart_wait_returns [OF d] assms have u': "b = c" "u' = u\<lparr>uart_rx := (uart_rx u)(?h := rest)\<rparr>" by simp_all
  let ?gap = "takeWhile (\<lambda>p. p = None) (uart_rx u ?h)"
  have gap: "line_bytes ?gap = []" by (auto simp: line_bytes_def filter_empty_conv dest: set_takeWhileD)
  have "uart_rx u ?h = (?gap @ [Some c]) @ uart_rx u' ?h"
    using takeWhile_dropWhile_id [of "\<lambda>p. p = None" "uart_rx u ?h"] d u'(2) by simp
  from tookI [OF this] gap u'(1) show ?thesis by simp
qed

lemma readbyte_took:
  "uart_readbyte_timeout i ms u = Some (b, u') \<Longrightarrow> took (get_uart_handle i) (case b of None \<Rightarrow> [] | Some c \<Rightarrow> [c]) u u'"
  by (auto simp: uart_readbyte_timeout_def bind_eq_Some_conv split: if_splits dest: wait_took poll_took)

lemma sync_took:
  assumes "read_sync i ms u = Some (ok, u')"
  shows "\<exists>bs. took (get_uart_handle i) (if ok then bs @ [MSG_MAGIC] else bs) u u'"
proof -
  let ?Q = "\<lambda>i u r. \<forall>ok u'. r = (ok, u') \<longrightarrow> (\<exists>bs. took (get_uart_handle i) (if ok then bs @ [MSG_MAGIC] else bs) u u')"
  have "?Q i u r" if "read_sync i ms u = Some r" for r
  proof (rule read_sync.raw_induct [where P = "\<lambda>i ms u r. ?Q i u r", OF _ that])
    fix sync :: "int \<Rightarrow> u32 \<Rightarrow> uart_dev \<Rightarrow> (bool \<times> uart_dev) option" and i ms u r
    assume IH: "\<And>i ms u r. sync i ms u = Some r \<Longrightarrow> ?Q i u r"
      and r: "do { (b, u) \<leftarrow> uart_readbyte_timeout i ms u;
           if b = None then Some (False, u)
           else if b = Some MSG_MAGIC then Some (True, u)
           else sync i ms u } = Some r"
    then obtain b v where v: "uart_readbyte_timeout i ms u = Some (b, v)"
      and c: "(if b = None then Some (False, v) else if b = Some MSG_MAGIC then Some (True, v) else sync i ms v) = Some r"
      by (auto simp: bind_eq_Some_conv)
    note t = readbyte_took [OF v]
    show "?Q i u r"
    proof (cases "b = None \<or> b = Some MSG_MAGIC")
      case True
      with c t show ?thesis by (auto intro: exI [of _ "[]"])
    next
      case False
      with c have "sync i ms v = Some r" by (auto split: if_splits)
      note ih = IH [OF this]
      show ?thesis
      proof (intro allI impI)
        fix ok u' assume "r = (ok, u')"
        with ih obtain bs where "took (get_uart_handle i) (if ok then bs @ [MSG_MAGIC] else bs) v u'" by blast
        from took_trans [OF t this] show "\<exists>bs. took (get_uart_handle i) (if ok then bs @ [MSG_MAGIC] else bs) u u'"
          by (cases ok) (auto simp flip: append_assoc)
      qed
    qed
  qed
  with assms show ?thesis by blast
qed

lemma block_took:
  "read_block i ms n p u = Some (ok, q, u') \<Longrightarrow> \<exists>bs. q = p @ bs \<and> took (get_uart_handle i) bs u u'"
proof (induction n arbitrary: p u)
  case (Suc n)
  then obtain b v where v: "uart_readbyte_timeout i ms u = Some (b, v)"
    and r: "(case b of None \<Rightarrow> Some (False, p, v) | Some b \<Rightarrow> read_block i ms n (p @ [b]) v) = Some (ok, q, u')"
    by (auto simp: bind_eq_Some_conv)
  show ?case
  proof (cases b)
    case None
    with r readbyte_took [OF v] show ?thesis by auto
  next
    case (Some c)
    with r Suc.IH [of "p @ [c]" v] obtain bs where "q = (p @ [c]) @ bs" "took (get_uart_handle i) bs v u'" by auto
    with took_trans [OF readbyte_took [OF v], of bs u'] Some show ?thesis by auto
  qed
qed auto

lemma body_took:
  "read_body i ms n p u = Some (rc, q, u') \<Longrightarrow> \<exists>bs. q = p @ bs \<and> took (get_uart_handle i) bs u u'"
proof (induction n arbitrary: p u rule: less_induct)
  case (less n)
  show ?case
  proof (cases "n = 0")
    case True
    with less.prems show ?thesis by (auto simp: read_body.simps)
  next
    case False
    define k where "k = (if n < 256 then n else 256)"
    from less.prems False obtain ok p1 v where b: "read_block i ms k p u = Some (ok, p1, v)"
      and r: "if \<not> ok then (rc, q, u') = (MSG_TIMEOUT, p1, v)
        else read_body i ms (n - k) p1 (add_tx (get_uart_handle i) ack_frame v) = Some (rc, q, u')"
      by (subst (asm) read_body.simps)
         (auto simp: Let_def write_ack_eq k_def [symmetric] bind_eq_Some_conv split: if_splits)
    from block_took [OF b] obtain bs where bs: "p1 = p @ bs" "took (get_uart_handle i) bs u v" by blast
    show ?thesis
    proof (cases ok)
      case True
      have "n - k < n" using False by (simp add: k_def)
      moreover from r True have "read_body i ms (n - k) p1 (add_tx (get_uart_handle i) ack_frame v) = Some (rc, q, u')" by simp
      ultimately obtain cs where "q = p1 @ cs" "took (get_uart_handle i) cs (add_tx (get_uart_handle i) ack_frame v) u'"
        using less.IH by blast
      with bs took_trans [OF bs(2)] show ?thesis by auto
    qed (use bs r in auto)
  qed
qed

text \<open>An accepted frame is the last thing heard; any read takes some bytes.\<close>

lemma frame_took:
  assumes "read_frame i sync_ms ms cap u = Some (r, u')"
  shows "\<exists>bs. took (get_uart_handle i) bs u u' \<and> (pk_status r = MSG_OK \<longrightarrow>
    (\<exists>junk. bs = junk @ msg_header (the (pk_cmd r)) (pk_len r) @ pk_data r))"
proof -
  let ?h = "get_uart_handle i"
  from assms obtain ok v1 where "read_sync i sync_ms u = Some (ok, v1)"
    by (auto simp: read_frame_def Let_def bind_eq_Some_conv)
  note v1 = this
  from sync_took [OF v1] obtain junk where j: "took ?h (if ok then junk @ [MSG_MAGIC] else junk) u v1" by blast
  show ?thesis
  proof (cases ok)
    case False
    with assms v1 j show ?thesis by (auto simp: read_frame_def Let_def)
  next
    case ok: True
    with assms v1 obtain b v2 where v2: "uart_readbyte_timeout i ms v1 = Some (b, v2)"
      by (auto simp: read_frame_def Let_def bind_eq_Some_conv)
    note t2 = took_trans [OF j readbyte_took [OF v2]]
    show ?thesis
    proof (cases b)
      case None
      with assms v1 v2 t2 ok show ?thesis by (auto simp: read_frame_def Let_def)
    next
      case b: (Some c)
      with assms v1 v2 ok obtain lo v3 hi v4 where v3: "uart_readbyte_timeout i ms v2 = Some (lo, v3)"
        and v4: "uart_readbyte_timeout i ms v3 = Some (hi, v4)"
        by (auto simp: read_frame_def Let_def bind_eq_Some_conv)
      note t4 = took_trans [OF took_trans [OF t2 readbyte_took [OF v3]] readbyte_took [OF v4]]
      let ?len = "un_le16 [the lo, the hi]"
      have "(if lo = None \<or> hi = None
         then Some (\<lparr>pk_status = MSG_TIMEOUT, pk_cmd = Some c, pk_len = cap, pk_data = []\<rparr>, v4)
         else if cap \<noteq> 0 \<and> cap < ?len
         then Some (\<lparr>pk_status = MSG_BAD_LEN, pk_cmd = Some c, pk_len = cap, pk_data = []\<rparr>, add_tx ?h ack_frame v4)
         else do { (rc, p, u) \<leftarrow> read_body i ms (unat ?len) [] (add_tx ?h ack_frame v4);
                   Some (\<lparr>pk_status = rc, pk_cmd = Some c, pk_len = ?len, pk_data = p\<rparr>, u) }) = read_frame i sync_ms ms cap u"
        using v1 v2 v3 v4 ok b by (simp add: read_frame_def Let_def write_ack_eq del: line_simps)
      note r = this [unfolded assms]
      show ?thesis
      proof (cases "(lo = None \<or> hi = None) \<or> cap \<noteq> 0 \<and> cap < ?len")
        case True
        with r t4 show ?thesis by (auto split: if_splits)
      next
        case False
        with r obtain rc p where body: "read_body i ms (unat ?len) [] (add_tx ?h ack_frame v4) = Some (rc, p, u')"
          and r': "r = \<lparr>pk_status = rc, pk_cmd = Some c, pk_len = ?len, pk_data = p\<rparr>"
          by (auto simp: bind_eq_Some_conv split: if_splits)
        from body_took [OF body] have "took ?h p v4 u'" by auto
        note t = took_trans [OF t4 this]
        from False obtain l m where lm: "lo = Some l" "hi = Some m" by auto
        have "le16 ?len = [l, m]" using le16_un_le16 [of "[l, m]"] lm by simp
        with t ok b lm r' show ?thesis by (auto simp: msg_header_def)
      qed
    qed
  qed
qed

section \<open>Sending\<close>

lemma await_ack_took: "await_ack i u = Some (rc, u') \<Longrightarrow> \<exists>bs. took (get_uart_handle i) bs u u'"
  by (auto simp: await_ack_def Let_def bind_eq_Some_conv split: if_splits dest!: readbyte_took)
     (blast intro: took_trans)+

lemma write_bytes_took: "write_bytes i p a u = Some (rc, u') \<Longrightarrow> \<exists>bs. took (get_uart_handle i) bs u u'"
proof (induction "length p" arbitrary: p u rule: less_induct)
  case less
  let ?u = "add_tx (get_uart_handle i) (take 256 p) u"
  show ?case
  proof (cases "p = []")
    case True
    with less.prems show ?thesis by (auto simp: write_bytes.simps intro: exI [of _ "[]"])
  next
    case False
    then have shorter: "length (drop 256 p) < length p" by (cases p) auto
    show ?thesis
    proof (cases a)
      case True
      with less.prems False obtain ack v where ack: "await_ack i ?u = Some (ack, v)"
        and rest: "if ack \<noteq> MSG_OK then (rc, u') = (ack, v) else write_bytes i (drop 256 p) a v = Some (rc, u')"
        by (subst (asm) write_bytes.simps) (auto simp: Let_def writebytes_add_tx bind_eq_Some_conv split: if_splits)
      from await_ack_took [OF ack] obtain xs where xs: "took (get_uart_handle i) xs u v" by auto
      show ?thesis
      proof (cases "ack = MSG_OK")
        case True
        with rest have "write_bytes i (drop 256 p) a v = Some (rc, u')" by simp
        from less.hyps [OF shorter this] took_trans [OF xs] show ?thesis by blast
      qed (use rest xs in auto)
    next
      case False
      with less.prems \<open>p \<noteq> []\<close> have "write_bytes i (drop 256 p) a ?u = Some (rc, u')"
        by (subst (asm) write_bytes.simps) (auto simp: Let_def writebytes_add_tx)
      from less.hyps [OF shorter this] show ?thesis by simp
    qed
  qed
qed

lemma write_packet_took:
  assumes "write_packet i type buf u = Some (rc, u')"
  shows "\<exists>bs. took (get_uart_handle i) bs u u'"
proof -
  from assms obtain rc1 v where w: "write_header i type (of_nat (length buf)) u = Some (rc1, v)"
    and r: "(if rc1 \<noteq> MSG_OK then Some (rc1, v) else if buf \<noteq> [] then write_bytes i buf (needs_ack type) v else Some (MSG_OK, v)) = Some (rc, u')"
    by (auto simp: write_packet_def bind_eq_Some_conv)
  from w have "\<exists>xs. took (get_uart_handle i) xs u v"
    by (auto simp: write_header_def writebytes_add_tx Let_def bind_eq_Some_conv dest!: await_ack_took split: if_splits)
      (rule exI [of _ "[]"], simp)
  then obtain xs where xs: "took (get_uart_handle i) xs u v" by blast
  with r write_bytes_took [of i buf "needs_ack type" v rc u'] took_trans [OF xs] show ?thesis by (auto split: if_splits)
qed

section \<open>The transfer line\<close>

lemma send_took:
  assumes "send TRANSFER_INTERFACE type buf h = Some (rc, h')"
  shows "\<exists>bs. took 1 bs (h_uart h) (h_uart h')" "uart_tx (h_uart h') 0 = uart_tx (h_uart h) 0"
  using write_packet_took [of TRANSFER_INTERFACE type buf "h_uart h"] send_steps(4) [OF assms] assms
  by (auto simp: send_def bind_eq_Some_conv sent_prefix_def)

lemma xfer_read_took:
  assumes "xfer_read cap h = Some (r, h')"
  shows "\<exists>bs. took 1 bs (h_uart h) (h_uart h') \<and> (pk_status r = MSG_OK \<longrightarrow>
      (\<exists>junk. bs = junk @ msg_header (the (pk_cmd r)) (of_nat (length (pk_data r))) @ pk_data r))"
    and "uart_tx (h_uart h') 0 = uart_tx (h_uart h) 0"
proof -
  from assms obtain u where "read_packet_timeout TRANSFER_INTERFACE (of_nat cap) UART_XFER_TIMEOUT_MS (h_uart h) = Some (r, u)"
    and u: "h' = h\<lparr>h_uart := u\<rparr>" by (auto simp: xfer_read_def bind_eq_Some_conv)
  then have f: "read_frame TRANSFER_INTERFACE UART_XFER_TIMEOUT_MS (uart_frame_timeout_ms TRANSFER_INTERFACE) (of_nat cap) (h_uart h)
      = Some (r, u)" by (simp add: read_packet_timeout_def)
  have "of_nat (length (pk_data r)) = pk_len r" if "pk_status r = MSG_OK" using read_frame_any(3) [OF f that] by simp
  with frame_took [OF f] u show "\<exists>bs. took 1 bs (h_uart h) (h_uart h') \<and> (pk_status r = MSG_OK \<longrightarrow>
      (\<exists>junk. bs = junk @ msg_header (the (pk_cmd r)) (of_nat (length (pk_data r))) @ pk_data r))" by auto
  show "uart_tx (h_uart h') 0 = uart_tx (h_uart h) 0" using xfer_read_steps(4) [OF assms] by (simp add: only_acks_def)
qed

end
