(* ===== verification/Filesystem.thy ===== *)
theory Filesystem
  imports BlobStore PeerTransfer
begin

text \<open>
  The plain file system of \<^verbatim>\<open>firmware/src/filesystem.c\<close>: a RAM copy of the file allocation table
  and one run of nine pages per slot. The firmware calls only \<^verbatim>\<open>init_fs\<close>; the other functions
  remain from the reference design. The table has the entry format of the blob store's and lies
  in the same flash page. An access outside an array (a slot of 8 or more, a stored length
  beyond \<^verbatim>\<open>file_t\<close>) has no defined result in C; there the model has \<open>None\<close>.
\<close>

definition FLASH_FAT_START :: nat where "FLASH_FAT_START = 0x3A000"
definition FILES_START_ADDR :: nat where "FILES_START_ADDR = 0x10000"
definition FILE_PAGE_COUNT :: nat where "FILE_PAGE_COUNT = 9"
definition FILE_HEADER_SIZE :: nat where "FILE_HEADER_SIZE = 68"
definition FILE_SIZE :: nat where "FILE_SIZE = 8260"

definition file_start_page :: "nat \<Rightarrow> nat" where
  "file_start_page slot = FILES_START_ADDR + FLASH_PAGE_SIZE * FILE_PAGE_COUNT * slot"

definition file_total_size :: "nat \<Rightarrow> nat" where
  "file_total_size len = len + FILE_HEADER_SIZE"

definition load_fat :: "flash_dev \<Rightarrow> fat_entry list" where
  "load_fat fl = (let bs = flash_simple_read FLASH_FAT_START (24 * MAX_FILE_COUNT) fl
                  in map (\<lambda>i. un_fat (segment (i * 24) 24 bs)) [0..<MAX_FILE_COUNT])"

definition store_fat :: "platform \<Rightarrow> fat_entry list \<Rightarrow> flash_dev \<Rightarrow> int \<times> flash_dev" where
  "store_fat P fat fl =
     (let (_, fl) = flash_simple_erase_page P FLASH_FAT_START fl
      in flash_simple_write P FLASH_FAT_START (concat (map fat_bytes fat)) fl)"

definition init_fs :: "flash_dev \<Rightarrow> int \<times> fat_entry list" where
  "init_fs fl = (0, load_fat fl)"

text \<open>\<open>create_file\<close>: \<^verbatim>\<open>strcpy\<close> copies \<open>name\<close> (the bytes before its NUL) and a NUL.\<close>

definition create_file :: "u16 \<Rightarrow> byte list \<Rightarrow> u16 \<Rightarrow> byte list \<Rightarrow> hsm_file option" where
  "create_file group_id name contents_len contents =
     (if MAX_CONTENTS_SIZE < unat contents_len \<or> length contents < unat contents_len \<or> MAX_NAME_SIZE \<le> length name then None
      else Some \<lparr>f_in_use = FILE_IN_USE, f_group_id = group_id, f_name = pad_to MAX_NAME_SIZE name,
                 f_contents_len = contents_len, f_nonce = replicate 12 0, f_tag = replicate 16 0,
                 f_contents = pad_to MAX_CONTENTS_SIZE (take (unat contents_len) contents)\<rparr>)"

text \<open>The loop over the pages; its results are not looked at.\<close>

fun erase_file_pages :: "platform \<Rightarrow> nat \<Rightarrow> nat \<Rightarrow> flash_dev \<Rightarrow> flash_dev" where
  "erase_file_pages P addr 0 fl = fl"
| "erase_file_pages P addr (Suc n) fl =
     erase_file_pages P (addr + FLASH_PAGE_SIZE) n (snd (flash_simple_erase_page P addr fl))"

text \<open>The updated table entry of \<^verbatim>\<open>write_file\<close>.\<close>

definition file_fat :: "nat \<Rightarrow> hsm_file \<Rightarrow> byte list \<Rightarrow> fat_entry \<Rightarrow> fat_entry" where
  "file_fat slot src uuid e = e\<lparr>fat_uuid := uuid, fat_flash_addr := of_nat (file_start_page slot),
     fat_length := of_nat (file_total_size (unat (f_contents_len src)))\<rparr>"

definition write_file ::
    "platform \<Rightarrow> nat \<Rightarrow> hsm_file \<Rightarrow> byte list \<Rightarrow> flash_dev \<Rightarrow> fat_entry list \<Rightarrow> (int \<times> flash_dev \<times> fat_entry list) option" where
  "write_file P slot src uuid fl fat =
     (let flash_addr = file_start_page slot; size = file_total_size (unat (f_contents_len src)) in
      if MAX_FILE_COUNT \<le> slot \<or> FILE_SIZE < size then None
      else let fat = fat[slot := file_fat slot src uuid (fat ! slot)];
               (_, fl) = store_fat P fat fl;
               fl = erase_file_pages P flash_addr FILE_PAGE_COUNT fl;
               (rc, fl) = flash_simple_write P (unat (fat_flash_addr (fat ! slot))) (take size (file_bytes src)) fl
           in Some (rc, fl, fat))"

definition read_file :: "nat \<Rightarrow> byte list \<Rightarrow> flash_dev \<Rightarrow> fat_entry list \<Rightarrow> (int \<times> byte list) option" where
  "read_file slot dest fl fat =
     (if MAX_FILE_COUNT \<le> slot then None
      else let flash_addr = sint (fat_flash_addr (fat ! slot)); file_size = unat (fat_length (fat ! slot)) in
        if flash_addr < 0 \<or> flash_addr < int FILES_START_ADDR \<or> file_size \<le> 0 then Some (- 1, dest)
        else if FILE_SIZE < file_size then None
        else Some (0, flash_simple_read (nat flash_addr) file_size fl @ drop file_size dest))"

definition is_slot_in_use :: "nat \<Rightarrow> flash_dev \<Rightarrow> fat_entry list \<Rightarrow> bool option" where
  "is_slot_in_use slot fl fat =
     (do { (rc, temp) \<leftarrow> read_file slot (replicate FILE_SIZE 0) fl fat;
           Some (rc = 0 \<and> f_in_use (un_file temp) = FILE_IN_USE) })"

definition get_file_metadata :: "nat \<Rightarrow> fat_entry list \<Rightarrow> fat_entry option" where
  "get_file_metadata slot fat = (if MAX_FILE_COUNT \<le> slot then None else Some (fat ! slot))"

section \<open>The pages of a file\<close>

definition in_file :: "nat \<Rightarrow> nat \<Rightarrow> bool" where
  "in_file slot a \<longleftrightarrow> in_range (file_start_page slot) 9216 a"

lemma file_start_eq: "file_start_page slot = 65536 + 9216 * slot"
  by (simp add: file_start_page_def FILES_START_ADDR_def FLASH_PAGE_SIZE_def FILE_PAGE_COUNT_def)

lemma files_disjoint: "slot \<noteq> k \<Longrightarrow> in_file slot a \<Longrightarrow> \<not> in_file k a"
  by (auto simp: in_file_def in_range_def file_start_eq nat_neq_iff)

lemma file_not_fat: "slot < 8 \<Longrightarrow> in_file slot a \<Longrightarrow> \<not> sector_of FLASH_FAT_START a"
  by (auto simp: in_file_def in_range_def file_start_eq sector_of_def FLASH_FAT_START_def)

lemma erase_file_spec:
  assumes "flash_ok P" "flash_reliable P"
  shows "addr mod 1024 = 0 \<Longrightarrow> fl' = erase_file_pages P addr n fl \<Longrightarrow>
    (\<forall>a. \<not> in_range addr (1024 * n) a \<longrightarrow> flash_mem fl' a = flash_mem fl a) \<and>
    (\<forall>a. in_range addr (1024 * n) a \<longrightarrow> flash_mem fl' a = 0xFF)"
proof (induction n arbitrary: addr fl)
  case (Suc n)
  obtain fl1 where e: "flash_simple_erase_page P addr fl = (0, fl1)"
    using erase_reliable [OF assms(2)] by (metis prod.collapse)
  have s: "sector_of addr a \<longleftrightarrow> in_range addr 1024 a" for a
    using Suc.prems(1) by (auto simp: sector_of_def in_range_def)
  have "fl' = erase_file_pages P (addr + 1024) n fl1" using Suc.prems(2) e by (simp add: FLASH_PAGE_SIZE_def)
  with Suc.IH [of "addr + 1024" fl1] Suc.prems(1)
  have IH: "\<forall>a. \<not> in_range (addr + 1024) (1024 * n) a \<longrightarrow> flash_mem fl' a = flash_mem fl1 a"
    "\<forall>a. in_range (addr + 1024) (1024 * n) a \<longrightarrow> flash_mem fl' a = 0xFF" by auto
  have "flash_mem fl' a = flash_mem fl a" if "\<not> in_range addr (1024 * Suc n) a" for a
    using that IH(1) erase_frame [OF assms(1) e, of a] s by (auto simp: in_range_def)
  moreover have "flash_mem fl' a = 0xFF" if "in_range addr (1024 * Suc n) a" for a
    using that IH erase_blank [OF assms(1) e, of a] s by (cases "in_range (addr + 1024) (1024 * n) a") (auto simp: in_range_def)
  ultimately show ?case by blast
qed (auto simp: in_range_def)

section \<open>The table\<close>

lemma store_fat_ok:
  assumes P: "flash_ok P" "flash_reliable P" and fat: "fat_ok fat" and s: "store_fat P fat fl = (rc, fl')"
  shows "load_fat fl' = fat" "\<not> sector_of FLASH_FAT_START a \<Longrightarrow> flash_mem fl' a = flash_mem fl a"
proof -
  let ?bs = "concat (map fat_bytes fat)"
  have len: "length ?bs = 192" using fat by (simp add: fat_ok_def fatc.length_enc_all)
  have addr: "FLASH_FAT_START mod 1024 = 0" by (simp add: FLASH_FAT_START_def)
  obtain fl1 where e: "flash_simple_erase_page P FLASH_FAT_START fl = (0, fl1)"
    using erase_reliable [OF P(2)] by (metis prod.collapse)
  with s have w: "flash_simple_write P FLASH_FAT_START ?bs fl1 = (rc, fl')" by (simp add: store_fat_def)
  then have "rc = 0" using write_reliable [OF P(2), of FLASH_FAT_START ?bs fl1] by simp
  with rewrite_sector [OF P(1) addr _ e, of ?bs fl'] w len have "flash_simple_read FLASH_FAT_START 192 fl' = ?bs @ []" by simp
  then show "load_fat fl' = fat"
    using fatc.dec_all [of fat 8 "[]"] fat by (simp add: load_fat_def MAX_FILE_COUNT_def fat_ok_def)
  show "flash_mem fl' a = flash_mem fl a" if "\<not> sector_of FLASH_FAT_START a"
    using erase_frame [OF P(1) e that] write_sector_frame [OF P(1) addr _ w that] len by simp
qed

lemma file_fat_sel:
  assumes "slot < 8" "unat (f_contents_len src) \<le> 8192"
  shows "unat (fat_flash_addr (file_fat slot src uuid e)) = file_start_page slot"
    and "sint (fat_flash_addr (file_fat slot src uuid e)) = int (file_start_page slot)"
    and "unat (fat_length (file_fat slot src uuid e)) = 68 + unat (f_contents_len src)"
proof -
  have b: "file_start_page slot < 2 ^ 31" using assms(1) by (simp add: file_start_eq)
  then show u: "unat (fat_flash_addr (file_fat slot src uuid e)) = file_start_page slot" by (simp add: file_fat_def unat_of_nat)
  show "sint (fat_flash_addr (file_fat slot src uuid e)) = int (file_start_page slot)"
    using b by (simp add: file_fat_def sint_uint uint_nat unat_of_nat signed_take_bit_int_eq_self_iff)
  show "unat (fat_length (file_fat slot src uuid e)) = 68 + unat (f_contents_len src)"
  proof -
    define k where "k = unat (f_contents_len src)"
    have "fat_length (file_fat slot src uuid e) = of_nat (68 + k)"
      unfolding file_fat_def file_total_size_def FILE_HEADER_SIZE_def k_def by (subst add.commute) simp
    moreover have "unat (of_nat (68 + k) :: u16) = 68 + k" using assms(2) by (simp only: unat_of_nat) (simp add: k_def)
    ultimately show ?thesis by (simp add: k_def)
  qed
qed

lemma write_file_ok:
  assumes P: "flash_ok P" "flash_reliable P" and fat: "fat_ok fat" and s: "slot < 8" and src: "file_ok src"
    and c: "unat (f_contents_len src) \<le> 8192" and u: "length uuid = 16"
  defines "n \<equiv> 68 + unat (f_contents_len src)"
  obtains fl' where "write_file P slot src uuid fl fat = Some (0, fl', fat[slot := file_fat slot src uuid (fat ! slot)])"
    and "flash_simple_read (file_start_page slot) n fl' = take n (file_bytes src)"
    and "load_fat fl' = fat[slot := file_fat slot src uuid (fat ! slot)]"
    and "\<And>a. \<not> in_file slot a \<Longrightarrow> \<not> sector_of FLASH_FAT_START a \<Longrightarrow> flash_mem fl' a = flash_mem fl a"
proof -
  let ?fat = "fat[slot := file_fat slot src uuid (fat ! slot)]" and ?bs = "take n (file_bytes src)"
  have fok: "fat_ok ?fat" using fat_ok_update [OF fat] u by (simp add: file_fat_def)
  obtain rc0 fl1 where st: "store_fat P ?fat fl = (rc0, fl1)" by fastforce
  note t = store_fat_ok [OF P fok st]
  define fl2 where "fl2 = erase_file_pages P (file_start_page slot) 9 fl1"
  have e: "(\<forall>a. \<not> in_file slot a \<longrightarrow> flash_mem fl2 a = flash_mem fl1 a) \<and> (\<forall>a. in_file slot a \<longrightarrow> flash_mem fl2 a = 0xFF)"
    using erase_file_spec [OF P _ fl2_def] by (simp add: file_start_eq in_file_def)
  obtain fl3 where w: "flash_simple_write P (file_start_page slot) ?bs fl2 = (0, fl3)"
    using write_reliable [OF P(2)] by (metis prod.collapse)
  have len: "length ?bs = n" using filec.enc_length [OF src] c by (simp add: n_def)
  have pad: "in_file slot a" if "in_range (file_start_page slot) (pad8 (length ?bs)) a" for a
    using that len c pad8_mono [of n 8264] pad8_dvd [of 8264] by (auto simp: in_file_def in_range_def n_def)
  have d: "flash_simple_read (file_start_page slot) n fl3 = ?bs"
    using write_data [OF P(1) w] e pad len by simp
  have m3: "flash_mem fl3 a = flash_mem fl2 a" if "\<not> in_file slot a" for a
    by (rule write_frame [OF P(1) w]) (use pad that in blast)
  have "flash_mem fl3 a = flash_mem fl1 a" if "sector_of FLASH_FAT_START a" for a
    using m3 e file_not_fat [OF s] that by metis
  then have "flash_simple_read FLASH_FAT_START 192 fl3 = flash_simple_read FLASH_FAT_START 192 fl1"
    by (intro read_cong) (auto simp: sector_of_def FLASH_FAT_START_def in_range_def)
  then have "load_fat fl3 = load_fat fl1" by (simp add: load_fat_def MAX_FILE_COUNT_def)
  moreover have "write_file P slot src uuid fl fat = Some (0, fl3, ?fat)"
    using s c st w file_fat_sel(1) [OF s c] fat
    by (simp add: write_file_def MAX_FILE_COUNT_def FILE_SIZE_def file_total_size_def FILE_HEADER_SIZE_def Let_def
        FILE_PAGE_COUNT_def fl2_def n_def fat_ok_def add.commute)
  moreover have "flash_mem fl3 a = flash_mem fl a" if "\<not> in_file slot a" "\<not> sector_of FLASH_FAT_START a" for a
    using m3 e t(2) that by metis
  ultimately show thesis using d t(1) by (intro that [of fl3]) simp_all
qed

section \<open>Reading\<close>

text \<open>A table entry that \<open>write_file\<close> makes for its slot.\<close>

definition entry_of :: "nat \<Rightarrow> fat_entry \<Rightarrow> bool" where
  "entry_of slot e \<longleftrightarrow> (\<exists>n. 68 \<le> n \<and> n \<le> 8260 \<and> unat (fat_length e) = n \<and>
     sint (fat_flash_addr e) = int (file_start_page slot))"

lemma read_file_eq:
  assumes "slot < 8" "entry_of slot (fat ! slot)"
  shows "read_file slot dest fl fat = Some (0, flash_simple_read (file_start_page slot) (unat (fat_length (fat ! slot))) fl
    @ drop (unat (fat_length (fat ! slot))) dest)"
proof -
  have "file_start_page slot \<ge> FILES_START_ADDR" by (simp add: file_start_eq FILES_START_ADDR_def)
  with assms show ?thesis by (auto simp: read_file_def entry_of_def MAX_FILE_COUNT_def FILE_SIZE_def Let_def)
qed

lemma file_fat_entry: "slot < 8 \<Longrightarrow> unat (f_contents_len src) \<le> 8192 \<Longrightarrow> entry_of slot (file_fat slot src uuid e)"
  using file_fat_sel [of slot src uuid e] by (simp add: entry_of_def)

lemma read_file_kept:
  assumes "slot < 8" "entry_of slot (fat ! slot)" "fat' ! slot = fat ! slot"
    and "\<And>a. in_file slot a \<Longrightarrow> flash_mem fl' a = flash_mem fl a"
  shows "read_file slot dest fl' fat' = read_file slot dest fl fat"
proof -
  have "flash_simple_read (file_start_page slot) (unat (fat_length (fat ! slot))) fl'
      = flash_simple_read (file_start_page slot) (unat (fat_length (fat ! slot))) fl"
    by (intro read_cong assms(4)) (use assms(2) in \<open>auto simp: entry_of_def in_file_def in_range_def\<close>)
  then show ?thesis using read_file_eq [OF assms(1)] assms(2,3) by simp
qed

text \<open>
  C38: A file written to a slot is read back, its header and as many bytes of contents as its
  length says, also after a reset that reloads the table; the slot counts as in use exactly
  when the file is marked so; and the files of the other slots read as before.
\<close>

theorem file_write_read:
  assumes "flash_ok P" "flash_reliable P" "fat_ok fat" "slot < 8" "file_ok src" "unat (f_contents_len src) \<le> 8192"
    and "length uuid = 16" "n = 68 + unat (f_contents_len src)"
  shows "\<exists>fl' fat'. write_file P slot src uuid fl fat = Some (0, fl', fat') \<and> init_fs fl' = (0, fat') \<and>
    read_file slot dest fl' fat' = Some (0, take n (file_bytes src) @ drop n dest) \<and>
    is_slot_in_use slot fl' fat' = Some (f_in_use src = FILE_IN_USE) \<and>
    (\<forall>k < 8. k \<noteq> slot \<and> entry_of k (fat ! k) \<longrightarrow> read_file k dest fl' fat' = read_file k dest fl fat)"
proof -
  let ?fat = "fat[slot := file_fat slot src uuid (fat ! slot)]"
  obtain fl' where w: "write_file P slot src uuid fl fat = Some (0, fl', ?fat)"
    and d: "flash_simple_read (file_start_page slot) n fl' = take n (file_bytes src)"
    and l: "load_fat fl' = ?fat" and m: "\<And>a. \<not> in_file slot a \<Longrightarrow> \<not> sector_of FLASH_FAT_START a \<Longrightarrow> flash_mem fl' a = flash_mem fl a"
    by (rule write_file_ok [OF assms(1-7), where fl = fl]) (use assms(8) in simp)
  have e: "?fat ! slot = file_fat slot src uuid (fat ! slot)" using assms(3,4) by (simp add: fat_ok_def)
  have r: "read_file slot dest fl' ?fat = Some (0, take n (file_bytes src) @ drop n dest)" for dest
    using read_file_eq [OF assms(4), of ?fat dest fl'] file_fat_entry [OF assms(4,6)] file_fat_sel(3) [OF assms(4,6)] e d assms(8)
    by simp
  have "un_le32 (segment 0 4 (take n (file_bytes src) @ rest)) = f_in_use src" for rest
    using assms(8) by (simp add: file_bytes_def segment_def)
  then have u: "is_slot_in_use slot fl' ?fat = Some (f_in_use src = FILE_IN_USE)"
    by (simp add: is_slot_in_use_def r un_file_def)
  have o: "read_file k dest fl' ?fat = read_file k dest fl fat" if "k < 8" "k \<noteq> slot" "entry_of k (fat ! k)" for k
  proof (rule read_file_kept [OF that(1,3)])
    show "?fat ! k = fat ! k" using that(2) by simp
    show "flash_mem fl' a = flash_mem fl a" if "in_file k a" for a
      using m files_disjoint \<open>k \<noteq> slot\<close> file_not_fat [OF \<open>k < 8\<close>] that by metis
  qed
  from w l r u o show ?thesis by (intro exI [of _ fl'] exI [of _ ?fat]) (simp add: init_fs_def)
qed

definition ref_plain_file :: hsm_file where
  "ref_plain_file = \<lparr>f_in_use = FILE_IN_USE, f_group_id = 5, f_name = replicate 32 97, f_contents_len = 2,
     f_nonce = replicate 12 0, f_tag = replicate 16 0, f_contents = replicate 8192 3\<rparr>"

lemma file_write_read_witness:
  "\<exists>fl fat. write_file ref_platform 3 ref_plain_file (replicate 16 1) ref_flash_dev (replicate 8 fat_erased) = Some (0, fl, fat) \<and>
     is_slot_in_use 3 fl fat = Some True"
proof -
  have f: "fat_ok (replicate 8 fat_erased)" by (simp add: fat_ok_def)
  have p: "file_ok ref_plain_file" "f_in_use ref_plain_file = FILE_IN_USE" "unat (f_contents_len ref_plain_file) \<le> 8192"
    by (simp_all add: file_ok_def ref_plain_file_def)
  from file_write_read [OF ref_flash ref_reliable f _ p(1,3) _ refl, of 3 "replicate 16 1" ref_flash_dev "[]"] p(2)
  show ?thesis by auto
qed

end
