(* ===== verification/Storage.thy ===== *)
theory Storage
  imports BlobStore Design Reference_Platform
begin

text \<open>
  The metadata table of \<^verbatim>\<open>firmware/src/storage.c\<close>: file table entries in one flash page,
  stamped with a magic number, and in the next page an extension per entry with the file's
  address, group, permissions, a change counter and a MAC over them. No other file of the
  firmware calls these functions. A negative index is not refused by \<^verbatim>\<open>get_fat_entry\<close> and
  \<^verbatim>\<open>update_fat_entry\<close>; the access before the array that follows is \<open>None\<close> here.
\<close>

definition FAT_BASE_ADDRESS :: nat where "FAT_BASE_ADDRESS = 0x3A000"
definition APP2_BASE_ADDRESS :: nat where "APP2_BASE_ADDRESS = 0x3A400"
definition MAX_FAT_ENTRIES :: int where "MAX_FAT_ENTRIES = 8"
definition FAT_PAGE_MAGIC :: u32 where "FAT_PAGE_MAGIC = 0xCAFEF00D"
definition FAT_PAGE_MAGIC_OFFSET :: nat where "FAT_PAGE_MAGIC_OFFSET = nat MAX_FAT_ENTRIES * 24"

text \<open>
  \<^verbatim>\<open>fat_ext_t\<close>: 48 bytes, the permission struct inside it has one byte of padding. A
  \<^verbatim>\<open>bool\<close> of the struct is a byte; every use of it is a test against zero.
\<close>

record fat_ext =
  ext_file_addr :: u32
  ext_group_id :: u16
  ext_perm :: group_permission
  ext_counter :: u32
  ext_metadata_HMAC :: "byte list"

definition un_perm :: "byte list \<Rightarrow> group_permission" where
  "un_perm bs = \<lparr>perm_group_id = un_le16 (segment 0 2 bs), perm_read = bs ! 2 \<noteq> 0,
                 perm_write = bs ! 3 \<noteq> 0, perm_receive = bs ! 4 \<noteq> 0\<rparr>"

definition un_fat_ext :: "byte list \<Rightarrow> fat_ext" where
  "un_fat_ext bs = \<lparr>ext_file_addr = un_le32 (segment 0 4 bs), ext_group_id = un_le16 (segment 4 2 bs),
     ext_perm = un_perm (segment 6 6 bs), ext_counter = un_le32 (segment 12 4 bs),
     ext_metadata_HMAC = segment 16 32 bs\<rparr>"

text \<open>\<^verbatim>\<open>flash_fat[index]\<close> and \<^verbatim>\<open>flash_ext[index]\<close>, read through the pointers.\<close>

definition flash_fat :: "nat \<Rightarrow> flash_dev \<Rightarrow> fat_entry" where
  "flash_fat i fl = un_fat (flash_simple_read (FAT_BASE_ADDRESS + i * 24) 24 fl)"

definition flash_ext :: "nat \<Rightarrow> flash_dev \<Rightarrow> fat_ext" where
  "flash_ext i fl = un_fat_ext (flash_simple_read (APP2_BASE_ADDRESS + i * 48) 48 fl)"

definition build_hmac_msg :: "byte list \<Rightarrow> fat_ext \<Rightarrow> byte list" where
  "build_hmac_msg uuid ext =
     take 16 uuid @
     [ucast (ext_group_id ext AND 0xFF), ucast (drop_bit 8 (ext_group_id ext) AND 0xFF)] @
     [if perm_read (ext_perm ext) then 1 else 0, if perm_write (ext_perm ext) then 1 else 0,
      if perm_receive (ext_perm ext) then 1 else 0] @
     [ucast (ext_counter ext AND 0xFF), ucast (drop_bit 8 (ext_counter ext) AND 0xFF),
      ucast (drop_bit 16 (ext_counter ext) AND 0xFF), ucast (drop_bit 24 (ext_counter ext) AND 0xFF)]"

definition derive_group_auth_key :: "secure_crypto_root_secret \<Rightarrow> u16 \<Rightarrow> byte list option" where
  "derive_group_auth_key root group_id = secure_crypto_derive_xfer_root_key root group_id 32"

definition fat_page_is_valid :: "flash_dev \<Rightarrow> int" where
  "fat_page_is_valid fl =
     (if un_le32 (flash_simple_read (FAT_BASE_ADDRESS + FAT_PAGE_MAGIC_OFFSET) 4 fl) = FAT_PAGE_MAGIC then 1 else 0)"

text \<open>The pair of flash calls at the end of every update; their results are not looked at.\<close>

definition rewrite_page :: "platform \<Rightarrow> nat \<Rightarrow> byte list \<Rightarrow> flash_dev \<Rightarrow> flash_dev" where
  "rewrite_page P addr page_buffer fl =
     (let (_, fl) = flash_simple_erase_page P addr fl;
          (_, fl) = flash_simple_write P addr page_buffer fl
      in fl)"

definition storage_init :: "platform \<Rightarrow> flash_dev \<Rightarrow> int \<times> flash_dev" where
  "storage_init P fl =
     (if fat_page_is_valid fl \<noteq> 0 then (0, fl)
      else let page_buffer = replicate FLASH_PAGE_SIZE 0xFF;
               page_buffer = put page_buffer FAT_PAGE_MAGIC_OFFSET (le32 FAT_PAGE_MAGIC)
           in (- 1, rewrite_page P FAT_BASE_ADDRESS page_buffer fl))"

text \<open>\<open>out\<close> is the buffer's value before the call; a too large index leaves it.\<close>

definition get_fat_entry :: "int \<Rightarrow> fat_entry \<Rightarrow> flash_dev \<Rightarrow> fat_entry option" where
  "get_fat_entry index out fl =
     (if MAX_FAT_ENTRIES \<le> index then Some out
      else if index < 0 then None
      else Some (flash_fat (nat index) fl))"

definition update_fat_entry :: "platform \<Rightarrow> int \<Rightarrow> fat_entry \<Rightarrow> flash_dev \<Rightarrow> (int \<times> flash_dev) option" where
  "update_fat_entry P index entry fl =
     (if MAX_FAT_ENTRIES \<le> index then Some (- 1, fl)
      else if index < 0 then None
      else let page_buffer = flash_simple_read FAT_BASE_ADDRESS FLASH_PAGE_SIZE fl;
               page_buffer = put page_buffer (nat index * 24) (fat_bytes entry);
               page_buffer = put page_buffer FAT_PAGE_MAGIC_OFFSET (le32 FAT_PAGE_MAGIC)
           in Some (0, rewrite_page P FAT_BASE_ADDRESS page_buffer fl))"

text \<open>
  \<^verbatim>\<open>counter\<close>: the local \<^verbatim>\<open>fat_entry\<close> is not initialised; the index is in range there, so its
  value before \<^verbatim>\<open>get_fat_entry\<close> is never used.
\<close>

definition counter :: "platform \<Rightarrow> int \<Rightarrow> flash_dev \<Rightarrow> (int \<times> flash_dev) option" where
  "counter P index fl =
     (if index < 0 \<or> MAX_FAT_ENTRIES \<le> index then Some (- 1, fl)
      else let page_buffer = flash_simple_read APP2_BASE_ADDRESS FLASH_PAGE_SIZE fl;
               off = nat index * 48;
               page_buffer = put page_buffer (off + 12)
                 (le32 (ext_counter (un_fat_ext (segment off 48 page_buffer)) + 1));
               ext = un_fat_ext (segment off 48 page_buffer)
           in do {
             fat_entry \<leftarrow> get_fat_entry index fat_erased fl;
             case security_get_root_secret P of
               None \<Rightarrow> Some (- 1, fl)
             | Some root \<Rightarrow>
                 (case derive_group_auth_key root (ext_group_id ext) of
                    None \<Rightarrow> Some (- 1, fl)
                  | Some group_key \<Rightarrow>
                      (case secure_crypto_hmac_sha256 group_key (build_hmac_msg (fat_uuid fat_entry) ext) 32 of
                         None \<Rightarrow> Some (- 1, fl)
                       | Some mac \<Rightarrow>
                           Some (0, rewrite_page P APP2_BASE_ADDRESS (put page_buffer (off + 16) mac) fl)))
           })"

definition verify_file_metadata :: "int \<Rightarrow> fat_entry \<Rightarrow> byte list \<Rightarrow> flash_dev \<Rightarrow> int" where
  "verify_file_metadata index fat_entry group_key fl =
     (if index < 0 \<or> MAX_FAT_ENTRIES \<le> index then - 1
      else let current_metadata = flash_ext (nat index) fl in
        if ext_file_addr current_metadata \<noteq> fat_flash_addr fat_entry then - 1
        else case secure_crypto_hmac_sha256 (take 32 group_key)
                    (build_hmac_msg (fat_uuid fat_entry) current_metadata) 32 of
               None \<Rightarrow> - 1
             | Some expected_hmac \<Rightarrow> if expected_hmac \<noteq> ext_metadata_HMAC current_metadata then - 1 else 0)"

section \<open>Pages\<close>

lemma storage_layout [simp]: "FAT_BASE_ADDRESS mod 1024 = 0" "APP2_BASE_ADDRESS mod 1024 = 0"
    "FAT_PAGE_MAGIC_OFFSET = 192" "FLASH_PAGE_SIZE = 1024"
  by (simp_all add: FAT_BASE_ADDRESS_def APP2_BASE_ADDRESS_def FAT_PAGE_MAGIC_OFFSET_def MAX_FAT_ENTRIES_def FLASH_PAGE_SIZE_def)

lemma pages_apart: "sector_of APP2_BASE_ADDRESS a \<Longrightarrow> \<not> sector_of FAT_BASE_ADDRESS a"
  by (simp add: sector_of_def FAT_BASE_ADDRESS_def APP2_BASE_ADDRESS_def)

lemma rewrite_page_frame:
  assumes "flash_ok P" "addr mod 1024 = 0" "length page \<le> 1024" "\<not> sector_of addr a"
  shows "flash_mem (rewrite_page P addr page fl) a = flash_mem fl a"
proof -
  obtain rc fl1 where e: "flash_simple_erase_page P addr fl = (rc, fl1)" by fastforce
  obtain rc' fl2 where w: "flash_simple_write P addr page fl1 = (rc', fl2)" by fastforce
  from e w erase_frame [OF assms(1) e assms(4)] write_sector_frame [OF assms(1-3) w assms(4)]
  show ?thesis by (simp add: rewrite_page_def)
qed

lemma rewrite_page_data:
  assumes "flash_ok P" "flash_reliable P" "addr mod 1024 = 0" "length page = 1024"
  shows "flash_simple_read addr 1024 (rewrite_page P addr page fl) = page"
proof -
  obtain fl1 where e: "flash_simple_erase_page P addr fl = (0, fl1)"
    using erase_reliable [OF assms(2)] by (metis prod.collapse)
  obtain fl2 where w: "flash_simple_write P addr page fl1 = (0, fl2)"
    using write_reliable [OF assms(2)] by (metis prod.collapse)
  from e w rewrite_sector [OF assms(1,3) _ e w] assms(4) show ?thesis by (simp add: rewrite_page_def)
qed

text \<open>What the pages mean: the entries and the magic read through the page.\<close>

lemma flash_fat_page: "i < 8 \<Longrightarrow> flash_simple_read FAT_BASE_ADDRESS 1024 fl = page \<Longrightarrow>
    flash_fat i fl = un_fat (segment (i * 24) 24 page)"
  using read_segment [of "i * 24" 24 1024 FAT_BASE_ADDRESS fl] by (simp add: flash_fat_def)

lemma flash_ext_page: "i < 8 \<Longrightarrow> flash_simple_read APP2_BASE_ADDRESS 1024 fl = page \<Longrightarrow>
    flash_ext i fl = un_fat_ext (segment (i * 48) 48 page)"
  using read_segment [of "i * 48" 48 1024 APP2_BASE_ADDRESS fl] by (simp add: flash_ext_def)

lemma page_valid: "flash_simple_read FAT_BASE_ADDRESS 1024 fl = page \<Longrightarrow>
    fat_page_is_valid fl = (if un_le32 (segment 192 4 page) = FAT_PAGE_MAGIC then 1 else 0)"
  using read_segment [of 192 4 1024 FAT_BASE_ADDRESS fl] by (simp add: fat_page_is_valid_def)

lemma read_page_kept: "(\<And>a. sector_of addr a \<Longrightarrow> flash_mem fl' a = flash_mem fl a) \<Longrightarrow> addr mod 1024 = 0 \<Longrightarrow>
    flash_simple_read addr 1024 fl' = flash_simple_read addr 1024 fl"
  by (rule read_cong) (simp add: in_sector)

lemma index_cases: "0 \<le> i \<Longrightarrow> i < 8 \<Longrightarrow> nat i < 8 \<and> i < MAX_FAT_ENTRIES" for i :: int
  by (simp add: MAX_FAT_ENTRIES_def)

lemma get_fat_entry_eq: "0 \<le> i \<Longrightarrow> i < 8 \<Longrightarrow> get_fat_entry i out fl = Some (flash_fat (nat i) fl)"
  using index_cases [of i] by (simp add: get_fat_entry_def)

section \<open>The file table\<close>

text \<open>A page with the entries \<open>fat\<close> and the magic number.\<close>

lemma fat_page_rewritten:
  assumes P: "flash_ok P" "flash_reliable P" and page: "length page = 1024" "segment 192 4 page = le32 FAT_PAGE_MAGIC"
    and fl': "fl' = rewrite_page P FAT_BASE_ADDRESS page fl"
  shows "\<And>k. k < 8 \<Longrightarrow> flash_fat k fl' = un_fat (segment (k * 24) 24 page)"
    and "storage_init P fl' = (0, fl')" and "\<And>a. \<not> sector_of FAT_BASE_ADDRESS a \<Longrightarrow> flash_mem fl' a = flash_mem fl a"
proof -
  have r: "flash_simple_read FAT_BASE_ADDRESS 1024 fl' = page"
    unfolding fl' by (rule rewrite_page_data [OF P _ page(1)]) simp
  show "flash_fat k fl' = un_fat (segment (k * 24) 24 page)" if "k < 8" for k by (rule flash_fat_page [OF that r])
  show "storage_init P fl' = (0, fl')" by (simp add: storage_init_def page_valid [OF r] page(2))
  show "flash_mem fl' a = flash_mem fl a" if "\<not> sector_of FAT_BASE_ADDRESS a" for a
    unfolding fl' by (rule rewrite_page_frame [OF P(1) _ _ that]) (simp_all add: page(1))
qed

lemma storage_init_resets:
  assumes P: "flash_ok P" "flash_reliable P" and v: "fat_page_is_valid fl = 0" and s: "storage_init P fl = (rc, fl')"
  shows "rc = - 1" "storage_init P fl' = (0, fl')" "\<And>k. 0 \<le> k \<Longrightarrow> k < 8 \<Longrightarrow> get_fat_entry k out fl' = Some fat_erased"
proof -
  define page :: "byte list" where "page = put (replicate 1024 0xFF) 192 (le32 FAT_PAGE_MAGIC)"
  have page: "length page = 1024" "segment 192 4 page = le32 FAT_PAGE_MAGIC" by (simp_all add: page_def)
  have e: "segment (k * 24) 24 page = replicate 24 0xFF" if "k < 8" for k
    using that segment_put_other [of 192 "le32 FAT_PAGE_MAGIC" "replicate 1024 0xFF" "k * 24" 24] by (simp add: page_def)
  from s v show "rc = - 1" by (auto simp: storage_init_def Let_def)
  from s v have "fl' = rewrite_page P FAT_BASE_ADDRESS page fl" by (auto simp: storage_init_def Let_def page_def)
  note * = fat_page_rewritten [OF P page this]
  show "storage_init P fl' = (0, fl')" by (rule *(2))
  show "get_fat_entry k out fl' = Some fat_erased" if "0 \<le> k" "k < 8" for k
    using *(1) e index_cases [OF that] by (simp add: get_fat_entry_eq [OF that] fat_erased_def)
qed

lemma update_fat_entry_ok:
  assumes P: "flash_ok P" "flash_reliable P" and i: "0 \<le> i" "i < 8" and e: "length (fat_uuid e) = 16"
    and u: "update_fat_entry P i e fl = Some (rc, fl')"
  shows "rc = 0" "storage_init P fl' = (0, fl')"
    and "\<And>k. 0 \<le> k \<Longrightarrow> k < 8 \<Longrightarrow> get_fat_entry k out fl' = (if k = i then Some e else get_fat_entry k out fl)"
    and "\<And>a. \<not> sector_of FAT_BASE_ADDRESS a \<Longrightarrow> flash_mem fl' a = flash_mem fl a"
proof -
  define old where "old = flash_simple_read FAT_BASE_ADDRESS 1024 fl"
  define page1 where "page1 = put old (nat i * 24) (fat_bytes e)"
  define page where "page = put page1 192 (le32 FAT_PAGE_MAGIC)"
  have l: "length old = 1024" "length (fat_bytes e) = 24" "length page1 = 1024"
    using e i by (simp_all add: old_def length_fat_bytes page1_def)
  have page: "length page = 1024" "segment 192 4 page = le32 FAT_PAGE_MAGIC" using l by (simp_all add: page_def)
  from u i have "rc = 0" "fl' = rewrite_page P FAT_BASE_ADDRESS page fl"
    by (simp_all add: update_fat_entry_def MAX_FAT_ENTRIES_def Let_def page_def page1_def old_def)
  note * = fat_page_rewritten [OF P page this(2)]
  show "rc = 0" by fact
  show "storage_init P fl' = (0, fl')" by (rule *(2))
  show "flash_mem fl' a = flash_mem fl a" if "\<not> sector_of FAT_BASE_ADDRESS a" for a by (rule *(3) [OF that])
  show "get_fat_entry k out fl' = (if k = i then Some e else get_fat_entry k out fl)" if k: "0 \<le> k" "k < 8" for k
  proof -
    have nk: "nat k \<le> 7" using k by linarith
    then have a: "segment (nat k * 24) 24 page = segment (nat k * 24) 24 page1"
      using segment_put_other [of 192 "le32 FAT_PAGE_MAGIC" page1 "nat k * 24" 24] l k by (simp add: page_def)
    have b: "segment (nat k * 24) 24 page1 = segment (nat k * 24) 24 old" if "k \<noteq> i"
    proof -
      have "nat k + 1 \<le> nat i \<or> nat i + 1 \<le> nat k" using that k i by linarith
      then show ?thesis
        using segment_put_other [of "nat i * 24" "fat_bytes e" old "nat k * 24" 24] l k i by (auto simp: page1_def)
    qed
    have c: "segment (nat i * 24) 24 page1 = fat_bytes e" using l i by (simp add: page1_def)
    have "flash_fat (nat k) fl' = un_fat (segment (nat k * 24) 24 page1)" using *(1) [of "nat k"] a k by simp
    moreover have "flash_fat (nat k) fl = un_fat (segment (nat k * 24) 24 old)"
      using flash_fat_page [of "nat k" fl old] k by (simp add: old_def)
    ultimately show ?thesis using b c fatc.dec_enc_bare [OF e] by (simp add: get_fat_entry_eq [OF k])
  qed
qed

text \<open>
  C39: An updated entry of the metadata table is read back, the other entries and the other
  pages stay, and the next boot finds the table intact; a boot that finds the page without its
  magic number, as a power loss between erase and write leaves it, starts with an empty table.
  An index of eight or more changes nothing.
\<close>

theorem fat_update_then_get:
  assumes "flash_ok P" "flash_reliable P" "0 \<le> i" "i < 8" "length (fat_uuid e) = 16"
  shows "(\<exists>fl'. update_fat_entry P i e fl = Some (0, fl') \<and> storage_init P fl' = (0, fl') \<and>
      (\<forall>k. 0 \<le> k \<longrightarrow> k < 8 \<longrightarrow> get_fat_entry k out fl' = (if k = i then Some e else get_fat_entry k out fl)) \<and>
      (\<forall>a. \<not> sector_of FAT_BASE_ADDRESS a \<longrightarrow> flash_mem fl' a = flash_mem fl a)) \<and>
    (fat_page_is_valid fl = 0 \<longrightarrow> (\<exists>fl'. storage_init P fl = (- 1, fl') \<and> storage_init P fl' = (0, fl') \<and>
      (\<forall>k. 0 \<le> k \<longrightarrow> k < 8 \<longrightarrow> get_fat_entry k out fl' = Some fat_erased))) \<and>
    (\<forall>k. 8 \<le> k \<longrightarrow> update_fat_entry P k e fl = Some (- 1, fl) \<and> get_fat_entry k out fl = Some out)"
proof -
  obtain rc fl' where u: "update_fat_entry P i e fl = Some (rc, fl')"
    using assms(3,4) by (simp add: update_fat_entry_def MAX_FAT_ENTRIES_def Let_def)
  note 1 = update_fat_entry_ok [OF assms u]
  obtain rc2 fl2 where s: "storage_init P fl = (rc2, fl2)" by fastforce
  note 2 = storage_init_resets [OF assms(1,2) _ s]
  have "\<forall>k. 8 \<le> k \<longrightarrow> update_fat_entry P k e fl = Some (- 1, fl) \<and> get_fat_entry k out fl = Some out"
    by (simp add: update_fat_entry_def get_fat_entry_def MAX_FAT_ENTRIES_def)
  with u 1 s 2 show ?thesis by blast
qed

lemma fat_update_then_get_witness:
  "\<exists>fl. update_fat_entry ref_platform 7 fat_erased ref_flash_dev = Some (0, fl) \<and> get_fat_entry 7 fat_erased fl = Some fat_erased"
proof -
  have "length (fat_uuid fat_erased) = 16" by (simp add: fat_erased_def un_fat_def)
  from fat_update_then_get [OF ref_flash ref_reliable _ _ this, of 7 ref_flash_dev fat_erased] show ?thesis by auto
qed

section \<open>The metadata MAC\<close>

lemma auth_key: "derive_group_auth_key root g \<noteq> None"
  by (simp add: derive_group_auth_key_def subkey_defs derive_group_subkey_spec)

lemma verify_file_metadata_iff:
  assumes "0 \<le> i" "i < 8" "length key = 32"
  shows "verify_file_metadata i e key fl = 0 \<longleftrightarrow> ext_file_addr (flash_ext (nat i) fl) = fat_flash_addr e \<and>
    ext_metadata_HMAC (flash_ext (nat i) fl) = hmac_spec key (build_hmac_msg (fat_uuid e) (flash_ext (nat i) fl))"
  using assms by (auto simp: verify_file_metadata_def MAX_FAT_ENTRIES_def secure_crypto_hmac_sha256_def hmac_sha256_raw_spec Let_def)

text \<open>The two updates of \<open>counter\<close> inside an entry, and outside it.\<close>

lemma un_ext_updated:
  assumes "length page = 1024" "i < 8" "length mac = 32"
  shows "un_fat_ext (segment (i * 48) 48 (put (put page (i * 48 + 12) (le32 c)) (i * 48 + 16) mac)) =
     (un_fat_ext (segment (i * 48) 48 page))\<lparr>ext_counter := c, ext_metadata_HMAC := mac\<rparr>"
    and "un_fat_ext (segment (i * 48) 48 (put page (i * 48 + 12) (le32 c))) =
     (un_fat_ext (segment (i * 48) 48 page))\<lparr>ext_counter := c\<rparr>"
  using assms by (simp_all add: un_fat_ext_def segment_slice segment_put_other)

lemma un_ext_other:
  assumes "length page = 1024" "i < 8" "k < 8" "k \<noteq> i" "length mac = 32"
  shows "segment (k * 48) 48 (put (put page (i * 48 + 12) (le32 c)) (i * 48 + 16) mac) = segment (k * 48) 48 page"
proof -
  have "Suc k \<le> i \<or> Suc i \<le> k" using assms(4) by linarith
  then have "k * 48 + 48 \<le> i * 48 \<or> i * 48 + 48 \<le> k * 48" by linarith
  then have *: "k * 48 + 48 \<le> i * 48 + 12 \<or> i * 48 + 12 + 4 \<le> k * 48" "k * 48 + 48 \<le> i * 48 + 16 \<or> i * 48 + 16 + 32 \<le> k * 48"
    by linarith+
  have b: "i * 48 + 48 \<le> 1024" "k * 48 + 48 \<le> 1024" using assms(2,3) by linarith+
  have "segment (k * 48) 48 (put page (i * 48 + 12) (le32 c)) = segment (k * 48) 48 page"
    by (rule segment_put_other) (use * b assms in simp_all)
  moreover have "segment (k * 48) 48 (put (put page (i * 48 + 12) (le32 c)) (i * 48 + 16) mac) = segment (k * 48) 48 (put page (i * 48 + 12) (le32 c))"
    by (rule segment_put_other) (use * b assms in simp_all)
  ultimately show ?thesis by simp
qed

text \<open>
  \<^verbatim>\<open>counter\<close> raises the counter of one entry by one (wrapping at 32 bits) and renews its
  MAC; the entry then verifies, under the key of its group, for the table entry with its
  address, and every other entry and page stays.
\<close>

theorem counter_then_verify:
  assumes "secrets_ok P" "flash_ok P" "flash_reliable P" "0 \<le> i" "i < 8"
  shows "\<exists>fl' root key mac. counter P i fl = Some (0, fl') \<and> security_get_root_secret P = Some root \<and>
    derive_group_auth_key root (ext_group_id (flash_ext (nat i) fl)) = Some key \<and>
    flash_ext (nat i) fl' = (flash_ext (nat i) fl)\<lparr>ext_counter := ext_counter (flash_ext (nat i) fl) + 1, ext_metadata_HMAC := mac\<rparr> \<and>
    (\<forall>k < 8. k \<noteq> nat i \<longrightarrow> flash_ext k fl' = flash_ext k fl) \<and>
    (\<forall>a. \<not> sector_of APP2_BASE_ADDRESS a \<longrightarrow> flash_mem fl' a = flash_mem fl a) \<and>
    (\<forall>e. fat_uuid e = fat_uuid (flash_fat (nat i) fl') \<longrightarrow>
      (verify_file_metadata i e key fl' = 0 \<longleftrightarrow> fat_flash_addr e = ext_file_addr (flash_ext (nat i) fl')))"
proof -
  define page where "page = flash_simple_read APP2_BASE_ADDRESS 1024 fl"
  define x where "x = flash_ext (nat i) fl"
  define x1 where "x1 = x\<lparr>ext_counter := ext_counter x + 1\<rparr>"
  have l: "length page = 1024" by (simp add: page_def)
  have n: "nat i < 8" using assms(4,5) by simp
  have x: "x = un_fat_ext (segment (nat i * 48) 48 page)" unfolding x_def by (rule flash_ext_page [OF n]) (simp add: page_def)
  obtain root where root: "security_get_root_secret P = Some root" using root_secret_ok [OF assms(1)] by blast
  obtain key where key: "derive_group_auth_key root (ext_group_id x) = Some key" using auth_key by blast
  have lk: "length key = 32" using key by (auto simp: derive_group_auth_key_def subkey_defs derive_group_subkey_spec)
  define mac where "mac = hmac_spec key (build_hmac_msg (fat_uuid (flash_fat (nat i) fl)) x1)"
  have lm: "length mac = 32" by (simp add: mac_def)
  define page' where "page' = put (put page (nat i * 48 + 12) (le32 (ext_counter x + 1))) (nat i * 48 + 16) mac"
  define fl' where "fl' = rewrite_page P APP2_BASE_ADDRESS page' fl"
  have l': "length page' = 1024" using l lm n by (simp add: page'_def)
  have "un_fat_ext (segment (nat i * 48) 48 (put page (nat i * 48 + 12) (le32 (ext_counter x + 1)))) = x1"
    using un_ext_updated(2) [OF l n lm] by (simp add: x1_def x)
  then have c: "counter P i fl = Some (0, fl')"
    using assms(4,5) root key lk by (simp add: counter_def MAX_FAT_ENTRIES_def get_fat_entry_def Let_def page_def [symmetric]
        x [symmetric] secure_crypto_hmac_sha256_def hmac_sha256_raw_spec fl'_def page'_def mac_def x1_def)
  have r: "flash_simple_read APP2_BASE_ADDRESS 1024 fl' = page'"
    unfolding fl'_def by (rule rewrite_page_data [OF assms(2,3) _ l']) simp
  have x': "flash_ext (nat i) fl' = x1\<lparr>ext_metadata_HMAC := mac\<rparr>"
    using flash_ext_page [OF n r] un_ext_updated(1) [OF l n lm] by (simp add: page'_def x1_def x)
  have o: "flash_ext k fl' = flash_ext k fl" if "k < 8" "k \<noteq> nat i" for k
    using flash_ext_page [OF that(1) r] flash_ext_page [OF that(1), of fl page] un_ext_other [OF l n that lm]
    by (simp add: page'_def page_def)
  have m: "flash_mem fl' a = flash_mem fl a" if "\<not> sector_of APP2_BASE_ADDRESS a" for a
    unfolding fl'_def by (rule rewrite_page_frame [OF assms(2) _ _ that]) (simp_all add: l')
  have "flash_simple_read FAT_BASE_ADDRESS 1024 fl' = flash_simple_read FAT_BASE_ADDRESS 1024 fl"
    by (rule read_page_kept) (use m pages_apart in \<open>auto simp: \<close>)
  then have f: "flash_fat (nat i) fl' = flash_fat (nat i) fl" using flash_fat_page [OF n] by metis
  have "verify_file_metadata i e key fl' = 0 \<longleftrightarrow> fat_flash_addr e = ext_file_addr (flash_ext (nat i) fl')"
    if "fat_uuid e = fat_uuid (flash_fat (nat i) fl')" for e
    using that by (auto simp: verify_file_metadata_iff [OF assms(4,5) lk] x' f mac_def build_hmac_msg_def x1_def)
  with c root key x' o m show ?thesis by (auto simp: x_def x1_def)
qed

lemma counter_then_verify_witness:
  "\<exists>fl. counter ref_platform 2 ref_flash_dev = Some (0, fl) \<and>
     ext_counter (flash_ext 2 fl) = ext_counter (flash_ext 2 ref_flash_dev) + 1"
  using counter_then_verify [OF ref_secrets ref_flash ref_reliable, of 2 ref_flash_dev] by auto

end
