(* ===== verification/HSM.thy ===== *)
theory HSM
  imports Heard Filesystem
begin

text \<open>
  \<^verbatim>\<open>firmware/src/HSM.c\<close>: what is in RAM at reset, the boot, the self-test and one round of the
  command loop, with the host's packet handed to the handler of its opcode. \<open>dbg\<close> is
  \<^verbatim>\<open>DEBUG_BUILD\<close>. The loop never ends, so the program is a step relation; the device's life
  (commands, resets, new input on its lines) is \<open>device_step\<close>. \<open>device_event\<close> adds what an
  observer of the lines sees of each step, and \<open>vault_next\<close> is what this makes of a vault. The calls to the status LED and the watchdog are in \<^verbatim>\<open>Board\<close>, not in the state. Of
  the debug messages a debug build sends, those of \<^verbatim>\<open>HSM.c\<close> are modelled; the diagnostics inside
  the modules (\<^verbatim>\<open>DBG_PRINTF\<close>) are not.
\<close>

definition MAX_MSG_SIZE :: nat where "MAX_MSG_SIZE = WRITE_COMMAND_SIZE"

text \<open>The device: the modules' state, and the table \<^verbatim>\<open>init_fs\<close> loads, which nothing else reads.\<close>

record device =
  d_hsm :: hsm
  d_file_table :: "fat_entry list"

section \<open>Messages\<close>

text \<open>A string literal that ends in a newline.\<close>

definition c_line :: "string \<Rightarrow> byte list" where
  "c_line s = cstr s @ [10]"

definition print_debug :: "bool \<Rightarrow> byte list \<Rightarrow> hsm \<Rightarrow> hsm option" where
  "print_debug dbg msg h =
     (if dbg then do { (_, h) \<leftarrow> send CONTROL_INTERFACE DEBUG_MSG msg h; Some h } else Some h)"

definition print_hex_debug :: "bool \<Rightarrow> byte list \<Rightarrow> hsm \<Rightarrow> hsm option" where
  "print_hex_debug dbg buf h =
     (if dbg then do { (_, u) \<leftarrow> write_hex CONTROL_INTERFACE DEBUG_MSG buf (h_uart h); Some (h\<lparr>h_uart := u\<rparr>) }
      else Some h)"

section \<open>Reset and boot\<close>

text \<open>Static storage is zero; flash, the random source and the lines are outside the RAM.\<close>

definition replay_reset :: replay_cache where
  "replay_reset = \<lparr>g_replay_cache = replicate SECURE_UART_REPLAY_CACHE_SIZE replay_entry_zero, g_replay_next = 0\<rparr>"

definition blob_reset :: blob_state where
  "blob_reset = \<lparr>g_fat = replicate SECURE_BLOB_STORE_MAX_SLOTS (un_fat (replicate 24 0)), blob_initialized = False,
     g_aad = replicate 60 0,
     g_read_state = \<lparr>rs_flash_addr = 0, rs_processed = 0, rs_total_len = 0, rs_nonce = replicate 12 0,
       rs_master_key = replicate 32 0, rs_expected_blob_tag = replicate 32 0, rs_sha_ctx = sha256_ctx_zero\<rparr>\<rparr>"

definition names_reset :: "name_entry list" where
  "names_reset = replicate SECURE_BLOB_STORE_MAX_SLOTS (un_name (replicate NAME_ENTRY_SIZE 0))"

definition power_on :: "flash_dev \<Rightarrow> trng_dev \<Rightarrow> uart_dev \<Rightarrow> hsm" where
  "power_on fl tr u = \<lparr>h_flash = fl, h_trng = tr\<lparr>trng_powered := False, trng_configured := False\<rparr>, h_uart = u,
     h_replay = replay_reset, h_pin = pin_state_reset, h_blob = blob_reset, h_names = names_reset\<rparr>"

definition init :: "platform \<Rightarrow> hsm \<Rightarrow> device option" where
  "init P h =
     (let h = h\<lparr>h_trng := trng_init (h_trng h)\<rparr>;
          (_, table) = init_fs (h_flash h);
          (rc, fl, s) = pin_init P (h_flash h) (h_pin h);
          h = h\<lparr>h_flash := fl, h_pin := s\<rparr>
      in do { h \<leftarrow> (if rc \<noteq> 0 then print_error (c_line ''PIN init failed'') h else Some h);
              let (rc, h) = init_commands h;
              h \<leftarrow> (if rc \<noteq> 0 then print_error (c_line ''Blob store init failed'') h else Some h);
              Some \<lparr>d_hsm = h, d_file_table = table\<rparr> })"

text \<open>Two samples of eight bytes: the first not all zero, and not equal.\<close>

definition self_test :: "bool \<Rightarrow> hsm \<Rightarrow> hsm option" where
  "self_test dbg h =
     (do { (rng_a, tr) \<leftarrow> trng_read_bytes 8 (h_trng h);
           (rng_b, tr) \<leftarrow> trng_read_bytes 8 tr;
           let h = h\<lparr>h_trng := tr\<rparr>;
           if list_ex (\<lambda>b. b \<noteq> 0) rng_a \<and> rng_a \<noteq> rng_b
           then do { h \<leftarrow> print_debug dbg (c_line ''TRNG OK'') h;
                     h \<leftarrow> print_hex_debug dbg rng_a h;
                     print_hex_debug dbg rng_b h }
           else print_error (c_line ''TRNG FAIL'') h })"

definition boot :: "bool \<Rightarrow> platform \<Rightarrow> flash_dev \<Rightarrow> trng_dev \<Rightarrow> uart_dev \<Rightarrow> device option" where
  "boot dbg P fl tr u =
     (do { d \<leftarrow> init P (power_on fl tr u);
           h \<leftarrow> self_test dbg (d_hsm d);
           h \<leftarrow> print_debug dbg (c_line ''BOOT OK'') h;
           Some (d\<lparr>d_hsm := h\<rparr>) })"

section \<open>The command loop\<close>

fun read_error :: "msg_status \<Rightarrow> string" where
  "read_error MSG_BAD_PTR = ''Bad cmd pointer''"
| "read_error MSG_NO_ACK = ''Failed to receive ACK from host''"
| "read_error MSG_BAD_LEN = ''Received bad length''"
| "read_error MSG_TIMEOUT = ''UART frame timeout''"
| "read_error MSG_OK = ''Failed to receive cmd from host''"

text \<open>
  \<^verbatim>\<open>sprintf(output_buf, "Invalid Command: %c\n", cmd)\<close>, sent up to its first NUL. The
  handlers' results are not looked at.
\<close>

definition invalid_command :: "byte \<Rightarrow> byte list" where
  "invalid_command cmd = takeWhile (\<lambda>b. b \<noteq> 0) (cstr ''Invalid Command: '' @ [cmd, 10])"

definition dispatch :: "bool \<Rightarrow> platform \<Rightarrow> byte \<Rightarrow> byte list \<Rightarrow> hsm \<Rightarrow> hsm option" where
  "dispatch dbg P cmd pkt h =
     (if cmd = LIST_MSG then map_option snd (list_cmd P pkt h)
      else if cmd = READ_MSG then map_option snd (read_cmd P pkt h)
      else if cmd = WRITE_MSG then map_option snd (write_cmd P pkt h)
      else if cmd = RECEIVE_MSG then map_option snd (receive P pkt h)
      else if cmd = INTERROGATE_MSG then map_option snd (interrogate P pkt h)
      else if cmd = LISTEN_MSG then map_option snd (listen P pkt h)
      else if dbg \<and> cmd = DELETE_FILE_MSG then map_option snd (delete_file P pkt h)
      else if dbg \<and> cmd = CHANGE_PIN_MSG then map_option snd (change_pin P pkt h)
      else if dbg \<and> cmd = BOOT_FLAG_MSG then map_option snd (boot_flag P pkt h)
      else if dbg \<and> cmd = DIGEST_MSG then map_option snd (digest P pkt h)
      else if dbg \<and> cmd = ECHO_MSG then map_option snd (echo pkt h)
      else print_error (invalid_command cmd) h)"

text \<open>
  One round of \<^verbatim>\<open>while (1)\<close>. \<open>Waits\<close>: some read waits on the host port for ever. \<open>Overrun\<close>:
  the packet was longer than \<^verbatim>\<open>uart_buf\<close> and \<^verbatim>\<open>read_packet\<close>, called with \<^verbatim>\<open>pkt_len = 0\<close> and
  so without a limit, wrote past its end; C says nothing of what follows.
\<close>

datatype round = Next device | Waits | Overrun

definition loop_round :: "bool \<Rightarrow> platform \<Rightarrow> device \<Rightarrow> round" where
  "loop_round dbg P d =
     (case print_debug dbg (c_line ''Ready'') (d_hsm d) of
        None \<Rightarrow> Waits
      | Some h \<Rightarrow>
          (case read_packet CONTROL_INTERFACE 0 (h_uart h) of
             None \<Rightarrow> Waits
           | Some (r, u) \<Rightarrow>
               let h = h\<lparr>h_uart := u\<rparr> in
               if MAX_MSG_SIZE < length (pk_data r) then Overrun
               else case (if pk_status r \<noteq> MSG_OK then print_error (c_line (read_error (pk_status r))) h
                          else dispatch dbg P (the (pk_cmd r)) (pk_data r) h) of
                      None \<Rightarrow> Waits
                    | Some h \<Rightarrow> Next (d\<lparr>d_hsm := h\<rparr>)))"

section \<open>The life of a device\<close>

text \<open>New input: what the host, the other device and the random source will deliver.\<close>

definition with_input :: "(int \<Rightarrow> byte option list) \<Rightarrow> trng_poll list \<Rightarrow> hsm \<Rightarrow> hsm" where
  "with_input rx ps h = h\<lparr>h_uart := (h_uart h)\<lparr>uart_rx := rx\<rparr>, h_trng := (h_trng h)\<lparr>trng_polls := ps\<rparr>\<rparr>"

inductive device_step :: "bool \<Rightarrow> platform \<Rightarrow> device \<Rightarrow> device \<Rightarrow> bool" for dbg P where
  command: "loop_round dbg P d = Next d' \<Longrightarrow> device_step dbg P d d'"
| reset: "boot dbg P (h_flash (d_hsm d)) tr u = Some d' \<Longrightarrow> device_step dbg P d d'"
| input: "device_step dbg P d (d\<lparr>d_hsm := with_input rx ps (d_hsm d)\<rparr>)"

inductive_cases device_stepE: "device_step dbg P d d'"

text \<open>
  What can be observed of a step: the packet that the host sent, what came in on the transfer line
  in the round and what went out to the host; a packet that was not accepted; a reset; new input.
\<close>

datatype event = Command byte "byte list" "byte list" "byte list" | BadFrame | Reset | NewInput

inductive round_event :: "bool \<Rightarrow> platform \<Rightarrow> device \<Rightarrow> event \<Rightarrow> device \<Rightarrow> bool" for dbg P d where
  served: "print_debug dbg (c_line ''Ready'') (d_hsm d) = Some h \<Longrightarrow> read_packet CONTROL_INTERFACE 0 (h_uart h) = Some (r, u) \<Longrightarrow>
    pk_status r = MSG_OK \<Longrightarrow> loop_round dbg P d = Next d' \<Longrightarrow> round_event dbg P d
      (Command (the (pk_cmd r)) (pk_data r) (heard 1 (h_uart (d_hsm d)) (h_uart (d_hsm d')))
        (told 0 (h_uart (d_hsm d)) (h_uart (d_hsm d')))) d'"
| unread: "print_debug dbg (c_line ''Ready'') (d_hsm d) = Some h \<Longrightarrow> read_packet CONTROL_INTERFACE 0 (h_uart h) = Some (r, u) \<Longrightarrow>
    pk_status r \<noteq> MSG_OK \<Longrightarrow> loop_round dbg P d = Next d' \<Longrightarrow> round_event dbg P d BadFrame d'"

inductive_cases round_eventE: "round_event dbg P d e d'"

inductive device_event :: "bool \<Rightarrow> platform \<Rightarrow> device \<Rightarrow> event \<Rightarrow> device \<Rightarrow> bool" for dbg P d where
  ev_round: "round_event dbg P d e d' \<Longrightarrow> device_event dbg P d e d'"
| ev_reset: "boot dbg P (h_flash (d_hsm d)) tr u = Some d' \<Longrightarrow> device_event dbg P d Reset d'"
| ev_input: "device_event dbg P d NewInput (d\<lparr>d_hsm := with_input rx ps (d_hsm d)\<rparr>)"

inductive_cases device_eventE: "device_event dbg P d e d'"

text \<open>Every round has its event.\<close>

lemma round_observed:
  assumes "loop_round dbg P d = Next d'"
  shows "\<exists>e. round_event dbg P d e d'"
proof -
  from assms obtain h r u where h: "print_debug dbg (c_line ''Ready'') (d_hsm d) = Some h"
    and r: "read_packet CONTROL_INTERFACE 0 (h_uart h) = Some (r, u)"
    by (auto simp: loop_round_def split: option.splits)
  show ?thesis
    using served [OF h r _ assms] unread [OF h r _ assms] by (cases "pk_status r = MSG_OK") blast+
qed

lemma step_observed: "device_step dbg P d d' \<Longrightarrow> \<exists>e. device_event dbg P d e d'"
  by (erule device_stepE) (blast dest: round_observed intro: ev_round ev_reset ev_input)+

section \<open>What the events make of a vault\<close>

text \<open>
  The answer of the other device to \<open>receive\<close>: the last frame heard on the transfer line, if it has
  the opcode and the length; the file in it, stored under the PIN of the host's packet; and the
  success message to the host, which ends the round.
\<close>

definition peer_response :: "byte list \<Rightarrow> byte list option" where
  "peer_response bs =
     (let frame = drop (length bs - (4 + RECEIVE_RESPONSE_SIZE)) bs
      in if length frame = 4 + RECEIVE_RESPONSE_SIZE \<and> take 4 frame = msg_header RECEIVE_MSG (of_nat RECEIVE_RESPONSE_SIZE)
         then Some (drop 4 frame) else None)"

definition imported_file :: "platform \<Rightarrow> byte list \<Rightarrow> byte list \<Rightarrow> stored_file" where
  "imported_file P pkt resp =
     (let f = un_file (drop 16 resp)
      in \<lparr>sf_name = take 31 (f_name f) @ [0], sf_group = f_group_id f, sf_uuid = segment 0 16 resp,
          sf_owner = pin_hash P (segment 0 6 pkt), sf_data = take (unat (f_contents_len f)) (f_contents f)\<rparr>)"

definition importable :: "platform \<Rightarrow> byte list \<Rightarrow> bool" where
  "importable P resp \<longleftrightarrow> (let f = un_file (drop 16 resp) in
     unat (f_contents_len f) \<le> MAX_CONTENTS_SIZE \<and> validate_permission P (f_group_id f) PERM_RECEIVE)"

definition says_received :: "byte list \<Rightarrow> bool" where
  "says_received bs \<longleftrightarrow> drop (length bs - 4) bs = msg_header RECEIVE_MSG 0"

definition spec_receive :: "platform \<Rightarrow> byte list \<Rightarrow> byte list \<Rightarrow> byte list \<Rightarrow> vault \<Rightarrow> vault" where
  "spec_receive P pkt hrd tld v =
     (case peer_response hrd of
        None \<Rightarrow> v
      | Some resp \<Rightarrow>
          if RECEIVE_COMMAND_SIZE \<le> length pkt \<and> opens P (segment 0 6 pkt) v \<and>
             importable P resp \<and> slot_is_valid (pkt ! 7) \<and> says_received tld
          then put_file (pkt ! 7) (imported_file P pkt resp) v else v)"

text \<open>A reset keeps a vault; only if the PIN's hash is the pattern of erased flash is the PIN provisioned again.\<close>

definition spec_reset :: "platform \<Rightarrow> vault \<Rightarrow> vault" where
  "spec_reset P v = (if v_pin v = replicate 32 0xFF then v\<lparr>v_pin := pin_hash P (provisioned_pin P)\<rparr> else v)"

fun vault_next :: "bool \<Rightarrow> platform \<Rightarrow> event \<Rightarrow> vault \<Rightarrow> vault" where
  "vault_next dbg P (Command cmd pkt hrd tld) v =
     (if cmd = WRITE_MSG then snd (spec_write P pkt v)
      else if cmd = RECEIVE_MSG then spec_receive P pkt hrd tld v
      else if dbg \<and> cmd = DELETE_FILE_MSG then snd (spec_delete P pkt v)
      else if dbg \<and> cmd = CHANGE_PIN_MSG then snd (spec_change_pin P pkt v)
      else v)"
| "vault_next dbg P BadFrame v = v"
| "vault_next dbg P Reset v = spec_reset P v"
| "vault_next dbg P NewInput v = v"

definition new_vault :: "platform \<Rightarrow> vault" where
  "new_vault P = \<lparr>v_pin = pin_hash P (provisioned_pin P), v_files = (\<lambda>_. None)\<rparr>"

end
