(* ===== verification/Session.thy ===== *)
theory Session
  imports HSM PeerTransfer
begin

text \<open>
  What a handler leaves behind whatever it is sent. \<open>keeps Q r\<close> says that the state of a run, if
  it returns, satisfies \<open>Q\<close>; its rules follow the shape of the handlers. The locale \<open>session\<close>
  is the contract of a relation between devices and some ghost value that the calls of the
  handlers respect: receiving and sending, the random source, the replay cache, reading a
  file, the PIN gate and the storing of a file. Every handler that is made of these calls
  respects it too; of \<open>receive\<close> it follows that the file stored is the one in the last frame
  heard. With a few more laws a round of the loop takes the ghost value to the one that the
  event of the round determines (\<open>loop_session\<close>).
\<close>

section \<open>Runs that keep a property\<close>

definition keeps :: "(hsm \<Rightarrow> bool) \<Rightarrow> ('a \<times> hsm) option \<Rightarrow> bool" where
  "keeps Q r \<longleftrightarrow> (\<forall>x h'. r = Some (x, h') \<longrightarrow> Q h')"

named_theorems keeping

lemma keepsD: "keeps Q r \<Longrightarrow> r = Some (x, h') \<Longrightarrow> Q h'"
  by (simp add: keeps_def)

lemma keeps_bind:
  "keeps Q r \<Longrightarrow> (\<And>x h'. Q h' \<Longrightarrow> keeps Q' (f x h')) \<Longrightarrow> keeps Q' (do { (x, h) \<leftarrow> r; f x h })"
  by (auto simp: keeps_def bind_eq_Some_conv)

lemma keeps_if [keeping]:
  "(c \<Longrightarrow> keeps Q a) \<Longrightarrow> (\<not> c \<Longrightarrow> keeps Q b) \<Longrightarrow> keeps Q (if c then a else b)"
  by simp

lemma keeps_Let [keeping]: "keeps Q (f x) \<Longrightarrow> keeps Q (let y = x in f y)"
  by simp

lemma keeps_option [keeping]:
  "(x = None \<Longrightarrow> keeps Q a) \<Longrightarrow> (\<And>y. x = Some y \<Longrightarrow> keeps Q (f y)) \<Longrightarrow>
   keeps Q (case x of None \<Rightarrow> a | Some y \<Rightarrow> f y)"
  by (simp split: option.split)

lemma keeps_return [keeping]: "Q h \<Longrightarrow> keeps Q (Some (x, h))"
  by (simp add: keeps_def)

lemma keeps_weaken: "keeps Q r \<Longrightarrow> (\<And>h. Q h \<Longrightarrow> Q' h) \<Longrightarrow> keeps Q' r"
  by (auto simp: keeps_def)

lemma keeps_run: "keeps Q r \<Longrightarrow> map_option snd r = Some h' \<Longrightarrow> Q h'"
  by (auto simp: keeps_def)

lemma replay_inv_checked:
  "replay_inv c \<Longrightarrow> security_secure_uart_check_and_update_replay nr nt g opc c = (ok, c') \<Longrightarrow> replay_inv c'"
  using replay_inv_check [of c "(nr, nt, g, opc)"] by simp

lemma print_debug_quiet: "print_debug dbg msg h = Some (h\<lparr>h_uart := if dbg
    then add_tx 0 (msg_header DEBUG_MSG (of_nat (length msg)) @ msg) (h_uart h) else h_uart h\<rparr>)"
  by (simp add: print_debug_def send_def write_packet_quiet needs_ack_def)

text \<open>What follows \<^verbatim>\<open>init\<close> in a boot takes random bytes and prints.\<close>

lemma self_test_effect:
  assumes "self_test dbg h = Some h'"
  shows "\<exists>tr u. h' = h\<lparr>h_trng := tr, h_uart := u\<rparr>"
proof -
  have hex: "\<exists>u. h2 = h1\<lparr>h_uart := u\<rparr>" if "print_hex_debug dbg buf h1 = Some h2" for buf h1 h2
  proof (cases dbg)
    case False
    with that have "h2 = h1\<lparr>h_uart := h_uart h1\<rparr>" by (simp add: print_hex_debug_def)
    then show ?thesis ..
  qed (use that in \<open>auto simp: print_hex_debug_def bind_eq_Some_conv\<close>)
  from assms obtain a tr1 b tr2 where r: "trng_read_bytes 8 (h_trng h) = Some (a, tr1)" "trng_read_bytes 8 tr1 = Some (b, tr2)"
    by (auto simp: self_test_def bind_eq_Some_conv)
  show ?thesis
  proof (cases "list_ex (\<lambda>b. b \<noteq> 0) a \<and> a \<noteq> b")
    case True
    with assms r obtain h3 h4 where "print_debug dbg (c_line ''TRNG OK'') (h\<lparr>h_trng := tr2\<rparr>) = Some h3"
      "print_hex_debug dbg a h3 = Some h4" "print_hex_debug dbg b h4 = Some h'" by (auto simp: self_test_def bind_eq_Some_conv)
    then obtain u where "h' = h\<lparr>h_trng := tr2, h_uart := u\<rparr>"
      using hex [of a h3 h4] hex [of b h4 h'] by (auto simp: print_debug_quiet)
    then show ?thesis by blast
  next
    case False
    with assms r obtain u where "h' = h\<lparr>h_trng := tr2, h_uart := u\<rparr>" by (auto simp: self_test_def print_error_eq)
    then show ?thesis by blast
  qed
qed

lemma boot_effect:
  assumes "boot dbg P fl tr u = Some d"
  obtains d1 tr' u' where "init P (power_on fl tr u) = Some d1" "d_hsm d = (d_hsm d1)\<lparr>h_trng := tr', h_uart := u'\<rparr>"
proof -
  from assms obtain d1 h1 h2 where i: "init P (power_on fl tr u) = Some d1" and t: "self_test dbg (d_hsm d1) = Some h1"
    and p: "print_debug dbg (c_line ''BOOT OK'') h1 = Some h2" and d: "d = d1\<lparr>d_hsm := h2\<rparr>"
    by (auto simp: boot_def bind_eq_Some_conv)
  from self_test_effect [OF t] p d that [OF i] show thesis by (auto simp: print_debug_quiet)
qed

section \<open>What is said and heard\<close>

text \<open>A command that gives up says nothing to the host or ends with a message.\<close>

definition gave_up :: "uart_dev \<Rightarrow> uart_dev \<Rightarrow> bool" where
  "gave_up u u' \<longleftrightarrow> uart_tx u' 0 = uart_tx u 0 \<or> (\<exists>m. uart_tx u' 0 = uart_tx u 0 @ m @ [10])"

lemma says_received_not:
  "\<not> says_received []" "\<not> says_received (m @ [10])" "\<not> says_received (m @ ack_frame)" "says_received (m @ msg_header RECEIVE_MSG 0)"
proof -
  have h: "msg_header RECEIVE_MSG 0 = [MSG_MAGIC, RECEIVE_MSG, 0, 0]" "ack_frame = [MSG_MAGIC, ACK_MSG, 0, 0]"
    by (simp_all add: ack_frame_def msg_header_def le16_def)
  show "\<not> says_received []" "\<not> says_received (m @ ack_frame)" "says_received (m @ msg_header RECEIVE_MSG 0)"
    by (simp_all add: says_received_def h)
  have "last (drop (length (m @ [10]) - 4) (m @ [10 :: byte])) = 10" by (subst last_drop) simp_all
  then show "\<not> says_received (m @ [10])" by (auto simp: says_received_def h)
qed

text \<open>Before a handler begins the host has had a debug message, perhaps, and acknowledgements.\<close>

lemma says_received_acks: "\<not> says_received m \<Longrightarrow> \<not> says_received (m @ concat (replicate n ack_frame))"
proof (cases n)
  case (Suc k)
  have "replicate n ack_frame = replicate k ack_frame @ [ack_frame]" by (simp add: Suc replicate_append_same)
  then have "m @ concat (replicate n ack_frame) = (m @ concat (replicate k ack_frame)) @ ack_frame" by simp
  then show ?thesis by (simp only: says_received_not not_False_eq_True)
qed simp

lemma peer_response_last:
  "length data = RECEIVE_RESPONSE_SIZE \<Longrightarrow>
   peer_response (junk @ msg_header RECEIVE_MSG (of_nat RECEIVE_RESPONSE_SIZE) @ data) = Some data"
  by (simp add: peer_response_def msg_header_def Let_def)

lemma pin_gate_lines:
  assumes "pin_gate P pin h = Some (rc, h')"
  shows "rc = 0 \<and> h_uart h' = h_uart h \<or> rc = - 1 \<and> h_uart h' = h_uart (say ''Invalid pin'' h)"
  using assms by (auto simp: pin_gate_def do_check_pin_def pin_is_locked_def say_def split: prod.splits if_splits)

lemma store_blob_lines:
  assumes "store_blob P slot pin name g uuid contents h = Some (rc, h')"
  shows "uart_rx (h_uart h') = uart_rx (h_uart h)" "rc = 0 \<Longrightarrow> h_uart h' = h_uart h"
  using assms by (auto simp: store_blob_def do_save_name_def do_blob_write_def do_clear_name_def bind_eq_Some_conv
      split: option.splits prod.splits if_splits)

lemma done_reply_line:
  assumes "send CONTROL_INTERFACE type [] h = Some (rc, h')"
  shows "uart_tx (h_uart h') 0 = uart_tx (h_uart h) 0 @ msg_header type 0" "uart_rx (h_uart h') 1 = uart_rx (h_uart h) 1"
  using assms write_packet_blocks [of CONTROL_INTERFACE type "[]" "h_uart h"] write_packet_prefix(1) [of CONTROL_INTERFACE type "[]" "h_uart h"]
  by (auto simp: send_def bind_eq_Some_conv sent_prefix_def)

section \<open>The contract of a session\<close>

text \<open>
  \<open>put\<close> is what storing a file makes of the ghost value; \<open>sure\<close> says that storing into a valid slot
  does not fail.
\<close>

locale session =
  fixes inv :: "platform \<Rightarrow> 'v \<Rightarrow> hsm \<Rightarrow> bool"
    and granted :: "platform \<Rightarrow> byte list \<Rightarrow> 'v \<Rightarrow> bool"
    and put :: "byte \<Rightarrow> stored_file \<Rightarrow> 'v \<Rightarrow> 'v"
    and sure :: bool
  assumes io: "inv P v h \<Longrightarrow> inv P v (h\<lparr>h_uart := u\<rparr>)"
    and trng: "inv P v h \<Longrightarrow> inv P v (h\<lparr>h_trng := tr\<rparr>)"
    and modules: "inv P v h \<Longrightarrow> secrets_ok P \<and> blob_ok (h_blob h) \<and> replay_inv (h_replay h)"
    and replayed: "inv P v h \<Longrightarrow> replay_inv c \<Longrightarrow> inv P v (h\<lparr>h_replay := c\<rparr>)"
    and reading: "inv P v h \<Longrightarrow> blob_ok b \<Longrightarrow> g_fat b = g_fat (h_blob h) \<Longrightarrow> inv P v (h\<lparr>h_blob := b\<rparr>)"
    and gate: "inv P v h \<Longrightarrow> pin_gate P (segment 0 6 pkt) h = Some (rc, h') \<Longrightarrow>
      inv P v h' \<and> (rc = 0 \<longrightarrow> granted P (segment 0 6 pkt) v)"
    and stored: "inv P v h \<Longrightarrow> granted P pin v \<Longrightarrow> length pin = 6 \<Longrightarrow> slot_is_valid slot \<Longrightarrow>
      length name = 32 \<Longrightarrow> length uuid = 16 \<Longrightarrow> length data \<le> 8192 \<Longrightarrow>
      store_blob P slot pin name g uuid data h = Some (rc, h') \<Longrightarrow>
      inv P (put slot \<lparr>sf_name = take 31 name @ [0], sf_group = g, sf_uuid = uuid, sf_owner = pin_hash P pin, sf_data = data\<rparr> v) h'
      \<and> (sure \<longrightarrow> rc = 0)"
begin

text \<open>The calls.\<close>

lemma keeps_print [keeping]: "inv P v h \<Longrightarrow> (\<And>h. inv P v h \<Longrightarrow> Q h) \<Longrightarrow> keeps Q (fail m h)"
  by (simp add: keeps_def say_def io)

lemma keeps_deny [keeping]:
  "inv P v h \<Longrightarrow> (\<And>h. inv P v h \<Longrightarrow> Q h) \<Longrightarrow> keeps Q (deny m h)"
  "inv P v h \<Longrightarrow> (\<And>h. inv P v h \<Longrightarrow> Q h) \<Longrightarrow> keeps Q (deny_and_fail m m' h)"
  by (simp_all add: keeps_def io say_def)

lemma keeps_send: "inv P v h \<Longrightarrow> keeps (inv P v) (send i type buf h)"
  by (auto simp: keeps_def send_def bind_eq_Some_conv io)

lemma keeps_reply [keeping]:
  "inv P v h \<Longrightarrow> (\<And>h. inv P v h \<Longrightarrow> Q h) \<Longrightarrow> keeps Q (done_reply type buf h)"
  "inv P v h \<Longrightarrow> (\<And>h. inv P v h \<Longrightarrow> Q h) \<Longrightarrow> keeps Q (return_reply type buf h)"
  by (auto simp: keeps_def done_reply_def return_reply_def send_def bind_eq_Some_conv io)

lemma keeps_xfer_read: "inv P v h \<Longrightarrow> keeps (inv P v) (xfer_read cap h)"
  by (auto simp: keeps_def xfer_read_def bind_eq_Some_conv io)

lemma keeps_nonce: "inv P v h \<Longrightarrow> keeps (inv P v) (fresh_nonce h)"
  by (auto simp: keeps_def fresh_nonce_def bind_eq_Some_conv trng)

lemma keeps_gate: "inv P v h \<Longrightarrow> keeps (inv P v) (pin_gate P (segment 0 6 pkt) h)"
  using gate by (auto simp: keeps_def)

lemmas keeps_binds [keeping] = keeps_bind [OF keeps_send] keeps_bind [OF keeps_xfer_read] keeps_bind [OF keeps_nonce]
  keeps_bind [OF keeps_gate]

lemma keeps_replay [keeping]:
  assumes "inv P v h" "\<And>ok h'. inv P v h' \<Longrightarrow> keeps Q (f ok h')"
  shows "keeps Q (case check_replay nr nt g opc h of (ok, h) \<Rightarrow> f ok h)"
proof -
  obtain ok h' where c: "check_replay nr nt g opc h = (ok, h')" by fastforce
  from check_replay_eq [OF c] obtain c' where
    "security_secure_uart_check_and_update_replay nr nt g opc (h_replay h) = (ok, c')" "h' = h\<lparr>h_replay := c'\<rparr>" by blast
  then have "inv P v h'" using replayed [OF assms(1)] replay_inv_checked modules [OF assms(1)] by blast
  with assms(2) c show ?thesis by simp
qed

lemma keeps_blob_read [keeping]:
  assumes "inv P v h" "\<And>rc out n b. inv P v (h\<lparr>h_blob := b\<rparr>) \<Longrightarrow> keeps Q (f rc out n b)"
  shows "keeps Q (case blob_read_all_group_mask P slot g cap (h_flash h) (h_blob h) of (rc, out, n, b) \<Rightarrow> f rc out n b)"
    and "keeps Q (case blob_read_all P slot owner g cap (h_flash h) (h_blob h) of (rc, out, n, b) \<Rightarrow> f rc out n b)"
proof -
  have keep: "inv P v (h\<lparr>h_blob := b\<rparr>)" if "blob_ok b \<and> g_fat b = g_fat (h_blob h)" for b
    using reading [OF assms(1)] that by blast
  note m = modules [OF assms(1), THEN conjunct1] modules [OF assms(1), THEN conjunct2, THEN conjunct1]
  obtain rc out n b where 1: "blob_read_all_group_mask P slot g cap (h_flash h) (h_blob h) = (rc, out, n, b)"
    by (metis prod_cases4)
  from assms(2) [OF keep [OF blob_read_keeps(2) [OF m 1]]] 1
  show "keeps Q (case blob_read_all_group_mask P slot g cap (h_flash h) (h_blob h) of (rc, out, n, b) \<Rightarrow> f rc out n b)" by simp
  obtain rc out n b where 2: "blob_read_all P slot owner g cap (h_flash h) (h_blob h) = (rc, out, n, b)"
    by (metis prod_cases4)
  from assms(2) [OF keep [OF blob_read_keeps(1) [OF m 2]]] 2
  show "keeps Q (case blob_read_all P slot owner g cap (h_flash h) (h_blob h) of (rc, out, n, b) \<Rightarrow> f rc out n b)" by simp
qed

text \<open>The handlers made of them.\<close>

lemma keeps_list: "inv P v h \<Longrightarrow> keeps (inv P v) (list_cmd P pkt h)"
  unfolding list_cmd_def by (intro keeping)

lemma keeps_read: "inv P v h \<Longrightarrow> keeps (inv P v) (read_cmd P pkt h)"
  unfolding read_cmd_def by (intro keeping)

lemma keeps_interrogate: "inv P v h \<Longrightarrow> keeps (inv P v) (interrogate P pkt h)"
  unfolding interrogate_def interrogate_prove_def interrogate_finish_def by (intro keeping)

lemma keeps_listen: "inv P v h \<Longrightarrow> keeps (inv P v) (listen P pkt h)"
  unfolding listen_def listen_interrogate_def listen_receive_def listen_send_file_def print_error_eq Option.bind_lunit
  by (intro keeping io)

lemma keeps_digest: "inv P v h \<Longrightarrow> keeps (inv P v) (digest P pkt h)"
  unfolding digest_def by (intro keeping)

lemma keeps_boot_flag: "inv P v h \<Longrightarrow> keeps (inv P v) (boot_flag P pkt h)"
  unfolding boot_flag_def by (intro keeping)

lemma keeps_echo: "inv P v h \<Longrightarrow> keeps (inv P v) (echo pkt h)"
  unfolding echo_def by (intro keeping)

text \<open>
  \<open>receive\<close>. Until the other device's answer has come nothing is said to the host but a final
  message. \<open>u0\<close> are the lines when it began.
\<close>

definition underway :: "platform \<Rightarrow> 'v \<Rightarrow> uart_dev \<Rightarrow> hsm \<Rightarrow> bool" where
  "underway P v u0 h \<longleftrightarrow> inv P v h \<and> uart_tx (h_uart h) 0 = uart_tx u0 0 \<and> (\<exists>bs. took 1 bs u0 (h_uart h))"

text \<open>It ends with the ghost value as it was, or with the file of the last frame heard.\<close>

definition received :: "platform \<Rightarrow> 'v \<Rightarrow> byte list \<Rightarrow> uart_dev \<Rightarrow> hsm \<Rightarrow> bool" where
  "received P v pkt u0 h \<longleftrightarrow> (\<exists>bs. took 1 bs u0 (h_uart h) \<and>
     (inv P v h \<and> gave_up u0 (h_uart h) \<or>
      (\<exists>resp. peer_response bs = Some resp \<and> RECEIVE_COMMAND_SIZE \<le> length pkt \<and> granted P (segment 0 6 pkt) v \<and>
         importable P resp \<and> slot_is_valid (pkt ! 7) \<and> inv P (put (pkt ! 7) (imported_file P pkt resp) v) h \<and>
         (sure \<longrightarrow> uart_tx (h_uart h) 0 = uart_tx u0 0 @ msg_header RECEIVE_MSG 0))))"

lemma underway_send: "underway P v u0 h \<Longrightarrow> keeps (underway P v u0) (send TRANSFER_INTERFACE type buf h)"
  unfolding keeps_def underway_def using keepsD [OF keeps_send] send_took took_trans by metis

lemma underway_read: "underway P v u0 h \<Longrightarrow> keeps (underway P v u0) (xfer_read cap h)"
  unfolding keeps_def underway_def using keepsD [OF keeps_xfer_read] xfer_read_took took_trans by metis

lemma underway_nonce: "underway P v u0 h \<Longrightarrow> keeps (underway P v u0) (fresh_nonce h)"
  by (auto simp: keeps_def underway_def trng elim!: fresh_nonce_steps)

lemma received_say: "underway P v u0 h \<Longrightarrow> received P v pkt u0 (say m h)"
  unfolding underway_def received_def gave_up_def by (auto simp: say_def io)

lemma received_fail: "underway P v u0 h \<Longrightarrow> keeps (received P v pkt u0) (fail m h)"
  by (simp add: keeps_return received_say)

lemma received_store:
  assumes h: "inv P v h" "uart_tx (h_uart h) 0 = uart_tx u0 0" "took 1 bs u0 (h_uart h)"
    and resp: "peer_response bs = Some resp" "length resp = RECEIVE_RESPONSE_SIZE"
    and pkt: "RECEIVE_COMMAND_SIZE \<le> length pkt" "granted P (segment 0 6 pkt) v"
  shows "keeps (received P v pkt u0) (do { (rc, h) \<leftarrow> store_received_blob P (pkt ! 7) (segment 0 16 resp)
      (un_file (drop 16 resp)) (segment 0 6 pkt) h; if rc \<noteq> 0 then Some (- 1, h) else done_reply RECEIVE_MSG [] h })"
proof -
  let ?f = "un_file (drop 16 resp)" and ?pin = "segment 0 6 pkt" and ?slot = "pkt ! 7"
  let ?data = "take (unat (f_contents_len ?f)) (f_contents ?f)"
  have way: "underway P v u0 h" using h by (auto simp: underway_def)
  have len: "length ?pin = 6" "length (f_name ?f) = 32" "length (segment 0 16 resp) = 16" "length ?data \<le> 8192"
    using pkt(1) resp(2) by (simp_all add: RECEIVE_COMMAND_SIZE_def RECEIVE_RESPONSE_SIZE_def un_file_def)
  show ?thesis
  proof (cases "importable P resp")
    case False
    then have "\<exists>m. store_received_blob P ?slot (segment 0 16 resp) ?f ?pin h = Some (- 1, say m h)"
      by (cases "MAX_CONTENTS_SIZE < unat (f_contents_len ?f)") (auto simp: store_received_blob_def importable_def Let_def)
    then obtain m where "store_received_blob P ?slot (segment 0 16 resp) ?f ?pin h = Some (- 1, say m h)" by blast
    with received_say [OF way] show ?thesis by (simp add: keeps_return)
  next
    case ok: True
    then have st: "store_received_blob P ?slot (segment 0 16 resp) ?f ?pin h
        = store_blob P ?slot ?pin (f_name ?f) (f_group_id ?f) (segment 0 16 resp) ?data h"
      by (simp add: store_received_blob_def importable_def Let_def)
    show ?thesis
    proof (cases "slot_is_valid ?slot")
      case False
      with store_blob_invalid [OF _ False, of P ?pin] modules [OF h(1)] len(1) received_say [OF way]
      show ?thesis by (simp add: st keeps_return)
    next
      case slot: True
      let ?v = "put ?slot (imported_file P pkt resp) v"
      have ends: "received P v pkt u0 h2"
        if "inv P ?v h2" "took 1 [] (h_uart h) (h_uart h2)"
          "sure \<longrightarrow> uart_tx (h_uart h2) 0 = uart_tx u0 0 @ msg_header RECEIVE_MSG 0" for h2
        using that took_trans [OF h(3) that(2)] resp(1) pkt ok slot unfolding received_def by auto
      show ?thesis
        unfolding st keeps_def
      proof (intro allI impI)
        fix x h2 assume "do { (rc, h) \<leftarrow> store_blob P ?slot ?pin (f_name ?f) (f_group_id ?f) (segment 0 16 resp) ?data h;
            if rc \<noteq> 0 then Some (- 1, h) else done_reply RECEIVE_MSG [] h } = Some (x, h2)"
        then obtain rc h1 where s: "store_blob P ?slot ?pin (f_name ?f) (f_group_id ?f) (segment 0 16 resp) ?data h = Some (rc, h1)"
          and r: "(if rc \<noteq> 0 then Some (- 1, h1) else done_reply RECEIVE_MSG [] h1) = Some (x, h2)"
          by (auto simp: bind_eq_Some_conv)
        from stored [OF h(1) pkt(2) len(1) slot len(2-4) s] have i: "inv P ?v h1" "sure \<longrightarrow> rc = 0"
          by (simp_all add: imported_file_def Let_def)
        note u = store_blob_lines [OF s]
        show "received P v pkt u0 h2"
        proof (cases "rc = 0")
          case False
          with r i u(1) show ?thesis by (intro ends) (auto intro: took_none)
        next
          case True
          with r obtain st where sd: "send CONTROL_INTERFACE RECEIVE_MSG [] h1 = Some (st, h2)"
            by (auto simp: done_reply_def bind_eq_Some_conv)
          from done_reply_line [OF sd] u True h(2) keepsD [OF keeps_send [OF i(1)] sd] show ?thesis
            by (intro ends) (auto intro: took_none)
        qed
      qed
    qed
  qed
qed

lemma received_finish:
  assumes way: "underway P v u0 h" and pkt: "RECEIVE_COMMAND_SIZE \<le> length pkt" "granted P (segment 0 6 pkt) v"
  shows "keeps (received P v pkt u0) (receive_finish P (pkt ! 7) (segment 0 6 pkt) h)"
  unfolding keeps_def
proof (intro allI impI)
  fix x h' assume run: "receive_finish P (pkt ! 7) (segment 0 6 pkt) h = Some (x, h')"
  then obtain r h1 where x: "xfer_read RECEIVE_RESPONSE_SIZE h = Some (r, h1)"
    by (auto simp: receive_finish_def bind_eq_Some_conv)
  note way1 = keepsD [OF underway_read [OF way] x]
  from way obtain bs where bs: "took 1 bs u0 (h_uart h)" by (auto simp: underway_def)
  from xfer_read_took(1) [OF x] obtain cs where cs: "took 1 cs (h_uart h) (h_uart h1)"
    and frame: "pk_status r = MSG_OK \<longrightarrow> (\<exists>junk. cs = junk @ msg_header (the (pk_cmd r)) (of_nat (length (pk_data r))) @ pk_data r)" by blast
  show "received P v pkt u0 h'"
  proof (cases "pk_status r = MSG_OK \<and> pk_cmd r = Some RECEIVE_MSG \<and> length (pk_data r) = RECEIVE_RESPONSE_SIZE")
    case False
    with run x obtain m where "h' = say m h1" by (auto simp: receive_finish_def split: if_splits)
    with received_say [OF way1] show ?thesis by simp
  next
    case True
    with frame obtain junk where "cs = junk @ msg_header RECEIVE_MSG (of_nat RECEIVE_RESPONSE_SIZE) @ pk_data r" by auto
    then have "peer_response (bs @ cs) = Some (pk_data r)"
      using peer_response_last [of "pk_data r" "bs @ junk"] True by simp
    from received_store [OF _ _ took_trans [OF bs cs] this _ pkt] way1 True
    have "keeps (received P v pkt u0) (do { (rc, h) \<leftarrow> store_received_blob P (pkt ! 7) (segment 0 16 (pk_data r))
        (un_file (drop 16 (pk_data r))) (segment 0 6 pkt) h1; if rc \<noteq> 0 then Some (- 1, h) else done_reply RECEIVE_MSG [] h })"
      by (simp add: underway_def)
    then show ?thesis using run x True by (intro keepsD) (auto simp: receive_finish_def)
  qed
qed

lemma keeps_granted:
  assumes "inv P v h" "\<And>rc h'. inv P v h' \<Longrightarrow> (rc = 0 \<Longrightarrow> granted P (segment 0 6 pkt) v) \<Longrightarrow> keeps Q (f rc h')"
  shows "keeps Q (do { (rc, h) \<leftarrow> pin_gate P (segment 0 6 pkt) h; f rc h })"
  unfolding keeps_def
proof (intro allI impI)
  fix x h'' assume "do { (rc, h) \<leftarrow> pin_gate P (segment 0 6 pkt) h; f rc h } = Some (x, h'')"
  then obtain rc h' where g: "pin_gate P (segment 0 6 pkt) h = Some (rc, h')" and r: "f rc h' = Some (x, h'')"
    by (auto simp: bind_eq_Some_conv)
  from keepsD [OF assms(2) r] gate [OF assms(1) g] show "Q h''" by blast
qed

lemma underway_gate:
  assumes way: "underway P v u0 h"
    and go: "\<And>h'. underway P v u0 h' \<Longrightarrow> granted P (segment 0 6 pkt) v \<Longrightarrow> keeps (received P v pkt u0) (f 0 h')"
    and stop: "\<And>rc h'. rc \<noteq> 0 \<Longrightarrow> received P v pkt u0 h' \<Longrightarrow> keeps (received P v pkt u0) (f rc h')"
  shows "keeps (received P v pkt u0) (do { (rc, h) \<leftarrow> pin_gate P (segment 0 6 pkt) h; f rc h })"
  unfolding keeps_def
proof (intro allI impI)
  fix x h'' assume "do { (rc, h) \<leftarrow> pin_gate P (segment 0 6 pkt) h; f rc h } = Some (x, h'')"
  then obtain rc h' where g: "pin_gate P (segment 0 6 pkt) h = Some (rc, h')" and r: "f rc h' = Some (x, h'')"
    by (auto simp: bind_eq_Some_conv)
  from gate [OF _ g] way have i: "inv P v h'" "rc = 0 \<longrightarrow> granted P (segment 0 6 pkt) v" by (simp_all add: underway_def)
  from pin_gate_lines [OF g] show "received P v pkt u0 h''"
  proof
    assume u: "rc = 0 \<and> h_uart h' = h_uart h"
    with way i(1) have "underway P v u0 h'" by (simp add: underway_def)
    from keepsD [OF go [OF this]] i(2) u r show ?thesis by simp
  next
    assume u: "rc = - 1 \<and> h_uart h' = h_uart (say ''Invalid pin'' h)"
    then have m: "h_uart h' = h_uart (say ''Invalid pin'' h)" by blast
    have "received P v pkt u0 h'"
      using way i(1) m unfolding underway_def received_def gave_up_def by (auto simp: say_def)
    from keepsD [OF stop [OF _ this] r] u show ?thesis by simp
  qed
qed

lemma keeps_receive:
  assumes h: "inv P v h"
  shows "keeps (received P v pkt (h_uart h)) (receive P pkt h)"
proof -
  have way: "underway P v (h_uart h) h" using h by (auto simp: underway_def intro: exI [of _ "[]"])
  show ?thesis
    unfolding receive_def receive_prove_def Let_def
    by (intro keeps_if keeps_option received_fail way underway_gate [OF way] keeps_return keeps_bind [OF underway_nonce]
        keeps_bind [OF underway_send] keeps_bind [OF underway_read] received_finish) (simp_all add: not_less)
qed

text \<open>The handlers that write, delete and change the PIN, given what their own calls do.\<close>

lemma keeps_write:
  assumes h: "inv P v h" and c: "c = un_write_command pkt" and up: "\<And>h. inv P v h \<Longrightarrow> inv P w h"
    and st: "\<And>h1. inv P v h1 \<Longrightarrow> granted P (segment 0 6 pkt) v \<Longrightarrow> 59 \<le> length pkt \<Longrightarrow> validate_permission P (wc_group_id c) PERM_WRITE \<Longrightarrow>
      unat (wc_contents_len c) \<le> length pkt - 59 \<Longrightarrow> keeps (inv P w) (store_blob P (wc_slot c) (wc_pin c) (wc_name c) (wc_group_id c)
        (wc_uuid c) (take (unat (wc_contents_len c)) (wc_contents c)) h1)"
  shows "keeps (inv P w) (write_cmd P pkt h)"
proof -
  have last: "keeps (inv P w) (do { (rc, h) \<leftarrow> store_blob P (wc_slot c) (segment 0 6 pkt) (wc_name c) (wc_group_id c) (wc_uuid c)
      (take (unat (wc_contents_len c)) (wc_contents c)) h1; if rc \<noteq> 0 then Some (rc, h) else done_reply WRITE_MSG [] h })"
    if "inv P v h1" "granted P (segment 0 6 pkt) v" "59 \<le> length pkt" "validate_permission P (wc_group_id c) PERM_WRITE"
      "unat (wc_contents_len c) \<le> length pkt - 59" for h1
  proof (rule keeps_bind)
    show "keeps (inv P w) (store_blob P (wc_slot c) (segment 0 6 pkt) (wc_name c) (wc_group_id c) (wc_uuid c)
        (take (unat (wc_contents_len c)) (wc_contents c)) h1)" using st [OF that] by (simp add: c wc_pin_eq)
  qed (intro keeps_if keeps_return keeps_reply)
  show ?thesis
    unfolding write_cmd_def Let_def wc_pin_eq unfolding c [symmetric]
    by (intro keeps_if keeps_print [OF h] keeps_granted [OF h] last keeps_print keeps_return up)
       (simp_all add: WRITE_CMD_MIN_LEN_def WRITE_COMMAND_SIZE_def MAX_CONTENTS_SIZE_def)
qed

lemma keeps_delete:
  assumes h: "inv P v h"
    and blob: "\<And>h1 rc fl b. inv P v h1 \<Longrightarrow> blob_delete P (pkt ! 6) (h_flash h1) (h_blob h1) = (rc, fl, b) \<Longrightarrow>
      inv P v (h1\<lparr>h_flash := fl, h_blob := b\<rparr>)"
    and name: "\<And>h1 rc h2. inv P v h1 \<Longrightarrow> slot_is_valid (pkt ! 6) \<Longrightarrow> do_clear_name P (pkt ! 6) h1 = (rc, h2) \<Longrightarrow> inv P v h2"
  shows "keeps (inv P v) (delete_file P pkt h)"
  unfolding delete_file_def Let_def
proof (intro keeps_if keeps_print [OF h] keeps_granted [OF h])
  fix rc h1 assume h1: "inv P v h1" and "\<not> \<not> occupied (pkt ! 6) h1"
  then have s: "slot_is_valid (pkt ! 6)" by (simp add: occupied_def slot_occupied_iff)
  obtain rc1 fl b where d: "blob_delete P (pkt ! 6) (h_flash h1) (h_blob h1) = (rc1, fl, b)" by (metis prod_cases3)
  let ?h2 = "h1\<lparr>h_flash := fl, h_blob := b\<rparr>"
  note h2 = blob [OF h1 d]
  obtain rc2 h3 where c: "do_clear_name P (pkt ! 6) ?h2 = (rc2, h3)" by fastforce
  note h3 = name [OF h2 s c]
  have "keeps (inv P v) (if rc1 \<noteq> SECURE_BLOB_STORE_OK then fail ''Delete failed'' ?h2
      else if rc2 \<noteq> 0 then fail ''Name clear failed'' h3 else done_reply DELETE_FILE_MSG [] h3)"
    by (intro keeps_if keeps_print [OF h2] keeps_print [OF h3] keeps_reply [OF h3])
  then show "keeps (inv P v) (case blob_delete P (pkt ! 6) (h_flash h1) (h_blob h1) of (rc, fl, b) \<Rightarrow>
      if rc \<noteq> SECURE_BLOB_STORE_OK then fail ''Delete failed'' (h1\<lparr>h_flash := fl, h_blob := b\<rparr>)
      else case do_clear_name P (pkt ! 6) (h1\<lparr>h_flash := fl, h_blob := b\<rparr>) of (rc, h) \<Rightarrow>
        if rc \<noteq> 0 then fail ''Name clear failed'' h else done_reply DELETE_FILE_MSG [] h)"
    by (simp only: d c prod.case)
qed (auto intro!: keeps_return simp: say_def io)

lemma keeps_change:
  assumes h: "inv P v h" and up: "\<And>h. inv P v h \<Longrightarrow> inv P w h"
    and m: "\<And>rc fl s. 12 \<le> length pkt \<Longrightarrow> pin_change P (segment 0 6 pkt) (segment 6 6 pkt) (h_flash h) (h_pin h) = (rc, fl, s) \<Longrightarrow>
      inv P w (h\<lparr>h_flash := fl, h_pin := s\<rparr>)"
  shows "keeps (inv P w) (change_pin P pkt h)"
proof (cases "length pkt < 12")
  case True
  with up [OF h] show ?thesis by (auto simp: keeps_def change_pin_def CHANGE_PIN_COMMAND_SIZE_def io say_def)
next
  case False
  obtain rc fl s where c: "pin_change P (segment 0 6 pkt) (segment 6 6 pkt) (h_flash h) (h_pin h) = (rc, fl, s)"
    by (metis prod_cases3)
  let ?h = "h\<lparr>h_flash := fl, h_pin := s\<rparr>"
  have m: "inv P w ?h" using m [OF _ c] False by simp
  have "keeps (inv P w) (if rc \<noteq> 0 then fail ''Invalid pin'' ?h else done_reply CHANGE_PIN_MSG [] ?h)"
    by (intro keeps_if keeps_reply [OF m] keeps_print [OF m])
  then show ?thesis
    using False c by (simp add: change_pin_def CHANGE_PIN_COMMAND_SIZE_def pin_is_locked_def Let_def split: if_splits)
qed

text \<open>Messages of the main program.\<close>

lemma inv_print: "inv P v h \<Longrightarrow> print_error m h = Some h' \<Longrightarrow> inv P v h'"
  by (auto simp: print_error_eq io)

lemma inv_debug: "inv P v h \<Longrightarrow> print_debug dbg m h = Some h' \<Longrightarrow> inv P v h'"
  by (auto simp: print_debug_quiet io)

text \<open>What follows \<^verbatim>\<open>init\<close> keeps what it has set up.\<close>

lemma inv_boot:
  assumes "\<And>d. init P (power_on fl tr u) = Some d \<Longrightarrow> inv P v (d_hsm d)" "boot dbg P fl tr u = Some d"
  shows "inv P v (d_hsm d)"
  using assms(2)
proof (rule boot_effect)
  fix d1 tr' u' assume "init P (power_on fl tr u) = Some d1" "d_hsm d = (d_hsm d1)\<lparr>h_trng := tr', h_uart := u'\<rparr>"
  with io [OF trng [OF assms(1)]] show "inv P v (d_hsm d)" by simp
qed

end

section \<open>A round of the loop\<close>

text \<open>\<open>next\<close> is what the event of a round makes of the ghost value.\<close>

locale loop_session = session inv granted put sure
  for inv :: "platform \<Rightarrow> 'v \<Rightarrow> hsm \<Rightarrow> bool" and granted put sure +
  fixes dbg :: bool and follow :: "platform \<Rightarrow> event \<Rightarrow> 'v \<Rightarrow> 'v"
  assumes written: "inv P v h \<Longrightarrow> length pkt \<le> 8251 \<Longrightarrow> write_cmd P pkt h = Some (rc, h') \<Longrightarrow>
      inv P (follow P (Command WRITE_MSG pkt hrd tld) v) h'"
    and imported: "received P v pkt u0 h \<Longrightarrow> uart_tx u0 0 = tx @ pre \<Longrightarrow> \<not> says_received pre \<Longrightarrow>
      hrd = heard 1 u0 (h_uart h) \<Longrightarrow> tld = drop (length tx) (uart_tx (h_uart h) 0) \<Longrightarrow>
      inv P (follow P (Command RECEIVE_MSG pkt hrd tld) v) h"
    and deleted: "dbg \<Longrightarrow> inv P v h \<Longrightarrow> delete_file P pkt h = Some (rc, h') \<Longrightarrow>
      inv P (follow P (Command DELETE_FILE_MSG pkt hrd tld) v) h'"
    and changed: "dbg \<Longrightarrow> inv P v h \<Longrightarrow> change_pin P pkt h = Some (rc, h') \<Longrightarrow>
      inv P (follow P (Command CHANGE_PIN_MSG pkt hrd tld) v) h'"
    and served: "inv P v h \<Longrightarrow> cmd \<noteq> WRITE_MSG \<Longrightarrow> cmd \<noteq> RECEIVE_MSG \<Longrightarrow> \<not> (dbg \<and> cmd \<in> {DELETE_FILE_MSG, CHANGE_PIN_MSG}) \<Longrightarrow>
      inv P (follow P (Command cmd pkt hrd tld) v) h"
    and unread: "inv P v h \<Longrightarrow> inv P (follow P BadFrame v) h"
begin

lemma dispatch_follows:
  assumes h: "inv P v h" and len: "length pkt \<le> 8251" and d: "dispatch dbg P cmd pkt h = Some h'"
    and tx: "uart_tx (h_uart h) 0 = tx @ pre" "\<not> says_received pre"
  shows "inv P (follow P (Command cmd pkt (heard 1 (h_uart h) (h_uart h')) (drop (length tx) (uart_tx (h_uart h') 0))) v) h'"
proof -
  have keep: "keeps (inv P v) (list_cmd P pkt h)" "keeps (inv P v) (read_cmd P pkt h)" "keeps (inv P v) (interrogate P pkt h)"
    "keeps (inv P v) (listen P pkt h)" "keeps (inv P v) (boot_flag P pkt h)" "keeps (inv P v) (digest P pkt h)" "keeps (inv P v) (echo pkt h)"
    using h by (auto intro: keeps_list keeps_read keeps_interrogate keeps_listen keeps_boot_flag keeps_digest keeps_echo)
  have "inv P v h'" if "cmd \<noteq> WRITE_MSG" "cmd \<noteq> RECEIVE_MSG" "\<not> (dbg \<and> cmd \<in> {DELETE_FILE_MSG, CHANGE_PIN_MSG})"
    using d that keep inv_print [OF h] unfolding dispatch_def by (auto split: if_splits intro: keeps_run)
  from served [OF this] have same: ?thesis
    if "cmd \<noteq> WRITE_MSG" "cmd \<noteq> RECEIVE_MSG" "\<not> (dbg \<and> cmd \<in> {DELETE_FILE_MSG, CHANGE_PIN_MSG})" using that by blast
  have on_write: ?thesis if "cmd = WRITE_MSG" using written [OF h len] d that by (auto simp: dispatch_def)
  have on_receive: ?thesis if "cmd = RECEIVE_MSG"
  proof -
    from d that obtain rc where "receive P pkt h = Some (rc, h')" by (auto simp: dispatch_def)
    from imported [OF keepsD [OF keeps_receive [OF h] this] tx refl refl] that show ?thesis by simp
  qed
  have on_debug: ?thesis if "dbg" "cmd \<in> {DELETE_FILE_MSG, CHANGE_PIN_MSG}"
    using deleted [OF that(1) h] changed [OF that(1) h] d that by (auto simp: dispatch_def)
  from same on_write on_receive on_debug show ?thesis by blast
qed

lemma round_follows:
  assumes h: "inv P v (d_hsm d)" and r: "round_event dbg P d e d'"
  shows "inv P (follow P e v) (d_hsm d')"
proof -
  let ?u0 = "h_uart (d_hsm d)"
  from r obtain h1 pk u where h1: "print_debug dbg (c_line ''Ready'') (d_hsm d) = Some h1"
    and pk: "read_packet CONTROL_INTERFACE 0 (h_uart h1) = Some (pk, u)" and n: "loop_round dbg P d = Next d'"
    and e: "if pk_status pk = MSG_OK then e = Command (the (pk_cmd pk)) (pk_data pk) (heard 1 ?u0 (h_uart (d_hsm d'))) (told 0 ?u0 (h_uart (d_hsm d')))
      else e = BadFrame"
    by (auto elim!: round_eventE)
  let ?h = "h1\<lparr>h_uart := u\<rparr>"
  have keep: "inv P v ?h" by (rule io [OF inv_debug [OF h h1]])
  from n h1 pk obtain h' where len: "\<not> MAX_MSG_SIZE < length (pk_data pk)" and
    h': "(if pk_status pk \<noteq> MSG_OK then print_error (c_line (read_error (pk_status pk))) ?h
      else dispatch dbg P (the (pk_cmd pk)) (pk_data pk) ?h) = Some h'" "d' = d\<lparr>d_hsm := h'\<rparr>"
    by (auto simp: loop_round_def Let_def split: option.splits if_splits)
  show ?thesis
  proof (cases "pk_status pk = MSG_OK")
    case True
    have "read_frame CONTROL_INTERFACE (uart_frame_timeout_ms CONTROL_INTERFACE) (uart_frame_timeout_ms CONTROL_INTERFACE) 0 (h_uart h1) = Some (pk, u)"
      using pk by (simp add: read_packet_def Let_def)
    from read_frame_any(1) [OF this] obtain k where u: "uart_tx u 0 = uart_tx (h_uart h1) 0 @ concat (replicate k ack_frame)"
      "uart_rx u 1 = uart_rx (h_uart h1) 1" by (auto simp: only_acks_def)
    obtain m where m: "uart_tx (h_uart h1) 0 = uart_tx ?u0 0 @ m" "\<not> says_received m" "uart_rx (h_uart h1) 1 = uart_rx ?u0 1"
      using h1 says_received_not(1) says_received_not(2) [of "msg_header DEBUG_MSG 6 @ cstr ''Ready''"]
      by (cases dbg) (auto simp: print_debug_quiet c_line_def)
    have tx: "uart_tx (h_uart ?h) 0 = uart_tx ?u0 0 @ m @ concat (replicate k ack_frame)" using u m by simp
    have rx: "heard 1 (h_uart ?h) w = heard 1 ?u0 w" for w using u(2) m(3) by (simp add: heard_def)
    from True h' have "dispatch dbg P (the (pk_cmd pk)) (pk_data pk) ?h = Some (d_hsm d')" by simp
    from dispatch_follows [OF keep _ this tx says_received_acks [OF m(2)]] len True e rx show ?thesis
      by (simp add: told_def MAX_MSG_SIZE_def WRITE_COMMAND_SIZE_def)
  next
    case False
    with h' inv_print [OF keep] e show ?thesis by (simp add: unread)
  qed
qed

end

end
