(* ===== verification/Device.thy ===== *)
theory Device
  imports Session
begin

text \<open>
  The life of a device is the life of a vault. The vault that a device represents meets the
  contract of a session, so every round of the loop takes it to the vault that the event of the
  round determines; then the boot; then whole logs, by the contract of a simulation; and what a
  release build can never do.
\<close>

section \<open>Logs\<close>

text \<open>A run with the events that were observed of it, in their order.\<close>

inductive logged :: "('c \<Rightarrow> 'e \<Rightarrow> 'c \<Rightarrow> bool) \<Rightarrow> 'c \<Rightarrow> 'e list \<Rightarrow> 'c \<Rightarrow> bool" for step c where
  log_start: "logged step c [] c"
| log_event: "logged step c es d \<Longrightarrow> step d e d' \<Longrightarrow> logged step c (es @ [e]) d'"

lemma logged_run:
  assumes "step\<^sup>*\<^sup>* c d" "\<And>x y. step x y \<Longrightarrow> \<exists>e. observed x e y"
  shows "\<exists>es. logged observed c es d"
  using assms(1)
proof (induction rule: rtranclp_induct)
  case base
  show ?case using log_start by fast
next
  case (step x y)
  then show ?case using assms(2) log_event by fast
qed

text \<open>
  Each concrete step takes the abstract state to the one that its event determines; so a log
  determines the abstract state, and what every event keeps holds at the end.
\<close>

locale simulation =
  fixes cstep :: "'c \<Rightarrow> 'e \<Rightarrow> 'c \<Rightarrow> bool" and follow :: "'e \<Rightarrow> 'a \<Rightarrow> 'a" and related :: "'c \<Rightarrow> 'a \<Rightarrow> bool"
  assumes matched: "related c a \<Longrightarrow> cstep c e c' \<Longrightarrow> related c' (follow e a)"
begin

lemma run_matched: "logged cstep c es c' \<Longrightarrow> related c a \<Longrightarrow> related c' (fold follow es a)"
proof (induction rule: logged.induct)
  case (log_event es d e d')
  then show ?case using matched by simp
qed simp

end

lemma fold_invariant: "I a \<Longrightarrow> (\<And>e x. I x \<Longrightarrow> I (f e x)) \<Longrightarrow> I (fold f es a)"
  by (induction es arbitrary: a) simp_all

section \<open>A vault and its device\<close>

definition lives_in :: "platform \<Rightarrow> vault \<Rightarrow> hsm \<Rightarrow> bool" where
  "lives_in P v h \<longleftrightarrow> platform_good P \<and> represents P h v"

lemma represents_uart: "represents P h v \<Longrightarrow> represents P (h\<lparr>h_uart := u\<rparr>) v"
  by (rule represents_files [of P h]) (simp_all add: represents_replay)

lemma represents_trng: "represents P h v \<Longrightarrow> represents P (h\<lparr>h_trng := tr\<rparr>) v"
  by (rule represents_files [of P h]) (simp_all add: represents_replay)

lemma simulated: "simulates P av h r \<Longrightarrow> platform_good P \<Longrightarrow> r = (rc, h') \<Longrightarrow> lives_in P (snd av) h'"
  by (simp add: simulates_def lives_in_def)

text \<open>The calls of the handlers keep the vault, and storing a file puts it in: the contract of a session.\<close>

interpretation vault_calls: session lives_in opens put_file True
proof
  fix P v h u tr assume i: "lives_in P v h"
  then show "lives_in P v (h\<lparr>h_uart := u\<rparr>)" "lives_in P v (h\<lparr>h_trng := tr\<rparr>)"
    by (simp_all add: lives_in_def represents_uart represents_trng)
  show "secrets_ok P \<and> blob_ok (h_blob h) \<and> replay_inv (h_replay h)"
    using i by (simp add: lives_in_def platform_good_def represents_def hsm_ok_def)
  show "lives_in P v (h\<lparr>h_replay := c\<rparr>)" if "replay_inv c" for c
    using i represents_files [of P h v] that by (simp add: lives_in_def)
  show "lives_in P v (h\<lparr>h_blob := b\<rparr>)" if "blob_ok b" "g_fat b = g_fat (h_blob h)" for b
    using i represents_read that by (simp add: lives_in_def)
  show "lives_in P v h' \<and> (rc = 0 \<longrightarrow> opens P (segment 0 6 pkt) v)" if "pin_gate P (segment 0 6 pkt) h = Some (rc, h')" for pkt rc h'
    using i that gate_open [of P h v pkt] by (auto simp: lives_in_def represents_attempted split: if_splits)
  fix pin slot name g uuid data rc h'
  assume pin: "length pin = 6" and s: "slot_is_valid slot" and f: "length name = 32" "length uuid = 16" "length data \<le> 8192"
    and r: "store_blob P slot pin name g uuid data h = Some (rc, h')"
  have P: "platform_good P" "represents P h v" using i by (simp_all add: lives_in_def)
  show "lives_in P (put_file slot \<lparr>sf_name = take 31 name @ [0], sf_group = g, sf_uuid = uuid, sf_owner = pin_hash P pin, sf_data = data\<rparr> v) h'
      \<and> (True \<longrightarrow> rc = 0)"
    using store_sim [OF P s pin f r] P(1) by (simp add: lives_in_def)
qed

text \<open>An import happens exactly if the host is told so.\<close>

lemma vault_imports:
  assumes r: "vault_calls.received P v pkt u0 h" and u0: "uart_tx u0 0 = tx @ pre" "\<not> says_received pre"
    and log: "hrd = heard 1 u0 (h_uart h)" "tld = drop (length tx) (uart_tx (h_uart h) 0)"
  shows "lives_in P (spec_receive P pkt hrd tld v) h"
proof -
  from r obtain bs where t: "took 1 bs u0 (h_uart h)" and c: "lives_in P v h \<and> gave_up u0 (h_uart h) \<or>
      (\<exists>resp. peer_response bs = Some resp \<and> RECEIVE_COMMAND_SIZE \<le> length pkt \<and> opens P (segment 0 6 pkt) v \<and>
         importable P resp \<and> slot_is_valid (pkt ! 7) \<and> lives_in P (put_file (pkt ! 7) (imported_file P pkt resp) v) h \<and>
         uart_tx (h_uart h) 0 = uart_tx u0 0 @ msg_header RECEIVE_MSG 0)"
    by (auto simp: vault_calls.received_def)
  have h: "hrd = bs" using heard_took [OF t] log(1) by simp
  from c show ?thesis
  proof
    assume g: "lives_in P v h \<and> gave_up u0 (h_uart h)"
    then have "tld = pre \<or> (\<exists>m. tld = (pre @ m) @ [10])" using log(2) u0(1) by (auto simp: gave_up_def)
    with u0(2) says_received_not(2) have "\<not> says_received tld" by blast
    with g show ?thesis by (simp add: spec_receive_def split: option.split)
  next
    assume "\<exists>resp. peer_response bs = Some resp \<and> RECEIVE_COMMAND_SIZE \<le> length pkt \<and> opens P (segment 0 6 pkt) v \<and>
         importable P resp \<and> slot_is_valid (pkt ! 7) \<and> lives_in P (put_file (pkt ! 7) (imported_file P pkt resp) v) h \<and>
         uart_tx (h_uart h) 0 = uart_tx u0 0 @ msg_header RECEIVE_MSG 0"
    then show ?thesis using log(2) u0(1) says_received_not(4) [of pre] h by (auto simp: spec_receive_def)
  qed
qed

interpretation vault: loop_session lives_in opens put_file True dbg "vault_next dbg" for dbg
proof
  fix P v h pkt rc h' hrd tld dbg assume i: "lives_in P v h"
  note good = i [unfolded lives_in_def, THEN conjunct1] i [unfolded lives_in_def, THEN conjunct2]
  show "lives_in P (vault_next dbg P (Command WRITE_MSG pkt hrd tld) v) h'"
    if "length pkt \<le> 8251" "write_cmd P pkt h = Some (rc, h')"
    using simulated [OF sim_write [OF good that] good(1) refl] by simp
  show "lives_in P (vault_next dbg P (Command DELETE_FILE_MSG pkt hrd tld) v) h'" if "dbg" "delete_file P pkt h = Some (rc, h')"
    using simulated [OF sim_delete [OF good that(2)] good(1) refl] that(1) by simp
  show "lives_in P (vault_next dbg P (Command CHANGE_PIN_MSG pkt hrd tld) v) h'" if "dbg" "change_pin P pkt h = Some (rc, h')"
    using simulated [OF sim_change_pin [OF good that(2)] good(1) refl] that(1) by simp
qed (auto simp: vault_imports)

section \<open>Boot\<close>

text \<open>What the start-up code makes of a flash that some device represents.\<close>

lemma reset_state: "replay_inv replay_reset" "sha_ready (rs_sha_ctx (g_read_state blob_reset))" "\<not> blob_initialized blob_reset"
  by (simp_all add: replay_reset_def blob_reset_def replay_inv_def replay_entry_zero_def SECURE_UART_REPLAY_CACHE_SIZE_def)

lemma pin_init_reset:
  assumes P: "platform_good P" and pin: "6 \<le> length (provisioned_pin P)" and l: "fst (pin_load fl) = p"
    and i: "pin_init P fl pin_state_reset = (rc, fl', s)"
  shows "rc = 0" "pin_ok s" "g_pin_hash s = (if p = replicate 32 0xFF then pin_hash P (provisioned_pin P) else p)"
    and "fst (pin_load fl') = g_pin_hash s" "\<And>a. \<not> sector_of PIN_STATE_FLASH_ADDR a \<Longrightarrow> flash_mem fl' a = flash_mem fl a"
proof -
  let ?x = "(pin_hash P (provisioned_pin P), 0 :: u32)"
  note good = platform_goodD [OF P] and c = i [unfolded pin_init_cases [OF platform_goodD(1) [OF P]]]
  have f: "fst (pin_flush P ?x fl) = 0" by (rule pin_flush_reliable [OF good(4)])
  have "rc = 0 \<and> pin_ok s \<and> g_pin_hash s = (if p = replicate 32 0xFF then pin_hash P (provisioned_pin P) else p) \<and>
    fst (pin_load fl') = g_pin_hash s \<and> (fl' = fl \<or> fl' = snd (pin_flush P ?x fl))"
  proof (cases "p = replicate 32 0xFF")
    case True
    with c l pin f pin_flush_hash [OF good(3,4), of "fst ?x" 0 fl] show ?thesis
      by (cases "pin_flush P ?x fl") (simp add: pin_ok_def, auto)
  next
    case False
    with c l pin_load_blank_hash [of fl] show ?thesis by (auto simp: pin_ok_def)
  qed
  moreover have "flash_mem (snd (pin_flush P ?x fl)) a = flash_mem fl a" if "\<not> sector_of PIN_STATE_FLASH_ADDR a" for a
    using pin_flush_frame [OF good(3) _ _ that, of ?x fl] by (cases "pin_flush P ?x fl") simp
  ultimately show "rc = 0" "pin_ok s" "g_pin_hash s = (if p = replicate 32 0xFF then pin_hash P (provisioned_pin P) else p)"
    "fst (pin_load fl') = g_pin_hash s" "\<And>a. \<not> sector_of PIN_STATE_FLASH_ADDR a \<Longrightarrow> flash_mem fl' a = flash_mem fl a"
    by auto
qed

lemma init_commands_reset:
  assumes "tables_synced h0" "same_flash h0 h" "\<not> blob_initialized (h_blob h)"
  shows "init_commands h = (0, h\<lparr>h_blob := (h_blob h)\<lparr>g_fat := g_fat (h_blob h0), blob_initialized := True\<rparr>, h_names := h_names h0\<rparr>)"
proof -
  have "fat_pg.holds (g_fat (h_blob h0)) (h_flash h)" "name_pg.holds (h_names h0) (h_flash h)"
    using assms(1,2) fat_pg.holds_other [of _ "h_flash h0" PIN_STATE_FLASH_ADDR "h_flash h"]
      name_pg.holds_other [of _ "h_flash h0" PIN_STATE_FLASH_ADDR "h_flash h"]
    by (simp_all add: tables_synced_def same_flash_def)
  then show ?thesis
    using assms(3) by (simp add: init_commands_def blob_init_loads name_pg.holds_load)
qed

text \<open>A boot restores what was in RAM from the flash; an erased PIN page is provisioned again.\<close>

lemma init_restores:
  assumes P: "platform_good P" and pin: "6 \<le> length (provisioned_pin P)" and h: "hsm_ok h" "tables_synced h" "pin_kept h"
    and i: "init P (power_on (h_flash h) tr u) = Some d"
  shows "same_store h (d_hsm d)" "hsm_ok (d_hsm d)" "pin_kept (d_hsm d)"
    and "g_pin_hash (h_pin (d_hsm d)) = (if g_pin_hash (h_pin h) = replicate 32 0xFF then pin_hash P (provisioned_pin P) else g_pin_hash (h_pin h))"
proof -
  have l: "fst (pin_load (h_flash h)) = g_pin_hash (h_pin h)" using h(3) by (simp add: pin_kept_def)
  obtain rc fl s where c: "pin_init P (h_flash h) pin_state_reset = (rc, fl, s)" by (metis prod_cases3)
  note pi = pin_init_reset [OF P pin l c]
  define h1 where "h1 = (power_on (h_flash h) tr u)\<lparr>h_trng := trng_init (h_trng (power_on (h_flash h) tr u)), h_flash := fl, h_pin := s\<rparr>"
  define h2 where "h2 = h1\<lparr>h_blob := (h_blob h1)\<lparr>g_fat := g_fat (h_blob h), blob_initialized := True\<rparr>, h_names := h_names h\<rparr>"
  have f: "same_flash h h1" using pi(5) by (simp add: same_flash_def h1_def)
  have ic: "init_commands h1 = (0, h2)"
    unfolding h2_def by (rule init_commands_reset [OF h(2) f]) (simp add: h1_def power_on_def reset_state)
  from i ic c pi(1) have d: "d_hsm d = h2"
    by (auto simp: init_def Let_def power_on_def h1_def split: prod.splits)
  show "same_store h (d_hsm d)" using f by (simp add: d same_store_def same_flash_def h2_def)
  show "hsm_ok (d_hsm d)" using h(1) pi(2) reset_state by (simp add: d hsm_ok_def blob_ok_def h2_def h1_def power_on_def)
  show "pin_kept (d_hsm d)" using pi(4) by (simp add: d pin_kept_def h2_def h1_def)
  show "g_pin_hash (h_pin (d_hsm d)) = (if g_pin_hash (h_pin h) = replicate 32 0xFF then pin_hash P (provisioned_pin P) else g_pin_hash (h_pin h))"
    by (simp add: d h2_def h1_def pi(3))
qed

lemma init_represents:
  assumes P: "platform_good P" and pin: "6 \<le> length (provisioned_pin P)" and h: "represents P h v"
    and i: "init P (power_on (h_flash h) tr u) = Some d"
  shows "represents P (d_hsm d) (spec_reset P v)"
proof -
  from h have ok: "hsm_ok h" "tables_synced h" "pin_kept h" and v: "g_pin_hash (h_pin h) = v_pin v" by (simp_all add: represents_def)
  note r = init_restores [OF P pin ok i]
  from represents_new_pin [OF h r(1,2) r(4) r(3)] v show ?thesis by (auto simp: spec_reset_def split: if_splits)
qed

lemma boot_restores:
  assumes P: "platform_good P" and pin: "6 \<le> length (provisioned_pin P)" and h: "hsm_ok h" "tables_synced h" "pin_kept h"
    and b: "boot dbg P (h_flash h) tr u = Some d"
  shows "same_store h (d_hsm d) \<and> hsm_ok (d_hsm d) \<and> g_pin_hash (h_pin (d_hsm d)) =
    (if g_pin_hash (h_pin h) = replicate 32 0xFF then pin_hash P (provisioned_pin P) else g_pin_hash (h_pin h))"
  using b
proof (rule boot_effect)
  fix d1 tr' u' assume "init P (power_on (h_flash h) tr u) = Some d1" and d: "d_hsm d = (d_hsm d1)\<lparr>h_trng := tr', h_uart := u'\<rparr>"
  from init_restores [OF P pin h this(1)] show ?thesis
    by (simp add: d same_store_def same_flash_def hsm_ok_def)
qed

lemma boot_represents:
  assumes P: "platform_good P" and pin: "6 \<le> length (provisioned_pin P)" and h: "represents P h v"
    and b: "boot dbg P (h_flash h) tr u = Some d"
  shows "represents P (d_hsm d) (spec_reset P v)"
proof -
  have "lives_in P (spec_reset P v) (d_hsm d1)" if "init P (power_on (h_flash h) tr u) = Some d1" for d1
    using init_represents [OF P pin h that] P by (simp add: lives_in_def)
  from vault_calls.inv_boot [OF this b] show ?thesis by (simp add: lives_in_def)
qed

text \<open>A flash that was erased for a new device: the three pages of tables read 0xFF.\<close>

definition factory_flash :: "flash_dev \<Rightarrow> bool" where
  "factory_flash fl \<longleftrightarrow> (\<forall>a. 0x3A000 \<le> a \<and> a < 0x3AC00 \<longrightarrow> flash_mem fl a = 0xFF)"

lemma factory_read:
  assumes "factory_flash fl" "addr = 0x3A000 \<or> addr = 0x3A400 \<or> addr = 0x3A800" "n \<le> 1024"
  shows "flash_simple_read addr n fl = replicate n 0xFF"
  by (rule read_eqI) (use assms in \<open>auto simp: factory_flash_def\<close>)

lemma blank_tables_hold:
  "flash_simple_read SECURE_BLOB_STORE_FAT_ADDR 1024 fl = replicate 1024 0xFF \<Longrightarrow> fat_pg.holds (replicate 8 fat_erased) fl"
  "flash_simple_read BLOB_NAME_TABLE_ADDR 1024 fl = replicate 1024 0xFF \<Longrightarrow> name_pg.holds ref_names fl"
proof -
  have "fat_bytes fat_erased = replicate 24 0xFF" "name_bytes name_erased = replicate 64 0xFF"
    by (simp_all add: fat_erased_def name_erased_def fatc.enc_dec namec.enc_dec)
  then show "flash_simple_read SECURE_BLOB_STORE_FAT_ADDR 1024 fl = replicate 1024 0xFF \<Longrightarrow> fat_pg.holds (replicate 8 fat_erased) fl"
    "flash_simple_read BLOB_NAME_TABLE_ADDR 1024 fl = replicate 1024 0xFF \<Longrightarrow> name_pg.holds ref_names fl"
    by (simp_all add: fat_pg.holds_def name_pg.holds_def fat_ok_def names_ok_def fat_image_def name_page_eq ref_names_def
        concat_replicate_replicate flip: replicate_add)
qed

definition factory_hsm :: "flash_dev \<Rightarrow> hsm" where
  "factory_hsm fl = (power_on fl ref_trng (ref_line []))\<lparr>h_pin := pin_state_reset\<lparr>g_pin_hash := replicate 32 0xFF, g_initialized := True\<rparr>,
     h_blob := blob_reset\<lparr>g_fat := replicate 8 fat_erased\<rparr>, h_names := ref_names\<rparr>"

lemma factory_represents:
  assumes "factory_flash fl"
  shows "represents P (factory_hsm fl) \<lparr>v_pin = replicate 32 0xFF, v_files = (\<lambda>_. None)\<rparr>"
proof -
  note r = factory_read [OF assms]
  have n: "names_ok ref_names" by (simp add: names_ok_def ref_names_def)
  have f: "fat_ok (replicate 8 fat_erased)" by (simp add: fat_ok_def)
  have "flash_simple_read SECURE_BLOB_STORE_FAT_ADDR 1024 fl = replicate 1024 0xFF" "flash_simple_read BLOB_NAME_TABLE_ADDR 1024 fl = replicate 1024 0xFF"
    using r by (simp_all add: SECURE_BLOB_STORE_FAT_ADDR_def BLOB_NAME_TABLE_ADDR_def)
  then have "fat_pg.holds (replicate 8 fat_erased) fl" "name_pg.holds ref_names fl" by (simp_all add: blank_tables_hold)
  then have "tables_synced (factory_hsm fl)" by (simp add: tables_synced_def factory_hsm_def power_on_def)
  moreover have "fst (pin_load fl) = replicate 32 0xFF"
    using r [of PIN_STATE_FLASH_ADDR 1024] by (simp add: pin_load_def load_pin_state_def Let_def PIN_STATE_FLASH_ADDR_def segment_def)
  then have "pin_kept (factory_hsm fl)" by (simp add: pin_kept_def factory_hsm_def power_on_def)
  moreover have "\<not> occupied slot (factory_hsm fl)" for slot
    by (cases "unat slot < 8") (simp_all add: occupied_def slot_occupied_iff factory_hsm_def ref_names_def valid_slot NAME_IN_USE_TAG_def)
  moreover have "hsm_ok (factory_hsm fl)"
    using n f reset_state by (simp add: hsm_ok_def factory_hsm_def power_on_def pin_ok_def blob_ok_def)
  ultimately show ?thesis by (simp add: represents_def) (simp add: factory_hsm_def)
qed

lemma first_boot:
  assumes "platform_good P" "6 \<le> length (provisioned_pin P)" "factory_flash fl" "boot dbg P fl tr u = Some d"
  shows "represents P (d_hsm d) (new_vault P)"
  using boot_represents [OF assms(1,2) factory_represents [OF assms(3)]] assms(4)
  by (simp add: factory_hsm_def power_on_def spec_reset_def new_vault_def)

section \<open>The life of a device\<close>

definition lives :: "platform \<Rightarrow> device \<Rightarrow> vault \<Rightarrow> bool" where
  "lives P d v \<longleftrightarrow> platform_good P \<and> 6 \<le> length (provisioned_pin P) \<and> represents P (d_hsm d) v"

lemma device_event_matched:
  assumes P: "platform_good P" "6 \<le> length (provisioned_pin P)" and h: "represents P (d_hsm d) v" and s: "device_event dbg P d e d'"
  shows "represents P (d_hsm d') (vault_next dbg P e v)"
proof (rule device_eventE [OF s])
  have i: "lives_in P v (d_hsm d)" using P(1) h by (simp add: lives_in_def)
  show ?thesis if "round_event dbg P d e d'"
    using vault.round_follows [OF i that] by (simp add: lives_in_def)
  show ?thesis if "e = Reset" "boot dbg P (h_flash (d_hsm d)) tr u = Some d'" for tr u
    using boot_represents [OF P h that(2)] that(1) by simp
  show ?thesis if "e = NewInput" "d' = d\<lparr>d_hsm := with_input rx ps (d_hsm d)\<rparr>" for rx ps
    using represents_trng [OF represents_uart [OF h]] that by (simp add: with_input_def)
qed

interpretation life: simulation "device_event dbg P" "vault_next dbg P" "lives P" for dbg P
proof
  fix d v e d' assume "lives P d v" "device_event dbg P d e d'"
  with device_event_matched [of P d v dbg e d'] show "lives P d' (vault_next dbg P e v)" by (simp add: lives_def)
qed

lemma lives_at_boot:
  assumes "platform_good P" "6 \<le> length (provisioned_pin P)" "factory_flash fl" "boot dbg P fl tr u = Some d"
  shows "lives P d (new_vault P)"
  using assms first_boot [OF assms] by (simp add: lives_def)

text \<open>What no release build can change.\<close>

definition release_vault :: "platform \<Rightarrow> vault \<Rightarrow> bool" where
  "release_vault P v \<longleftrightarrow> v_pin v = pin_hash P (provisioned_pin P) \<and>
     (\<forall>slot f. v_files v slot = Some f \<longrightarrow> sf_owner f = v_pin v \<and>
        (validate_permission P (sf_group f) PERM_WRITE \<or> validate_permission P (sf_group f) PERM_RECEIVE))"

lemma release_put:
  "release_vault P v \<Longrightarrow> sf_owner f = v_pin v \<Longrightarrow>
   validate_permission P (sf_group f) PERM_WRITE \<or> validate_permission P (sf_group f) PERM_RECEIVE \<Longrightarrow>
   release_vault P (put_file slot f v)"
  by (auto simp: release_vault_def put_file_def)

lemma release_vault_next:
  assumes "release_vault P v"
  shows "release_vault P (vault_next False P e v)"
proof (cases e)
  case (Command cmd pkt hrd tld)
  let ?cmd = "un_write_command pkt"
  have "release_vault P (put_file (wc_slot ?cmd) (written_file P ?cmd) v)"
    if "opens P (wc_pin ?cmd) v" "validate_permission P (wc_group_id ?cmd) PERM_WRITE"
    using that by (intro release_put [OF assms]) (simp_all add: written_file_def opens_def)
  then have w: "release_vault P (snd (spec_write P pkt v))" using assms by (auto simp: spec_write_def Let_def)
  have "release_vault P (put_file (pkt ! 7) (imported_file P pkt resp) v)" if "opens P (segment 0 6 pkt) v" "importable P resp" for resp
    using that by (intro release_put [OF assms]) (simp_all add: imported_file_def importable_def opens_def Let_def)
  then have "release_vault P (spec_receive P pkt hrd tld v)" using assms by (auto simp: spec_receive_def split: option.split)
  with w assms show ?thesis by (simp add: Command)
next
  case Reset
  with assms show ?thesis by (auto simp: release_vault_def spec_reset_def)
qed (use assms in simp_all)

lemma release_run:
  assumes "platform_good P" "6 \<le> length (provisioned_pin P)" "factory_flash fl" "boot False P fl tr u = Some d0"
    and "(device_step False P)\<^sup>*\<^sup>* d0 d"
  obtains v where "represents P (d_hsm d) v" "release_vault P v"
proof -
  obtain es where "logged (device_event False P) d0 es d" using logged_run [OF assms(5)] step_observed by metis
  from life.run_matched [OF this lives_at_boot [OF assms(1-4)]]
  have "represents P (d_hsm d) (fold (vault_next False P) es (new_vault P))" by (simp add: lives_def)
  moreover have "release_vault P (new_vault P)" by (simp add: release_vault_def new_vault_def)
  then have "release_vault P (fold (vault_next False P) es (new_vault P))"
    by (rule fold_invariant [where I = "release_vault P"]) (rule release_vault_next)
  ultimately show thesis by (rule that)
qed

section \<open>A packet from the host\<close>

lemma control_read:
  assumes "length pkt < 65536"
    and "delivers (uart_frame_timeout_ms CONTROL_INTERFACE) (uart_rx u 0) (msg_header cmd (of_nat (length pkt)) @ pkt) rest"
  shows "read_packet CONTROL_INTERFACE 0 u =
    Some (\<lparr>pk_status = MSG_OK, pk_cmd = Some cmd, pk_len = of_nat (length pkt), pk_data = pkt\<rparr>,
          add_tx 0 (concat (replicate (frame_blocks (length pkt)) ack_frame)) (set_rx 0 rest u))"
proof -
  let ?ms = "uart_frame_timeout_ms CONTROL_INTERFACE"
  have "delivers ?ms (uart_rx u 0) (([] @ [MSG_MAGIC]) @ [cmd] @ le16 (of_nat (length pkt)) @ pkt) rest"
    using assms(2) by (simp add: msg_header_def)
  then obtain ps where d: "delivers ?ms (uart_rx u 0) ([] @ [MSG_MAGIC]) ps"
    "delivers ?ms ps ([cmd] @ le16 (of_nat (length pkt)) @ pkt) rest"
    unfolding delivers_append [of _ _ "[] @ [MSG_MAGIC]"] by blast
  have d1: "delivers ?ms (uart_rx u (get_uart_handle CONTROL_INTERFACE)) ([] @ [MSG_MAGIC]) ps" using d(1) by simp
  from read_frame_ok [OF d1 _ d(2) assms(1), of 0] show ?thesis
    by (simp add: read_packet_def Let_def)
qed

lemma loop_round_packet:
  assumes "length pkt < 65536"
    and "delivers (uart_frame_timeout_ms CONTROL_INTERFACE) (uart_rx (h_uart (d_hsm d)) 0) (msg_header cmd (of_nat (length pkt)) @ pkt) rest"
  shows "\<exists>m. loop_round dbg P d =
    (if MAX_MSG_SIZE < length pkt then Overrun
     else case dispatch dbg P cmd pkt ((d_hsm d)\<lparr>h_uart := add_tx 0 (m @ concat (replicate (frame_blocks (length pkt)) ack_frame))
                 (set_rx 0 rest (h_uart (d_hsm d)))\<rparr>) of
            None \<Rightarrow> Waits | Some h \<Rightarrow> Next (d\<lparr>d_hsm := h\<rparr>)) \<and> (\<not> dbg \<longrightarrow> m = [])"
proof -
  let ?m = "if dbg then msg_header DEBUG_MSG (of_nat (length (c_line ''Ready''))) @ c_line ''Ready'' else []"
  let ?u = "add_tx 0 ?m (h_uart (d_hsm d))"
  have p: "print_debug dbg (c_line ''Ready'') (d_hsm d) = Some ((d_hsm d)\<lparr>h_uart := ?u\<rparr>)" by (simp add: print_debug_quiet)
  have "delivers (uart_frame_timeout_ms CONTROL_INTERFACE) (uart_rx ?u 0) (msg_header cmd (of_nat (length pkt)) @ pkt) rest"
    using assms(2) by simp
  from control_read [OF assms(1) this] p show ?thesis
    by (intro exI [of _ ?m]) (simp add: loop_round_def)
qed

section \<open>A boot that returns\<close>

lemma fill_two_words: "trng_fill 8 [] (TrngReady a # TrngReady b # ps) = Some (trng_word_bytes a @ trng_word_bytes b, ps)"
  by (subst trng_fill.simps, simp add: TRNG_POLL_LIMIT_def, subst trng_fill.simps, simp add: TRNG_POLL_LIMIT_def,
      subst trng_fill.simps, simp)

lemma trng_init_polls [simp]: "trng_polls (trng_init s) = trng_polls s"
  by (simp add: trng_init_def Let_def split: prod.split)

lemma init_total: "\<exists>d. init P h = Some d \<and> trng_polls (h_trng (d_hsm d)) = trng_polls (h_trng h)"
  by (auto simp: init_def init_commands_def print_error_eq Let_def split: prod.split)

lemma boot_returns:
  assumes "trng_polls tr = TrngReady a # TrngReady b # TrngReady c # TrngReady e # ps"
  shows "\<exists>d. boot False P fl tr u = Some d"
proof -
  obtain d where d: "init P (power_on fl tr u) = Some d" "trng_polls (h_trng (d_hsm d)) = trng_polls tr"
    using init_total [of P "power_on fl tr u"] by (auto simp: power_on_def)
  have "\<exists>h. self_test False (d_hsm d) = Some h"
    using d(2) assms by (simp add: self_test_def trng_read_bytes_def fill_two_words print_debug_def print_hex_debug_def print_error_eq Let_def)
  with d(1) show ?thesis by (auto simp: boot_def print_debug_def)
qed

definition ref_boot_trng :: trng_dev where
  "ref_boot_trng = \<lparr>trng_polls = [TrngReady 1, TrngReady 2, TrngReady 3, TrngReady 4], trng_power = [True, True],
     trng_powered = False, trng_configured = False\<rparr>"

lemma ref_boot:
  obtains d where "boot False ref_platform ref_flash_dev ref_boot_trng (ref_line []) = Some d"
  using boot_returns [of ref_boot_trng 1 2 3 4 "[]" ref_platform ref_flash_dev "ref_line []"] that by (auto simp: ref_boot_trng_def)

lemma ref_factory: "factory_flash ref_flash_dev"
  by (simp add: factory_flash_def ref_flash_dev_def)

lemma ref_provisioned: "6 \<le> length (provisioned_pin ref_platform)"
  by (simp add: provisioned_pin_def ref_platform_def PIN_MAX_LEN_def)

section \<open>A life with a write in it\<close>

lemma write_round:
  assumes P: "platform_good P" and h: "represents P (d_hsm d) v" and c: "c = un_write_command pkt"
    and len: "WRITE_CMD_MIN_LEN + unat (wc_contents_len c) \<le> length pkt" "length pkt \<le> WRITE_COMMAND_SIZE"
    and ok: "opens P (wc_pin c) v" "validate_permission P (wc_group_id c) PERM_WRITE" "slot_is_valid (wc_slot c)"
      "3 \<le> length (trng_words (trng_polls (h_trng (d_hsm d))))"
    and line: "delivers (uart_frame_timeout_ms CONTROL_INTERFACE) (uart_rx (h_uart (d_hsm d)) 0)
      ((msg_header WRITE_MSG (of_nat (length pkt)) @ pkt) @ ack_frame) rest"
  shows "\<exists>hrd tld d'. round_event False P d (Command WRITE_MSG pkt hrd tld) d'"
proof -
  have short: "length pkt < 65536" "\<not> MAX_MSG_SIZE < length pkt"
    using len(2) by (simp_all add: MAX_MSG_SIZE_def WRITE_COMMAND_SIZE_def MAX_CONTENTS_SIZE_def)
  from line obtain ps where ps: "delivers (uart_frame_timeout_ms CONTROL_INTERFACE) (uart_rx (h_uart (d_hsm d)) 0)
      (msg_header WRITE_MSG (of_nat (length pkt)) @ pkt) ps" "delivers (uart_frame_timeout_ms CONTROL_INTERFACE) ps ack_frame rest"
    unfolding delivers_append [of _ _ "msg_header WRITE_MSG (of_nat (length pkt)) @ pkt"] by blast
  let ?h = "(d_hsm d)\<lparr>h_uart := add_tx 0 (concat (replicate (frame_blocks (length pkt)) ack_frame)) (set_rx 0 ps (h_uart (d_hsm d)))\<rparr>"
  have "delivers (uart_frame_timeout_ms CONTROL_INTERFACE) (uart_rx (h_uart ?h) 0) ack_frame rest" using ps(2) by simp
  from write_goes_through [OF P represents_uart [OF h] c len ok(1-3) _ this] ok(4) obtain h' where
    "write_cmd P pkt ?h = Some (0, h')" by auto
  with loop_round_packet [OF short(1) ps(1), of False P] short(2)
  have n: "loop_round False P d = Next (d\<lparr>d_hsm := h'\<rparr>)" by (auto simp: dispatch_def)
  show ?thesis
    using served [OF _ control_read [OF short(1) ps(1)] _ n] by (auto simp: print_debug_def)
qed

text \<open>On the reference platform: boot, a packet comes in, the file is written.\<close>

lemma ref_new_opens: "opens ref_platform [49, 50, 51, 52, 53, 54] (new_vault ref_platform)"
  by (simp add: opens_def new_vault_def provisioned_pin_def) (simp add: ref_platform_def PIN_MAX_LEN_def)

lemma ref_write_log:
  obtains d0 hrd tld d where "boot False ref_platform ref_flash_dev ref_boot_trng (ref_line []) = Some d0"
    and "logged (device_event False ref_platform) d0 [NewInput, Command WRITE_MSG ref_write_pkt hrd tld] d"
proof -
  let ?P = ref_platform and ?pkt = ref_write_pkt
  let ?bs = "(msg_header WRITE_MSG (of_nat (length ?pkt)) @ ?pkt) @ ack_frame"
  obtain d0 where b: "boot False ?P ref_flash_dev ref_boot_trng (ref_line []) = Some d0" by (rule ref_boot)
  let ?d = "d0\<lparr>d_hsm := with_input (\<lambda>_. map Some ?bs) [TrngReady 1, TrngReady 2, TrngReady 3] (d_hsm d0)\<rparr>"
  have "represents ?P (d_hsm d0) (new_vault ?P)" by (rule first_boot [OF ref_platform_good ref_provisioned ref_factory b])
  then have h: "represents ?P (d_hsm ?d) (new_vault ?P)" by (simp add: with_input_def represents_uart represents_trng)
  have "delivers (uart_frame_timeout_ms CONTROL_INTERFACE) (uart_rx (h_uart (d_hsm ?d)) 0) ?bs []"
    using ref_acks [of ?bs] by (simp add: with_input_def ref_hsm_def ref_line_def)
  from write_round [OF ref_platform_good h refl _ _ _ _ _ _ this] obtain hrd tld d where
    e: "round_event False ?P ?d (Command WRITE_MSG ?pkt hrd tld) d"
    by (auto simp: ref_write_parts ref_new_opens ref_permitted ref_slot_2 WRITE_CMD_MIN_LEN_def WRITE_COMMAND_SIZE_def
        MAX_CONTENTS_SIZE_def with_input_def)
  have "logged (device_event False ?P) d0 ([] @ [NewInput]) ?d" by (rule log_event) (rule log_start, rule ev_input)
  from log_event [where step = "device_event False ?P", OF this ev_round [OF e]] b show thesis by (intro that) simp_all
qed

lemma ref_write_vault:
  "fold (vault_next False ref_platform) [NewInput, Command WRITE_MSG ref_write_pkt hrd tld] (new_vault ref_platform)
     = put_file 2 ref_file (new_vault ref_platform)"
  using ref_written by (simp add: spec_write_def ref_write_parts ref_new_opens ref_permitted ref_slot_2)

end
