(* ===== verification/Torn.thy ===== *)
theory Torn
  imports Names Pin
begin

text \<open>
  Updates that stop half way. On a flash whose failing commands change nothing (\<open>flash_clean\<close>),
  whether they fail for a moment or because the power is gone, a page that is rewritten holds
  its old bytes, or a beginning of the new ones, cut between two commands of 64 bytes, and
  erased bytes behind it. So an entry of the file table or the name table is the old one, the
  new one or an empty one; the PIN page holds a whole hash or none; and a slot whose write
  stopped never reads as anything but the file that was being written.
\<close>

section \<open>Commands that fail without an effect\<close>

definition flash_clean :: "platform \<Rightarrow> bool" where
  "flash_clean P \<longleftrightarrow>
     (\<forall>t mem addr. fst (dl_erase P t mem addr) \<and> dl_wait P t \<or> snd (dl_erase P t mem addr) = mem) \<and>
     (\<forall>t mem addr data. fst (dl_program P t mem addr data) \<and> dl_wait P t \<or> snd (dl_program P t mem addr data) = mem)"

lemma flash_cleanD:
  assumes "flash_clean P"
  shows "dl_erase P t mem addr = (ok, mem') \<Longrightarrow> \<not> (ok \<and> dl_wait P t) \<Longrightarrow> mem' = mem"
    and "dl_program P t mem addr data = (ok, mem') \<Longrightarrow> \<not> (ok \<and> dl_wait P t) \<Longrightarrow> mem' = mem"
  using assms unfolding flash_clean_def by (metis fst_conv snd_conv)+

lemma reliable_clean: "flash_reliable P \<Longrightarrow> flash_clean P"
  by (simp add: flash_clean_def flash_reliable_def)

lemma clean_erase:
  "flash_clean P \<Longrightarrow> flash_simple_erase_page P addr fl = (rc, fl') \<Longrightarrow> rc \<noteq> 0 \<Longrightarrow> flash_mem fl' = flash_mem fl"
  using flash_cleanD(1) [of P "flash_tick fl" "flash_mem fl" addr]
  by (auto simp: flash_simple_erase_page_def Let_def split: prod.splits if_splits)

text \<open>One command that succeeds, and what is left to write.\<close>

lemma write_chunk:
  assumes P: "flash_ok P" and p: "p \<noteq> []"
    and d: "dl_program P (flash_tick fl) (flash_mem fl) addr (program_data (take 64 p)) = (True, mem)" "dl_wait P (flash_tick fl)"
    and blank: "\<forall>a. in_range addr (pad8 (length (take 64 p))) a \<longrightarrow> flash_mem fl a = 0xFF"
  obtains fl1 where "flash_write_loop P addr p fl = flash_write_loop P (addr + length (take 64 p)) (drop 64 p) fl1"
    and "\<And>i. i < length (take 64 p) \<Longrightarrow> flash_mem fl1 (addr + i) = p ! i"
    and "\<And>a. \<not> in_range addr (pad8 (length (take 64 p))) a \<Longrightarrow> flash_mem fl1 a = flash_mem fl a"
proof -
  let ?fl = "fl\<lparr>flash_mem := mem, flash_tick := Suc (flash_tick fl)\<rparr>" and ?n = "length (take 64 p)"
  have len: "length (program_data (take 64 p)) = pad8 ?n" by (rule length_program_data) simp
  have "flash_write_loop P addr p fl = flash_write_loop P (addr + ?n) (drop 64 p) ?fl"
    using p d by (subst flash_write_loop.simps) (simp add: Let_def)
  moreover have "flash_mem ?fl (addr + i) = p ! i" if "i < ?n" for i
  proof -
    have "i < pad8 ?n" using that pad8_ge [of ?n] by (rule less_le_trans)
    then show ?thesis
      using flash_ok_programD [OF P d(1)] d(2) blank len program_data_nth [of "take 64 p" i] that by simp
  qed
  moreover have "flash_mem ?fl a = flash_mem fl a" if "\<not> in_range addr (pad8 ?n) a" for a
    using flash_ok_programD [OF P d(1)] len that by simp
  ultimately show thesis by (rule that)
qed

text \<open>
  A write that stops leaves a beginning of the data, a multiple of 64 bytes, in blank flash.
\<close>

lemma clean_write_prefix:
  assumes P: "flash_ok P" "flash_clean P"
  shows "flash_write_loop P addr p fl = (rc, fl') \<Longrightarrow>
    \<forall>a. in_range addr (pad8 (length p)) a \<longrightarrow> flash_mem fl a = 0xFF \<Longrightarrow>
    \<exists>m. \<forall>i < length p. flash_mem fl' (addr + i) = (if i < 64 * m then p ! i else 0xFF)"
proof (induction "length p" arbitrary: addr p fl rule: less_induct)
  case less
  let ?n = "length (take 64 p)"
  obtain ok mem where m: "dl_program P (flash_tick fl) (flash_mem fl) addr (program_data (take 64 p)) = (ok, mem)" by fastforce
  consider "p = []" | "p \<noteq> []" "\<not> (ok \<and> dl_wait P (flash_tick fl))" | "p \<noteq> []" "ok" "dl_wait P (flash_tick fl)" by blast
  then show ?case
  proof cases
    case 2
    then have "flash_mem fl' = mem"
      using less.prems(1) m by (subst (asm) flash_write_loop.simps) (auto simp: Let_def split: if_splits)
    also have "\<dots> = flash_mem fl" by (rule flash_cleanD(2) [OF P(2) m 2(2)])
    finally show ?thesis
      using less.prems(2) pad8_ge [of "length p"] by (intro exI [of _ 0]) (simp add: in_range_def)
  next
    case 3
    have sub: "pad8 ?n \<le> pad8 (length p)" by (rule pad8_mono) simp
    then have blank: "\<forall>a. in_range addr (pad8 ?n) a \<longrightarrow> flash_mem fl a = 0xFF"
      using less.prems(2) by (simp add: in_range_def)
    have ok: "dl_program P (flash_tick fl) (flash_mem fl) addr (program_data (take 64 p)) = (True, mem)" using m 3(2) by simp
    obtain fl1 where 1: "flash_write_loop P addr p fl = flash_write_loop P (addr + ?n) (drop 64 p) fl1"
      "\<And>i. i < ?n \<Longrightarrow> flash_mem fl1 (addr + i) = p ! i"
      "\<And>a. \<not> in_range addr (pad8 ?n) a \<Longrightarrow> flash_mem fl1 a = flash_mem fl a"
      using write_chunk [OF P(1) 3(1) ok 3(3) blank] by blast
    note go = less.prems(1) [unfolded 1(1)]
    show ?thesis
    proof (cases "length p \<le> 64")
      case True
      with go have "fl' = fl1" by (simp add: flash_write_loop.simps)
      with True 1(2) show ?thesis by (intro exI [of _ 1]) auto
    next
      case False
      then have n: "?n = 64" "pad8 ?n = 64" "pad8 (length p) = 64 + pad8 (length (drop 64 p))"
        using pad8_rest [OF 3(1)] by (simp_all add: pad8_def)
      have "\<forall>a. in_range (addr + 64) (pad8 (length (drop 64 p))) a \<longrightarrow> flash_mem fl1 a = 0xFF"
        using less.prems(2) 1(3) n by (simp add: in_range_def)
      from less.hyps [OF _ go [unfolded n(1)] this] False
      have "\<exists>k. \<forall>i < length p - 64. flash_mem fl' (addr + 64 + i) = (if i < 64 * k then drop 64 p ! i else 0xFF)" by simp
      then obtain k where
        k: "\<forall>i < length p - 64. flash_mem fl' (addr + 64 + i) = (if i < 64 * k then drop 64 p ! i else 0xFF)" ..
      have "flash_mem fl' (addr + i) = (if i < 64 * Suc k then p ! i else 0xFF)" if i: "i < length p" for i
      proof (cases "i < 64")
        case True
        with write_loop_frame [OF P(1) go, of "addr + i"] 1(2) n(1) show ?thesis by (simp add: in_range_def)
      next
        case False
        then obtain j where j: "i = 64 + j" by (metis le_add_diff_inverse linorder_not_less)
        with i k [rule_format, of j] show ?thesis by (simp add: add.assoc)
      qed
      then show ?thesis by blast
    qed
  qed simp
qed

text \<open>Erasing a page and writing an image to it.\<close>

lemma clean_rewrite:
  assumes P: "flash_ok P" "flash_clean P" and base: "base mod 1024 = 0" and p: "length p = 1024"
    and e: "flash_simple_erase_page P base fl = (0, fl1)" and w: "flash_simple_write P base p fl1 = (rc, fl')"
  shows "\<exists>m. \<forall>i < 1024. flash_mem fl' (base + i) = (if i < 64 * m then p ! i else 0xFF)"
proof -
  have "\<forall>a. in_range base (pad8 (length p)) a \<longrightarrow> flash_mem fl1 a = 0xFF"
    using erase_blank [OF P(1) e] p by (simp add: pad8_def in_sector [OF base])
  from clean_write_prefix [OF P w [unfolded flash_simple_write_def] this] p show ?thesis by simp
qed

section \<open>The file table\<close>

lemma read_fat_nth: "k < 8 \<Longrightarrow> read_fat fl ! k = un_fat (flash_simple_read (SECURE_BLOB_STORE_FAT_ADDR + k * 24) 24 fl)"
  using read_segment [of "k * 24" 24 192 SECURE_BLOB_STORE_FAT_ADDR fl]
  by (simp add: read_fat_def SECURE_BLOB_STORE_MAX_SLOTS_def)

lemma read_fat_ok: "fat_ok (read_fat fl)"
  by (auto simp: read_fat_def Let_def fat_ok_def un_fat_def SECURE_BLOB_STORE_MAX_SLOTS_def)

lemma fat_image_segment: "fat_ok fat \<Longrightarrow> k < 8 \<Longrightarrow> segment (k * 24) 24 (fat_image fat) = fat_bytes (fat ! k)"
  by (simp add: fat_image_def fat_ok_def fatc.segment_enc_all)

lemma erased_address:
  assumes "\<And>i. 20 \<le> i \<Longrightarrow> i < 24 \<Longrightarrow> flash_mem fl (a + i) = 0xFF"
  shows "fat_flash_addr (un_fat (flash_simple_read a 24 fl)) = SECURE_BLOB_EMPTY_U32"
proof -
  have "segment 20 4 (flash_simple_read a 24 fl) = replicate 4 0xFF"
    by (rule nth_equalityI) (auto simp: segment_nth read_nth assms)
  then show ?thesis by (simp add: un_fat_def un_le32_def SECURE_BLOB_EMPTY_U32_def)
qed

lemma prefix_entry:
  assumes fat: "fat_ok fat" and k: "k < 8"
    and m: "\<forall>i < 1024. flash_mem fl (SECURE_BLOB_STORE_FAT_ADDR + i) = (if i < 64 * m then fat_image fat ! i else 0xFF)"
  shows "read_fat fl ! k = fat ! k \<or> fat_flash_addr (read_fat fl ! k) = SECURE_BLOB_EMPTY_U32"
proof (cases "k * 24 + 24 \<le> 64 * m")
  case True
  have "flash_simple_read (SECURE_BLOB_STORE_FAT_ADDR + k * 24) 24 fl = segment (k * 24) 24 (fat_image fat)"
  proof (rule read_eqI)
    fix i :: nat assume "i < 24"
    with True k m [rule_format, of "k * 24 + i"] length_fat_image [OF fat]
    show "flash_mem fl (SECURE_BLOB_STORE_FAT_ADDR + k * 24 + i) = segment (k * 24) 24 (fat_image fat) ! i"
      by (simp add: segment_nth add.assoc)
  qed (use k length_fat_image [OF fat] in simp)
  with fat_image_segment [OF fat k] fat k show ?thesis
    by (simp add: read_fat_nth fatc.dec_enc_bare fat_ok_def)
next
  case False
  then have "64 * m \<le> k * 24 + 16" by presburger
  with k m have "flash_mem fl (SECURE_BLOB_STORE_FAT_ADDR + k * 24 + i) = 0xFF" if "20 \<le> i" "i < 24" for i
    using that m [rule_format, of "k * 24 + i"] by (simp add: add.assoc)
  with erased_address k show ?thesis by (simp add: read_fat_nth)
qed

lemma read_fat_cong:
  assumes "\<And>a. sector_of SECURE_BLOB_STORE_FAT_ADDR a \<Longrightarrow> flash_mem fl' a = flash_mem fl a"
  shows "read_fat fl' = read_fat fl"
proof -
  have "flash_simple_read SECURE_BLOB_STORE_FAT_ADDR 192 fl' = flash_simple_read SECURE_BLOB_STORE_FAT_ADDR 192 fl"
    by (intro read_cong assms) (simp add: in_sector in_range_def)
  then show ?thesis by (simp add: read_fat_def SECURE_BLOB_STORE_MAX_SLOTS_def)
qed

lemma clean_fat_flush:
  assumes P: "flash_ok P" "flash_clean P" and fat: "fat_ok fat" and f: "fat_flush P fat fl = (rc, fl')" and k: "k < 8"
  shows "read_fat fl' ! k = read_fat fl ! k \<or> read_fat fl' ! k = fat ! k \<or>
    fat_flash_addr (read_fat fl' ! k) = SECURE_BLOB_EMPTY_U32"
  using f
proof (cases rule: fat_flush_cases)
  case 1
  then show ?thesis using clean_erase [OF P(2) 1(2)] read_fat_cong [of fl' fl] by simp
next
  case (2 fl1)
  from clean_rewrite [OF P fat_addr(1) length_fat_image [OF fat] 2] prefix_entry [OF fat k] show ?thesis by blast
qed

section \<open>The name table\<close>

lemma load_names_nth: "k < 8 \<Longrightarrow> load_name_table fl ! k = un_name (flash_simple_read (BLOB_NAME_TABLE_ADDR + k * 64) 64 fl)"
  using read_segment [of "k * 64" 64 512 BLOB_NAME_TABLE_ADDR fl]
  by (simp add: load_name_table_def SECURE_BLOB_STORE_MAX_SLOTS_def NAME_ENTRY_SIZE_def)

lemma load_names_ok: "names_ok (load_name_table fl)"
  by (auto simp: load_name_table_def Let_def names_ok_def name_ok_def un_name_def SECURE_BLOB_STORE_MAX_SLOTS_def NAME_ENTRY_SIZE_def)

lemma load_names_cong:
  assumes "\<And>a. sector_of BLOB_NAME_TABLE_ADDR a \<Longrightarrow> flash_mem fl' a = flash_mem fl a"
  shows "load_name_table fl' = load_name_table fl"
proof -
  have "flash_simple_read BLOB_NAME_TABLE_ADDR 512 fl' = flash_simple_read BLOB_NAME_TABLE_ADDR 512 fl"
    by (intro read_cong assms) (simp add: in_sector in_range_def)
  then show ?thesis by (simp add: load_name_table_def SECURE_BLOB_STORE_MAX_SLOTS_def NAME_ENTRY_SIZE_def)
qed

lemma prefix_name:
  assumes n: "names_ok names" and k: "k < 8"
    and m: "\<forall>i < 1024. flash_mem fl (BLOB_NAME_TABLE_ADDR + i) = (if i < 64 * m then name_page names ! i else 0xFF)"
  shows "load_name_table fl ! k = names ! k \<or> load_name_table fl ! k = name_erased"
proof (cases "k < m")
  case True
  have "flash_simple_read (BLOB_NAME_TABLE_ADDR + k * 64) 64 fl = segment (k * 64) 64 (name_page names)"
  proof (rule read_eqI)
    fix i :: nat assume "i < 64"
    with True k m [rule_format, of "k * 64 + i"] length_name_page [OF n]
    show "flash_mem fl (BLOB_NAME_TABLE_ADDR + k * 64 + i) = segment (k * 64) 64 (name_page names) ! i"
      by (simp add: segment_nth add.assoc)
  qed (use k length_name_page [OF n] in simp)
  also have "\<dots> = name_bytes (names ! k)"
    using n k by (simp add: name_page_eq names_ok_def namec.segment_enc_all)
  finally show ?thesis using n k by (simp add: load_names_nth namec.dec_enc_bare names_ok_def)
next
  case False
  have "flash_simple_read (BLOB_NAME_TABLE_ADDR + k * 64) 64 fl = replicate 64 0xFF"
  proof (rule read_eqI)
    fix i :: nat assume "i < 64"
    with False k m [rule_format, of "k * 64 + i"]
    show "flash_mem fl (BLOB_NAME_TABLE_ADDR + k * 64 + i) = replicate 64 0xFF ! i" by (simp add: add.assoc)
  qed simp
  with k show ?thesis by (simp add: load_names_nth name_erased_def)
qed

lemma clean_name_flush:
  assumes P: "flash_ok P" "flash_clean P" and n: "names_ok names" and f: "flush_name_table P names fl = (rc, fl')" and k: "k < 8"
  shows "load_name_table fl' ! k \<in> {load_name_table fl ! k, names ! k, name_erased}"
  using f
proof (cases rule: flush_name_cases)
  case 1
  then show ?thesis using clean_erase [OF P(2) 1(2)] load_names_cong [of fl' fl] by simp
next
  case (2 fl1 rc1)
  from clean_rewrite [OF P name_addr(1) length_name_page [OF n] 2(1,2)] prefix_name [OF n k] show ?thesis by blast
qed

section \<open>The PIN page\<close>

text \<open>The hash is in the first command's bytes: it is never cut.\<close>

lemma clean_pin_flush:
  assumes P: "flash_ok P" "flash_clean P" and x: "length (fst x) = 32" and f: "pin_flush P x fl = (rc, fl')"
  shows "fst (pin_load fl') \<in> {fst (pin_load fl), fst x, replicate 32 0xFF}"
  using f unfolding pin_flush_def
proof (cases rule: write_pin_state_cases)
  case 1
  then have "flash_simple_read PIN_STATE_FLASH_ADDR 1024 fl' = flash_simple_read PIN_STATE_FLASH_ADDR 1024 fl"
    using clean_erase [OF P(2) 1(2)] by (intro read_cong) simp
  then show ?thesis by (simp add: pin_load_def load_pin_state_def)
next
  case (2 fl1 rc1)
  have page: "pin_page (fst x) (snd x) = fst x @ le32 (snd x) @ replicate 988 0xFF" by (rule pin_page_eq [OF x])
  have w: "flash_simple_write P PIN_STATE_FLASH_ADDR (pin_page (fst x) (snd x)) fl1 = (rc1, fl')" using 2(2) by simp
  obtain m where m: "\<forall>i < 1024. flash_mem fl' (PIN_STATE_FLASH_ADDR + i) = (if i < 64 * m then pin_page (fst x) (snd x) ! i else 0xFF)"
    using clean_rewrite [OF P pin_addr(1) _ 2(1) w] x by auto
  have "fst (pin_load fl') = segment 0 32 (flash_simple_read PIN_STATE_FLASH_ADDR 1024 fl')"
    by (simp add: pin_load_def load_pin_state_def Let_def)
  also have "\<dots> = flash_simple_read PIN_STATE_FLASH_ADDR 32 fl'" using read_segment [of 0 32 1024 PIN_STATE_FLASH_ADDR fl'] by simp
  also have "\<dots> = (if m = 0 then replicate 32 0xFF else fst x)"
    by (rule read_eqI) (use m x page in \<open>auto simp: nth_append\<close>)
  finally show ?thesis by simp
qed

section \<open>A slot\<close>

lemma clean_erase_slot:
  assumes P: "flash_ok P" "flash_clean P" and e: "erase_slot_pages P slot fl = (rc, fl')"
  shows "flash_mem fl' = flash_mem fl \<or> (\<forall>a. in_range (blob_slot_base slot) 96 a \<longrightarrow> flash_mem fl' a = 0xFF)"
proof -
  let ?base = "blob_slot_base slot"
  obtain rc1 fl1 where 1: "flash_simple_erase_page P ?base fl = (rc1, fl1)" by fastforce
  have r: "(if rc1 \<noteq> 0 then (SECURE_BLOB_STORE_IO_ERROR, fl1) else erase_pages P (?base + 1024) 11 fl1) = (rc, fl')"
  proof -
    have "erase_pages P ?base (Suc 11) fl = (rc, fl')"
      using e by (simp add: erase_slot_pages_def SECURE_BLOB_STORE_PAGE_SIZE_def del: erase_pages.simps)
    then show ?thesis unfolding erase_pages.simps 1 Let_def prod.case SECURE_BLOB_STORE_PAGE_SIZE_def .
  qed
  show ?thesis
  proof (cases "rc1 = 0")
    case True
    with r have "erase_pages P (?base + 1024) 11 fl1 = (rc, fl')" by simp
    moreover have "(?base + 1024) mod 1024 = 0" by simp
    ultimately have "flash_mem fl' a = flash_mem fl1 a" if "in_range ?base 96 a" for a
      using erase_pages_spec [OF P(1), of "?base + 1024" 11 fl1 rc fl'] that by (auto simp: in_range_def)
    moreover have "flash_mem fl1 a = 0xFF" if "in_range ?base 96 a" for a
      using erase_blank [OF P(1), of ?base fl fl1 a] 1 True that by (simp add: in_sector in_range_def)
    ultimately show ?thesis by simp
  next
    case False
    with r clean_erase [OF P(2) 1] show ?thesis by simp
  qed
qed

lemma blank_header: "\<forall>a. in_range (blob_slot_base slot) 96 a \<longrightarrow> flash_mem fl a = 0xFF \<Longrightarrow> \<not> blob_stored P fl slot h d"
proof
  assume b: "\<forall>a. in_range (blob_slot_base slot) 96 a \<longrightarrow> flash_mem fl a = 0xFF" and s: "blob_stored P fl slot h d"
  have "flash_simple_read (blob_slot_base slot) 96 fl = replicate 96 0xFF"
    by (rule read_eqI) (use b in \<open>auto simp: in_range_def\<close>)
  with s have "un_header (replicate 96 0xFF) = h" using hdrc.dec_enc_bare by (metis blob_stored_def)
  then have "hdr_magic h = un_le32 (segment 0 4 (replicate 96 0xFF))" by (auto simp: un_header_def)
  with s show False by (simp add: blob_stored_def un_le32_def SECURE_BLOB_MAGIC_def)
qed

text \<open>Under one key, nonce and additional data the slot's bytes are the encryption of one plaintext only.\<close>

lemma chunks_stored_unique:
  assumes P: "gcm_ok P" "length master = 32" "length nonce = 12"
  shows "chunks_stored P fl base master nonce aad idx (blob_chunks d) tags \<Longrightarrow>
    chunks_stored P fl base master nonce aad idx (blob_chunks d') tags' \<Longrightarrow> length d = length d' \<Longrightarrow> d = d'"
proof (induction "length d" arbitrary: d d' idx tags tags' rule: less_induct)
  case less
  show ?case
  proof (cases "d = []")
    case False
    with less.prems(3) have "d' \<noteq> []" by auto
    let ?ct = "flash_simple_read (base + 96 + 256 * idx) (length (take 256 d)) fl" and ?t = "flash_simple_read (base + 11776 + 16 * idx) 16 fl"
    obtain ts where 1: "secure_crypto_aes_gcm_encrypt P (chunk_key master idx) nonce aad (take 256 d) 16 = Some (?ct, ?t)"
      "chunks_stored P fl base master nonce aad (Suc idx) (blob_chunks (drop 256 d)) ts"
      using less.prems(1) False by (cases tags) (auto simp: blob_chunks.simps [of d])
    obtain ts' where 2: "secure_crypto_aes_gcm_encrypt P (chunk_key master idx) nonce aad (take 256 d') 16 = Some (?ct, ?t)"
      "chunks_stored P fl base master nonce aad (Suc idx) (blob_chunks (drop 256 d')) ts'"
      using less.prems(2,3) \<open>d' \<noteq> []\<close> by (cases tags') (auto simp: blob_chunks.simps [of d'])
    have iff: "secure_crypto_aes_gcm_decrypt P (chunk_key master idx) nonce aad ?ct ?t (length ?ct) = Inr pt \<longleftrightarrow>
        secure_crypto_aes_gcm_encrypt P (chunk_key master idx) nonce aad pt 16 = Some (?ct, ?t)" for pt
      using P by (intro gcm_wrap_iff) simp_all
    from 1(1) 2(1) have "take 256 d = take 256 d'" unfolding iff [symmetric] by simp
    moreover have "drop 256 d = drop 256 d'"
      by (rule less.hyps [OF _ 1(2) 2(2)]) (use False less.prems(3) in \<open>cases d; simp\<close>)+
    ultimately show ?thesis by (metis append_take_drop_id)
  qed (use less.prems(3) in simp)
qed

lemma header_fields:
  assumes h: "header_ok h" "header_ok h'" and e: "take 64 (header_bytes h) = take 64 (header_bytes h')"
  shows "build_aad h = build_aad h' \<and> hdr_plaintext_len h = hdr_plaintext_len h' \<and> hdr_group_mask h = hdr_group_mask h' \<and>
    hdr_owner_pin_hash h = hdr_owner_pin_hash h' \<and> hdr_nonce h = hdr_nonce h'"
proof -
  have t: "take 60 (header_bytes x) = build_aad x" if "header_ok x" for x
    using that by (simp add: header_bytes_def build_aad_def header_ok_def)
  from e have "take 60 (take 64 (header_bytes h)) = take 60 (take 64 (header_bytes h'))" by simp
  then have "take 60 (header_bytes h) = take 60 (header_bytes h')" by (simp only: take_take) simp
  then have "build_aad h = build_aad h'" using t [OF h(1)] t [OF h(2)] by simp
  with build_aad_inject [OF this] h show ?thesis by (simp add: header_ok_def)
qed

text \<open>
  Whatever stops the write of a slot, what can be read of it afterwards is what was there, if
  no command took effect, or the file being written, under its header.
\<close>

lemma torn_slot:
  assumes P: "flash_ok P" "flash_clean P" "gcm_ok P" and len: "length data \<le> 8192" and h: "header_ok h"
      "unat (hdr_plaintext_len h) = length data"
    and r: "blob_store_data P slot h (build_aad h) (file_key P (hdr_group_mask h)) data fl = (rc, fl')"
  shows "rc \<noteq> SECURE_BLOB_STORE_OK \<and> flash_mem fl' = flash_mem fl \<or> (\<forall>h' d. blob_stored P fl' slot h' d \<longrightarrow>
    d = data \<and> hdr_owner_pin_hash h' = hdr_owner_pin_hash h \<and> hdr_group_mask h' = hdr_group_mask h)"
proof -
  let ?key = "file_key P (hdr_group_mask h)" and ?base = "blob_slot_base slot"
  have nonce: "length (hdr_nonce h) = 12" using h(1) by (simp add: header_ok_def)
  obtain rc1 fl1 where e: "erase_slot_pages P slot fl = (rc1, fl1)" by fastforce
  obtain rc2 sha fl2 where l: "blob_write_loop P ?base ?key (hdr_nonce h) (build_aad h) 0 0 data
      (sha256_raw_ctx_init sha256_ctx_zero) fl1 = (rc2, sha, fl2)" by (metis prod_cases3)
  show ?thesis
  proof (cases "rc1 = SECURE_BLOB_STORE_OK")
    case False
    with r e have "fl' = fl1" "rc \<noteq> SECURE_BLOB_STORE_OK" by (auto simp: blob_store_data_def)
    with clean_erase_slot [OF P(1,2) e] blank_header [of slot fl1 P] show ?thesis by blast
  next
    case ok1: True
    have blank1: "\<forall>a. in_slot slot a \<longrightarrow> flash_mem fl1 a = 0xFF" using erase_slot_blank [OF P(1)] e ok1 by blast
    have blank2: "flash_mem fl2 a = 0xFF" if a: "in_range ?base 96 a" for a
    proof -
      have "\<not> chunk_area ?base 0 (length data) a" using a chunk_area_slot [OF len, of slot a] by (auto simp: in_range_def)
      from blob_write_loop_frame [OF P(1,3) nonce _ l this] a blank1 header_in_slot [of slot a] show ?thesis by simp
    qed
    show ?thesis
    proof (cases "rc2 = SECURE_BLOB_STORE_OK")
      case False
      with r e ok1 l have "fl' = fl2" by (simp add: blob_store_data_def)
      with blank2 blank_header [of slot fl2 P] show ?thesis by blast
    next
      case ok2: True
      have c: "\<forall>a. chunk_area ?base 0 (length data) a \<longrightarrow> flash_mem fl1 a = 0xFF" using blank1 chunk_area_slot [OF len] by blast
      have l2: "blob_write_loop P ?base ?key (hdr_nonce h) (build_aad h) 0 0 data (sha256_raw_ctx_init sha256_ctx_zero) fl1
        = (SECURE_BLOB_STORE_OK, sha, fl2)" using l ok2 by simp
      obtain tags where
        tags: "chunks_stored P fl2 ?base ?key (hdr_nonce h) (build_aad h) 0 (blob_chunks data) tags"
        using blob_write_loop_data [OF P(1,3) nonce _ _ c absorbed_init l2] len by (auto simp: sha256_ctx_zero_def)
      obtain dg cx where dg: "sha256_raw_ctx_final sha = (dg, cx)" by fastforce
      let ?h = "h\<lparr>hdr_blob_tag := hmac_spec ?key dg\<rparr>"
      have hk: "header_ok ?h" using h(1) by (simp add: header_ok_def)
      then have len96: "length (header_bytes ?h) = 96" by (rule length_header_bytes)
      obtain rc3 fl3 where w: "flash_simple_write P ?base (header_bytes ?h) fl2 = (rc3, fl3)" by fastforce
      with r e ok1 l ok2 dg have fl': "fl' = fl3"
        by (auto simp: blob_store_data_def Let_def secure_crypto_hmac_sha256_def hmac_sha256_raw_spec split: if_splits)
      have "\<forall>a. in_range ?base (pad8 (length (header_bytes ?h))) a \<longrightarrow> flash_mem fl2 a = 0xFF"
        using blank2 len96 by (simp add: pad8_def)
      from clean_write_prefix [OF P(1,2) w [unfolded flash_simple_write_def] this] len96 obtain m where
        m: "\<forall>i < 96. flash_mem fl3 (?base + i) = (if i < 64 * m then header_bytes ?h ! i else 0xFF)" by auto
      have keep: "flash_mem fl3 a = flash_mem fl2 a" if "chunk_area ?base 0 (length data) a" for a
        using chunk_area_slot [OF len that] by (intro write_frame [OF P(1) w]) (auto simp: len96 pad8_def in_range_def)
      have tags3: "chunks_stored P fl3 ?base ?key (hdr_nonce h) (build_aad h) 0 (blob_chunks data) tags"
        using tags keep by (subst blob_chunks_cong) auto
      have "d = data \<and> hdr_owner_pin_hash h' = hdr_owner_pin_hash h \<and> hdr_group_mask h' = hdr_group_mask h"
        if s: "blob_stored P fl3 slot h' d" for h' d
      proof -
        have "m \<noteq> 0"
        proof
          assume "m = 0"
          with m have "flash_mem fl3 a = 0xFF" if "in_range ?base 96 a" for a
            using that m [rule_format, of "a - ?base"] by (auto simp: in_range_def)
          with blank_header s show False by blast
        qed
        from s have h': "header_ok h'" "flash_simple_read ?base 96 fl3 = header_bytes h'" "unat (hdr_plaintext_len h') = length d"
          by (simp_all add: blob_stored_def)
        obtain tags' where t': "chunks_stored P fl3 ?base (file_key P (hdr_group_mask h')) (hdr_nonce h') (build_aad h') 0 (blob_chunks d) tags'"
          using s by (auto simp: blob_stored_def)
        have "take 64 (header_bytes h') = take 64 (header_bytes ?h)"
        proof (rule nth_equalityI)
          fix i assume "i < length (take 64 (header_bytes h'))"
          then have i: "i < 64" by simp
          have "header_bytes h' ! i = flash_mem fl3 (?base + i)" using read_nth [of i 96 ?base fl3] i h'(2) by simp
          also have "\<dots> = header_bytes ?h ! i" using m i \<open>m \<noteq> 0\<close> by simp
          finally show "take 64 (header_bytes h') ! i = take 64 (header_bytes ?h) ! i" using i by simp
        qed (simp add: length_header_bytes h'(1) hk)
        note f = header_fields [OF h'(1) hk this]
        have aad: "build_aad ?h = build_aad h" by (simp add: build_aad_def)
        from f h'(3) h(2) have "length d = length data" by simp
        with chunks_stored_unique [OF P(3) _ nonce, of ?key fl3 ?base "build_aad h" 0 d tags' data tags] t' tags3 f aad
        show ?thesis by simp
      qed
      then show ?thesis by (simp add: fl')
    qed
  qed
qed

end
