(* ===== verification/WellFormed.thy ===== *)
theory WellFormed
  imports Device Torn
begin

text \<open>
  Sizes. Whatever is in the flash at the first boot, and whatever flash and cipher do later, the
  tables in RAM keep their eight entries, the entries their fields' sizes, the PIN hash its 32
  bytes and the replay cache its ring: every access of the handlers to them is in range. That
  is one more relation that meets the contract of a session; it knows nothing of the contents.
\<close>

definition well_formed :: "hsm \<Rightarrow> bool" where
  "well_formed h \<longleftrightarrow> length (g_pin_hash (h_pin h)) = 32 \<and> blob_ok (h_blob h) \<and> names_ok (h_names h) \<and> replay_inv (h_replay h)"

definition sized :: "platform \<Rightarrow> unit \<Rightarrow> hsm \<Rightarrow> bool" where
  "sized P v h \<longleftrightarrow> secrets_ok P \<and> well_formed h"

lemma sized_say [simp]: "sized P v (say m h) = sized P v h"
  by (simp add: sized_def well_formed_def)

section \<open>The operations\<close>

lemma commit_sizes:
  assumes "blob_ok b" "length (fat_uuid e) = 16" "slot_is_valid s" "commit_fat_entry P s e fl b = (rc, fl', b')"
  shows "blob_ok b'"
  using assms(1,2,4) commit_fat_entry_flush [OF assms(1-3), of P fl]
  by (auto simp: blob_ok_def fat_ok_update split: prod.splits if_splits)

lemma blob_write_sizes:
  assumes "secrets_ok P" "blob_ok b" "length uuid = 16" "length data \<le> 8192" "slot_is_valid s"
    and "blob_write P s data uuid owner g fl tr b = Some (rc, fl', tr', b')"
  shows "blob_ok b'"
  using assms(1,4) find_own_slot [OF assms(5)] assms(6)
proof (cases rule: blob_write_steps)
  case (2 nonce h rc1 fl1)
  with assms(2,3,5) commit_sizes [of "b\<lparr>g_aad := build_aad h\<rparr>" "blob_entry s uuid (length data)" s P fl1 rc fl' b'] show ?thesis
    by (auto simp: blob_entry_def split: if_splits)
qed (use assms(2) in simp)

lemma blob_delete_sizes:
  assumes "blob_ok b" "blob_delete P s fl b = (rc, fl', b')"
  shows "blob_ok b'"
proof (cases "slot_is_valid s \<and> \<not> slot_is_empty s b")
  case True
  from assms(2) True [THEN conjunct1] True [THEN conjunct2] show ?thesis
  proof (cases rule: blob_delete_cases)
    case (2 fl1)
    from commit_sizes [OF assms(1) _ True [THEN conjunct1] 2(2)] show ?thesis by simp
  qed (use assms(1) in simp)
qed (use assms in \<open>auto simp: blob_delete_def split: if_splits\<close>)

lemma clear_sizes:
  assumes "sized P v h" "do_clear_name P s h = (rc, h')"
  shows "sized P v h'"
  using assms by (auto simp: do_clear_name_def clear_name_entry_def sized_def well_formed_def names_ok_update Let_def
      split: prod.splits if_splits)

lemma save_sizes:
  assumes "sized P v h" "length name = 32" "do_save_name P s name g h = (rc, h')"
  shows "sized P v h'" "rc = 0 \<Longrightarrow> slot_is_valid s"
  using assms by (auto simp: do_save_name_def save_name_entry_def sized_def well_formed_def names_ok_update new_name_ok Let_def
      valid_slot SECURE_BLOB_STORE_MAX_SLOTS_def split: prod.splits if_splits)

lemma store_sizes:
  assumes h: "sized P v h" and arg: "length pin = 6" "length name = 32" "length uuid = 16" "length data \<le> 8192"
    and r: "store_blob P s pin name g uuid data h = Some (rc, h')"
  shows "sized P v h'"
proof -
  have P: "secrets_ok P" using h by (simp add: sized_def)
  have w: "sized P v h2" if "sized P v h1" "slot_is_valid s"
    "do_blob_write P s data uuid (pin_hash P (take 6 pin)) (ucast g) h1 = Some (rc2, h2)" for h1 rc2 h2
    using that blob_write_sizes [OF P _ arg(3,4)] by (auto simp: do_blob_write_def bind_eq_Some_conv sized_def well_formed_def)
  have "6 \<le> length pin" using arg(1) by simp
  from P this r show ?thesis
  proof (cases rule: store_blob_cases)
    case (1 h1 rc1)
    with save_sizes(1) [OF h arg(2)] show ?thesis by simp
  next
    case (2 h1 h2 h3 rc2 rc3)
    note n = save_sizes [OF h arg(2) 2(1)]
    from clear_sizes [OF w [OF n(1) _ 2(2)] 2(4)] n(2) 2(6) show ?thesis by simp
  next
    case (3 h1)
    note n = save_sizes [OF h arg(2) 3(1)]
    from w [OF n(1) _ 3(3)] n(2) show ?thesis by simp
  qed
qed

lemma gate_sizes:
  assumes h: "sized P v h" and g: "pin_gate P pin h = Some (rc, h')"
  shows "sized P v h'"
proof -
  obtain ok fl s where c: "check_pin P pin (h_flash h) (h_pin h) = (ok, fl, s)" by (metis prod_cases3)
  have "sized P v (h\<lparr>h_flash := fl, h_pin := s\<rparr>)" using h check_pin_hash [OF c] by (simp add: sized_def well_formed_def)
  with g c h show ?thesis by (auto simp: pin_gate_def do_check_pin_def pin_is_locked_def split: if_splits)
qed

lemma change_sizes:
  assumes "secrets_ok P" "length (g_pin_hash s) = 32" "pin_change P old new fl s = (rc, fl', s')"
  shows "length (g_pin_hash s') = 32"
  using assms by (auto simp: pin_change_def compute_pin_hash_ok Let_def fail_delay_def split: if_splits prod.splits)

interpretation size_calls: session sized "\<lambda>P pin v. True" "\<lambda>slot f v. v" False
proof
  fix P v h assume h: "sized P v h"
  show "sized P v (h\<lparr>h_uart := u\<rparr>)" "sized P v (h\<lparr>h_trng := tr\<rparr>)" for u tr using h by (simp_all add: sized_def well_formed_def)
  show "secrets_ok P \<and> blob_ok (h_blob h) \<and> replay_inv (h_replay h)" using h by (simp add: sized_def well_formed_def)
  show "sized P v (h\<lparr>h_replay := c\<rparr>)" if "replay_inv c" for c using h that by (simp add: sized_def well_formed_def)
  show "sized P v (h\<lparr>h_blob := b\<rparr>)" if "blob_ok b" for b using h that by (simp add: sized_def well_formed_def)
  show "sized P v h' \<and> (rc = 0 \<longrightarrow> True)" if "pin_gate P (segment 0 6 pkt) h = Some (rc, h')" for pkt rc h'
    using gate_sizes [OF h that] by simp
qed (auto intro: store_sizes)

lemma write_sizes:
  assumes h: "sized P v h" and len: "length pkt \<le> 8251"
  shows "keeps (sized P v) (write_cmd P pkt h)"
proof -
  let ?c = "un_write_command pkt"
  let ?data = "take (unat (wc_contents_len ?c)) (wc_contents ?c)"
  have "keeps (sized P v) (store_blob P (wc_slot ?c) (wc_pin ?c) (wc_name ?c) (wc_group_id ?c) (wc_uuid ?c) ?data h1)"
    if "sized P v h1" "59 \<le> length pkt" "unat (wc_contents_len ?c) \<le> length pkt - 59" for h1
  proof -
    have "length ?data \<le> 8192" using that(3) len by (auto simp: min_def)
    from store_sizes [OF that(1) write_parts [OF that(2)] this] show ?thesis unfolding keeps_def by blast
  qed
  then show ?thesis using size_calls.keeps_write [OF h refl] by blast
qed

lemma delete_sizes:
  assumes h: "sized P v h"
  shows "keeps (sized P v) (delete_file P pkt h)"
proof (rule size_calls.keeps_delete [OF h])
  fix h1 rc fl b assume "sized P v h1" "blob_delete P (pkt ! 6) (h_flash h1) (h_blob h1) = (rc, fl, b)"
  then show "sized P v (h1\<lparr>h_flash := fl, h_blob := b\<rparr>)"
    using blob_delete_sizes [of "h_blob h1" P "pkt ! 6" "h_flash h1" rc fl b] by (simp add: sized_def well_formed_def)
qed (rule clear_sizes)

lemma change_pin_sizes:
  assumes h: "sized P v h"
  shows "keeps (sized P v) (change_pin P pkt h)"
proof -
  have "sized P v (h\<lparr>h_flash := fl, h_pin := s\<rparr>)"
    if "pin_change P (segment 0 6 pkt) (segment 6 6 pkt) (h_flash h) (h_pin h) = (rc, fl, s)" for rc fl s
    using h change_sizes [OF _ _ that] by (simp add: sized_def well_formed_def)
  then show ?thesis using size_calls.keeps_change [OF h] by blast
qed

interpretation sizes: loop_session sized "\<lambda>P pin v. True" "\<lambda>slot f v. v" False dbg "\<lambda>P e v. v" for dbg
proof
  fix P v h pkt rc h' assume h: "sized P v h"
  show "sized P v h'" if "length pkt \<le> 8251" "write_cmd P pkt h = Some (rc, h')"
    using keepsD [OF write_sizes [OF h that(1)] that(2)] .
  show "sized P v h'" if "delete_file P pkt h = Some (rc, h')" using keepsD [OF delete_sizes [OF h] that] .
  show "sized P v h'" if "change_pin P pkt h = Some (rc, h')" using keepsD [OF change_pin_sizes [OF h] that] .
next
  fix P v pkt u0 h assume "size_calls.received P v pkt u0 h"
  then show "sized P v h" unfolding size_calls.received_def by blast
qed

section \<open>The life of the device\<close>

lemma init_sizes:
  assumes P: "secrets_ok P" and i: "init P (power_on fl tr u) = Some d"
  shows "sized P () (d_hsm d)"
proof -
  obtain rc fl1 s where p: "pin_init P fl pin_state_reset = (rc, fl1, s)" by (metis prod_cases3)
  have l: "length (g_pin_hash s) = 32"
    using p [unfolded pin_init_cases [OF P]] pin_load_blank_hash [of fl] by (auto simp: Let_def split: if_splits prod.splits)
  define b where "b = blob_reset\<lparr>g_fat := read_fat fl1, blob_initialized := True\<rparr>"
  note r = reset_state
  have "blob_ok b" using r read_fat_ok by (simp add: b_def blob_ok_def)
  moreover have "h_pin (d_hsm d) = s \<and> h_blob (d_hsm d) = b \<and> h_names (d_hsm d) = load_name_table fl1 \<and> h_replay (d_hsm d) = replay_reset"
    using i p by (cases "rc = 0") (auto simp: init_def Let_def init_commands_def power_on_def b_def print_error_eq
      blob_store_init_def r split: prod.splits)
  ultimately show ?thesis using P l load_names_ok r(1) by (simp add: sized_def well_formed_def)
qed

lemma device_step_sizes:
  assumes h: "sized P () (d_hsm d)" and s: "device_step dbg P d d'"
  shows "sized P () (d_hsm d')"
proof (rule device_stepE [OF s])
  show ?thesis if "loop_round dbg P d = Next d'" using round_observed [OF that] sizes.round_follows [OF h] by blast
  show ?thesis if "boot dbg P (h_flash (d_hsm d)) tr u = Some d'" for tr u
    by (rule size_calls.inv_boot [OF init_sizes that]) (use h in \<open>simp_all add: sized_def\<close>)
  show ?thesis if "d' = d\<lparr>d_hsm := with_input rx ps (d_hsm d)\<rparr>" for rx ps
    using h that by (simp add: sized_def well_formed_def with_input_def)
qed

section \<open>Property\<close>



end
