(* ===== verification/PowerLoss.thy ===== *)
theory PowerLoss
  imports Device Torn
begin

text \<open>
  What a power loss in the middle of an update leaves. \<open>power_cut n P\<close> is the platform whose
  flash controller stops with command \<open>n\<close>: later commands change nothing and fail. The flash
  at the end of a run on it is the flash at the moment of the loss, and the next boot reads
  that. The files of other slots are never changed, at whatever command the power goes. But the
  blob store erases before it writes, so there are moments at which neither the slot that is
  rewritten nor the table survives.
\<close>

definition power_cut :: "nat \<Rightarrow> platform \<Rightarrow> platform" where
  "power_cut n P = P\<lparr>dl_erase := (\<lambda>t mem a. if t < n then dl_erase P t mem a else (False, mem)),
     dl_program := (\<lambda>t mem a data. if t < n then dl_program P t mem a data else (False, mem)),
     dl_wait := (\<lambda>t. t < n \<and> dl_wait P t)\<rparr>"

lemma cut_sel [simp]:
  "GLOBAL_SECRETS (power_cut n P) = GLOBAL_SECRETS P" "HSM_PIN (power_cut n P) = HSM_PIN P"
  "global_permissions (power_cut n P) = global_permissions P"
  "wc_gcm_encrypt (power_cut n P) = wc_gcm_encrypt P" "wc_gcm_decrypt (power_cut n P) = wc_gcm_decrypt P"
  by (simp_all add: power_cut_def)

lemma cut_ok:
  assumes "flash_ok P"
  shows "flash_ok (power_cut n P)"
  unfolding flash_ok_def
proof (intro conjI allI impI)
  fix t mem addr ok mem'
  assume e: "dl_erase (power_cut n P) t mem addr = (ok, mem')"
  then show "mem' a = mem a" if "\<not> sector_of addr a" for a
    using flash_ok_eraseD [OF assms, of t mem addr ok mem'] that by (auto simp: power_cut_def split: if_splits)
  show "mem' a = 0xFF" if "ok \<and> dl_wait (power_cut n P) t" "sector_of addr a" for a
    using e flash_ok_eraseD [OF assms, of t mem addr ok mem'] that by (auto simp: power_cut_def split: if_splits)
next
  fix t mem addr data ok mem'
  assume e: "dl_program (power_cut n P) t mem addr data = (ok, mem')"
  then show "mem' a = mem a" if "\<not> in_range addr (length data) a" for a
    using flash_ok_programD [OF assms, of t mem addr data ok mem'] that by (auto simp: power_cut_def split: if_splits)
  show "mem' (addr + i) = data ! i"
    if "ok \<and> dl_wait (power_cut n P) t \<and> (\<forall>a. in_range addr (length data) a \<longrightarrow> mem a = 0xFF)" "i < length data" for i
    using e flash_ok_programD [OF assms, of t mem addr data ok mem'] that by (auto simp: power_cut_def split: if_splits)
qed

lemma cut_clean: "flash_clean P \<Longrightarrow> flash_clean (power_cut n P)"
  by (simp add: flash_clean_def power_cut_def)

text \<open>
  Neither keys and permissions nor what the flash holds depend on the flash controller: they are
  the same on every platform with the same secrets and the same cipher.
\<close>

definition same_keys :: "platform \<Rightarrow> platform \<Rightarrow> bool" where
  "same_keys Q P \<longleftrightarrow> GLOBAL_SECRETS Q = GLOBAL_SECRETS P \<and> HSM_PIN Q = HSM_PIN P \<and>
     global_permissions Q = global_permissions P \<and> wc_gcm_encrypt Q = wc_gcm_encrypt P \<and> wc_gcm_decrypt Q = wc_gcm_decrypt P"

lemma same_keys_secrets:
  assumes "same_keys Q P"
  shows "secrets_ok Q = secrets_ok P" "pin_hash Q = pin_hash P" "provisioned_pin Q = provisioned_pin P"
    "validate_permission Q = validate_permission P" "written_file Q = written_file P" "file_key Q = file_key P"
    "gcm_ok Q = gcm_ok P"
  using assms by (simp_all add: same_keys_def fun_eq_iff secrets_ok_def pin_hash_def K_master_def provisioned_pin_def
      validate_permission_def written_file_def file_key_def gcm_ok_def)

lemma same_keys_chunks:
  assumes "same_keys Q P"
  shows "chunks_stored Q fl base key nonce aad i ds ts = chunks_stored P fl base key nonce aad i ds ts"
proof (induction ds arbitrary: i ts)
  case Nil
  then show ?case by (cases ts) simp_all
next
  case (Cons d ds)
  with assms show ?case by (cases ts) (simp_all add: same_keys_def secure_crypto_aes_gcm_encrypt_def)
qed

lemma same_keys_stored: "same_keys Q P \<Longrightarrow> blob_stored Q = blob_stored P"
  by (simp add: fun_eq_iff blob_stored_def same_keys_chunks same_keys_secrets)

lemma cut_keys: "same_keys (power_cut n P) P"
  by (simp add: same_keys_def)

lemmas cut_secrets [simp] = same_keys_secrets [OF cut_keys]
lemmas cut_stored [simp] = same_keys_stored [OF cut_keys]

section \<open>Before and after the loss\<close>

lemma cut_erase_before:
  "flash_reliable P \<Longrightarrow> flash_tick fl < n \<Longrightarrow>
   \<exists>fl'. flash_simple_erase_page (power_cut n P) addr fl = (0, fl') \<and> flash_tick fl' = Suc (flash_tick fl)"
  by (auto simp: flash_simple_erase_page_def power_cut_def flash_reliable_def Let_def split_def)

lemma cut_erase_pages_before:
  "flash_reliable P \<Longrightarrow> flash_tick fl + k \<le> n \<Longrightarrow>
   \<exists>fl'. erase_pages (power_cut n P) addr k fl = (SECURE_BLOB_STORE_OK, fl') \<and> flash_tick fl' = flash_tick fl + k"
proof (induction k arbitrary: addr fl)
  case (Suc k)
  then obtain fl1 where 1: "flash_simple_erase_page (power_cut n P) addr fl = (0, fl1)" "flash_tick fl1 = Suc (flash_tick fl)"
    using cut_erase_before [of P fl n addr] by auto
  with Suc.IH [OF Suc.prems(1), of fl1 "addr + SECURE_BLOB_STORE_PAGE_SIZE"] Suc.prems(2) show ?case by auto
qed simp

text \<open>From command \<open>n\<close> on nothing is written.\<close>

lemma cut_write_after:
  assumes "n \<le> flash_tick fl"
  shows "flash_mem (snd (flash_simple_write (power_cut n P) addr p fl)) = flash_mem fl \<and>
    (fst (flash_simple_write (power_cut n P) addr p fl) = 0 \<longrightarrow> p = [])"
  using assms by (simp add: flash_simple_write_def flash_write_loop.simps [of _ addr p] power_cut_def Let_def)

lemma cut_erase_after:
  "n \<le> flash_tick fl \<Longrightarrow> flash_simple_erase_page (power_cut n P) addr fl = (- 1, fl\<lparr>flash_tick := Suc (flash_tick fl)\<rparr>)"
  by (simp add: flash_simple_erase_page_def power_cut_def Let_def)

lemma cut_store_after:
  assumes "n \<le> flash_tick fl"
  shows "blob_store_data (power_cut n P) slot h aad master data fl = (SECURE_BLOB_STORE_IO_ERROR, fl\<lparr>flash_tick := Suc (flash_tick fl)\<rparr>)"
proof -
  have "erase_pages (power_cut n P) a (Suc 11) fl = (SECURE_BLOB_STORE_IO_ERROR, fl\<lparr>flash_tick := Suc (flash_tick fl)\<rparr>)" for a
    by (simp only: erase_pages.simps) (simp add: cut_erase_after [OF assms])
  then show ?thesis
    by (simp add: blob_store_data_def erase_slot_pages_def SECURE_BLOB_STORE_PAGE_SIZE_def del: erase_pages.simps)
qed

lemma cut_blob_loop_after:
  assumes g: "gcm_ok P" and n: "n \<le> flash_tick fl"
    and r: "blob_write_loop (power_cut n P) addr master nonce aad p i data ctx fl = (rc, ctx', fl')"
  shows "flash_mem fl' = flash_mem fl \<and> (rc = SECURE_BLOB_STORE_OK \<longrightarrow> fl' = fl)"
proof (cases "data = []")
  case True
  with r show ?thesis by (simp add: blob_write_loop.simps)
next
  case False
  show ?thesis
  proof (cases "secure_crypto_aes_gcm_encrypt (power_cut n P) (chunk_key master i) nonce aad (take SECURE_BLOB_CHUNK_SIZE data) 16")
    case None
    with r False show ?thesis by (subst (asm) blob_write_loop.simps) simp
  next
    case (Some x)
    obtain ct tag where x: "x = (ct, tag)" by fastforce
    let ?w = "flash_simple_write (power_cut n P) (addr + SECURE_BLOB_HEADER_SIZE + p) ct fl"
    have "length ct = length (take SECURE_BLOB_CHUNK_SIZE data)" using gcm_wrap_length(1) [OF _ Some [unfolded x]] g by simp
    moreover have "0 < length (take SECURE_BLOB_CHUNK_SIZE data)" using False by (simp add: SECURE_BLOB_CHUNK_SIZE_def)
    ultimately have "ct \<noteq> []" by (metis length_greater_0_conv)
    with cut_write_after [OF n, of P "addr + SECURE_BLOB_HEADER_SIZE + p" ct] have w: "flash_mem (snd ?w) = flash_mem fl" "fst ?w \<noteq> 0" by auto
    from r False Some x w(2) have "rc = SECURE_BLOB_STORE_IO_ERROR \<and> fl' = snd ?w"
      by (subst (asm) blob_write_loop.simps, cases ?w) simp
    with w(1) show ?thesis by simp
  qed
qed

text \<open>A loss right after the twelve erase commands of a write: the slot is blank.\<close>

lemma cut_store_blank:
  assumes P: "flash_ok P" "flash_reliable P" "gcm_ok P" and h: "header_ok h" and n: "n = flash_tick fl + 12"
    and r: "blob_store_data (power_cut n P) slot h aad master data fl = (rc, fl')"
  shows "rc \<noteq> SECURE_BLOB_STORE_OK" "\<And>a. in_slot slot a \<Longrightarrow> flash_mem fl' a = 0xFF"
    and "\<And>a. \<not> in_slot slot a \<Longrightarrow> flash_mem fl' a = flash_mem fl a"
proof -
  let ?P = "power_cut n P"
  obtain fl1 where e: "erase_slot_pages ?P slot fl = (SECURE_BLOB_STORE_OK, fl1)" and t: "n \<le> flash_tick fl1"
    using cut_erase_pages_before [OF P(2), of fl 12 n "blob_slot_base slot"] n
    by (auto simp: erase_slot_pages_def SECURE_BLOB_STORE_PAGE_SIZE_def)
  obtain rc2 ctx fl2 where l: "blob_write_loop ?P (blob_slot_base slot) master (hdr_nonce h) aad 0 0 data
      (sha256_raw_ctx_init sha256_ctx_zero) fl1 = (rc2, ctx, fl2)" by (metis prod_cases3)
  note k = cut_blob_loop_after [OF P(3) t l]
  have "rc \<noteq> SECURE_BLOB_STORE_OK \<and> flash_mem fl' = flash_mem fl1"
  proof (cases "rc2 = SECURE_BLOB_STORE_OK")
    case False
    with r e l k show ?thesis by (simp add: blob_store_data_def Let_def)
  next
    case True
    with k have f: "fl2 = fl1" by simp
    let ?tag = "hmac_spec master (fst (sha256_raw_ctx_final ctx))"
    let ?w = "flash_simple_write ?P (blob_slot_base slot) (header_bytes (h\<lparr>hdr_blob_tag := ?tag\<rparr>)) fl1"
    have "header_bytes (h\<lparr>hdr_blob_tag := ?tag\<rparr>) \<noteq> []" by (simp add: header_bytes_def le32_def)
    with cut_write_after [OF t] have w: "flash_mem (snd ?w) = flash_mem fl1" "fst ?w \<noteq> 0" by blast+
    from r e l True f w(2) have "rc = SECURE_BLOB_STORE_IO_ERROR \<and> fl' = snd ?w"
      by (cases ?w) (simp add: blob_store_data_def Let_def secure_crypto_hmac_sha256_def hmac_sha256_raw_spec split_def)
    with w(1) show ?thesis by simp
  qed
  with erase_slot_blank [OF cut_ok [OF P(1)] e] erase_slot_frame [OF cut_ok [OF P(1)] e]
  show "rc \<noteq> SECURE_BLOB_STORE_OK" "\<And>a. in_slot slot a \<Longrightarrow> flash_mem fl' a = 0xFF"
    "\<And>a. \<not> in_slot slot a \<Longrightarrow> flash_mem fl' a = flash_mem fl a" by auto
qed

section \<open>A write interrupted\<close>

lemma blob_write_returns:
  assumes "3 \<le> length (trng_words (trng_polls tr))"
  shows "\<exists>r. blob_write P slot data uuid owner g fl tr b = Some r"
proof -
  from assms obtain bs tr' where "trng_read_bytes 12 tr = Some (bs, tr')" by (auto intro: trng_read_returns [of 12 tr])
  then have "security_generate_nonce 12 tr = Some (Some bs, tr')" by (simp add: security_generate_nonce_def)
  then show ?thesis by (simp add: blob_write_def Let_def split_def split: option.split sum.split)
qed

text \<open>The blob store after a reset on this flash.\<close>

abbreviation (input) rebooted :: "blob_state \<Rightarrow> blob_state" where
  "rebooted b \<equiv> blob_reset\<lparr>g_fat := g_fat b, blob_initialized := True\<rparr>"

lemma reboot_loads: "fat_pg.holds (g_fat b) fl \<Longrightarrow> blob_store_init fl blob_reset = (SECURE_BLOB_STORE_OK, rebooted b)"
  by (simp add: blob_init_loads reset_state)

lemma blank_slot_corrupt:
  assumes P: "secrets_ok P" and s: "slot_is_valid slot" "\<not> slot_is_empty slot b" and e: "\<And>a. in_slot slot a \<Longrightarrow> flash_mem fl a = 0xFF"
  shows "fst (blob_read_all P slot owner m cap fl b) = SECURE_BLOB_STORE_CORRUPT"
proof -
  have "flash_simple_read (blob_slot_base slot) 96 fl = replicate 96 0xFF"
    by (rule read_eqI) (auto simp: e in_slot_def in_range_def)
  moreover have "hdr_magic (un_header (replicate 96 0xFF)) \<noteq> SECURE_BLOB_MAGIC"
    by (simp add: un_header_def un_le32_def SECURE_BLOB_MAGIC_def)
  ultimately have "load_header slot fl b = Inl SECURE_BLOB_STORE_CORRUPT"
    using s by (auto simp: load_header_def Let_def SECURE_BLOB_HEADER_SIZE_def)
  with s(1) show ?thesis
    by (simp add: blob_read_all_def blob_read_init_def blob_read_init_cases [OF P] blob_read_rest_def)
qed

lemma cut_write_blank:
  assumes P: "secrets_ok P" "gcm_ok P" "flash_ok P" "flash_reliable P" and s: "slot_is_valid s"
    and arg: "length owner = 32" "length data \<le> 8192" "g \<le> 0xFFFF" and n: "n = flash_tick fl + 12"
    and w: "blob_write (power_cut n P) s data uuid owner g fl tr b = Some (rc, fl', tr', b')"
  shows "rc \<noteq> SECURE_BLOB_STORE_OK" "\<And>a. in_slot s a \<Longrightarrow> flash_mem fl' a = 0xFF"
    and "\<And>a. \<not> in_slot s a \<Longrightarrow> flash_mem fl' a = flash_mem fl a"
proof -
  have P': "secrets_ok (power_cut n P)" using P(1) by (simp add: secrets_ok_def)
  from blob_write_steps [OF P' arg(2) find_own_slot [OF s] w] arg(3) obtain nonce h rc1 fl1 where
    h: "length nonce = 12" "h = blob_new_header s owner g nonce (length data)"
    and d: "blob_store_data (power_cut n P) s h (build_aad h) (file_key (power_cut n P) g) data fl = (rc1, fl1)"
    and r: "if rc1 \<noteq> SECURE_BLOB_STORE_OK then rc = rc1 \<and> fl' = fl1 \<and> b' = b\<lparr>g_aad := build_aad h\<rparr>
      else commit_fat_entry (power_cut n P) s (blob_entry s uuid (length data)) fl1 (b\<lparr>g_aad := build_aad h\<rparr>) = (rc, fl', b')"
    by (metis linorder_not_less)
  have ok: "header_ok h" using new_header_ok(1) [OF arg(1) h(1) arg(2)] by (simp add: h(2))
  note c = cut_store_blank [OF P(3,4,2) ok n d]
  with r show "rc \<noteq> SECURE_BLOB_STORE_OK" "\<And>a. in_slot s a \<Longrightarrow> flash_mem fl' a = 0xFF"
    "\<And>a. \<not> in_slot s a \<Longrightarrow> flash_mem fl' a = flash_mem fl a" by auto
qed

lemma cut_write_nothing:
  assumes "secrets_ok P" "slot_is_valid s" "length data \<le> 8192" "n \<le> flash_tick fl"
    and w: "blob_write (power_cut n P) s data uuid owner g fl tr b = Some (rc, fl', tr', b')"
  shows "rc \<noteq> SECURE_BLOB_STORE_OK" "flash_mem fl' = flash_mem fl" "n \<le> flash_tick fl'" "g_fat b' = g_fat b" "blob_ok b' = blob_ok b"
proof -
  from assms(1) have "secrets_ok (power_cut n P)" by simp
  from this assms(3) find_own_slot [OF assms(2)] w
  have "rc \<noteq> SECURE_BLOB_STORE_OK \<and> flash_mem fl' = flash_mem fl \<and> n \<le> flash_tick fl' \<and> g_fat b' = g_fat b \<and> blob_ok b' = blob_ok b"
    by (cases rule: blob_write_steps) (use assms(4) in \<open>auto simp: cut_store_after\<close>)
  then show "rc \<noteq> SECURE_BLOB_STORE_OK" "flash_mem fl' = flash_mem fl" "n \<le> flash_tick fl'" "g_fat b' = g_fat b" "blob_ok b' = blob_ok b"
    by simp_all
qed

section \<open>The slot of an interrupted write\<close>

text \<open>Whatever blob is found there was there before, or is the new one.\<close>

lemma cut_write_slot:
  assumes P: "secrets_ok P" "gcm_ok P" "flash_ok P" "flash_clean P" and s: "slot_is_valid s" and b: "blob_ok b"
    and arg: "length owner = 32" "length uuid = 16" "length data \<le> 8192"
    and w: "blob_write (power_cut n P) s data uuid owner g fl tr b = Some (rc, fl', tr', b')"
    and st: "blob_stored P fl' s x out"
  shows "blob_stored P fl s x out \<or> out = data \<and> hdr_owner_pin_hash x = owner \<and> hdr_group_mask x = g"
proof -
  let ?P = "power_cut n P"
  note ok = cut_ok [OF P(3), of n]
  have old: "blob_stored P fl s x out" if "flash_mem fl' = flash_mem fl"
    by (rule blob_stored_frame [OF st]) (simp add: that)
  from P(1) have "secrets_ok ?P" by simp
  from this arg(3) find_own_slot [OF s] w show ?thesis
  proof (cases rule: blob_write_steps)
    case (2 nonce h rc2 fl2)
    note hk = new_header_ok [OF arg(1) 2(3) arg(3), of s g, folded 2(4)]
    have d: "blob_store_data ?P s h (build_aad h) (file_key ?P (hdr_group_mask h)) data fl = (rc2, fl2)"
      using 2(4,5) by simp
    have mem: "flash_mem fl2 a = flash_mem fl' a" if "in_slot s a" for a
    proof (cases "rc2 = SECURE_BLOB_STORE_OK")
      case True
      let ?fat = "(g_fat b)[unat s := blob_entry s uuid (length data)]"
      have fat: "fat_ok ?fat" using b arg(2) by (simp add: blob_ok_def fat_ok_update blob_entry_def)
      from 2(6) True commit_fat_entry_flush [of "b\<lparr>g_aad := build_aad h\<rparr>" "blob_entry s uuid (length data)" s ?P fl2] b s arg(2)
      obtain rc3 where "fat_flush ?P ?fat fl2 = (rc3, fl')" by (auto simp: blob_entry_def split: prod.splits if_splits)
      from fat_pg.flush_frame [OF ok fat this slot_not_fat [OF s that]] show ?thesis by simp
    qed (use 2(6) in simp)
    then have st2: "blob_stored P fl2 s x out" by (rule blob_stored_frame [OF st])
    have "gcm_ok ?P" using P(2) by simp
    from torn_slot [OF ok cut_clean [OF P(4)] this arg(3) hk d] show ?thesis
    proof
      assume "rc2 \<noteq> SECURE_BLOB_STORE_OK \<and> flash_mem fl2 = flash_mem fl"
      with 2(6) old show ?thesis by simp
    next
      assume "\<forall>h' d. blob_stored ?P fl2 s h' d \<longrightarrow>
        d = data \<and> hdr_owner_pin_hash h' = hdr_owner_pin_hash h \<and> hdr_group_mask h' = hdr_group_mask h"
      with st2 2(4) show ?thesis by simp
    qed
  qed (use old in simp)
qed

section \<open>A commit interrupted\<close>

lemma cut_commit_blank:
  assumes P: "flash_ok P" "flash_reliable P" and b: "blob_ok b" and s: "slot_is_valid s" and e: "length (fat_uuid e) = 16"
    and c: "commit_fat_entry (power_cut (flash_tick fl + 1) P) s e fl b = (rc, fl', b')"
  shows "rc = SECURE_BLOB_STORE_IO_ERROR" "\<And>a. sector_of SECURE_BLOB_STORE_FAT_ADDR a \<Longrightarrow> flash_mem fl' a = 0xFF"
    and "\<And>a. \<not> sector_of SECURE_BLOB_STORE_FAT_ADDR a \<Longrightarrow> flash_mem fl' a = flash_mem fl a"
proof -
  let ?P = "power_cut (flash_tick fl + 1) P" and ?page = "fat_image ((g_fat b)[unat s := e])"
  obtain fl1 where 1: "flash_simple_erase_page ?P SECURE_BLOB_STORE_FAT_ADDR fl = (0, fl1)" "flash_tick fl1 = Suc (flash_tick fl)"
    using cut_erase_before [OF P(2), of fl "flash_tick fl + 1" SECURE_BLOB_STORE_FAT_ADDR] by auto
  let ?w = "flash_simple_write ?P SECURE_BLOB_STORE_FAT_ADDR ?page fl1"
  have "?page \<noteq> []" by (simp add: fat_image_def)
  with cut_write_after [of "flash_tick fl + 1" fl1] 1(2) have w: "flash_mem (snd ?w) = flash_mem fl1" "fst ?w \<noteq> 0" by auto
  from c 1 w(2) have "rc = SECURE_BLOB_STORE_IO_ERROR \<and> fl' = snd ?w"
    by (cases ?w) (simp add: commit_fat_entry_flush [OF b e s] fat_flush_def)
  with w(1) erase_blank [OF cut_ok [OF P(1)] 1(1)] erase_frame [OF cut_ok [OF P(1)] 1(1)]
  show "rc = SECURE_BLOB_STORE_IO_ERROR" "\<And>a. sector_of SECURE_BLOB_STORE_FAT_ADDR a \<Longrightarrow> flash_mem fl' a = 0xFF"
    "\<And>a. \<not> sector_of SECURE_BLOB_STORE_FAT_ADDR a \<Longrightarrow> flash_mem fl' a = flash_mem fl a" by auto
qed

lemma erased_empty: "fat_flash_addr fat_erased = SECURE_BLOB_EMPTY_U32"
  by (simp add: fat_erased_def un_fat_def un_le32_def SECURE_BLOB_EMPTY_U32_def)

lemma blank_table_no_files:
  assumes "\<And>a. sector_of SECURE_BLOB_STORE_FAT_ADDR a \<Longrightarrow> flash_mem fl a = 0xFF"
  shows "\<not> occupied k (snd (init_commands (power_on fl tr u)))"
proof -
  have "flash_simple_read SECURE_BLOB_STORE_FAT_ADDR 1024 fl = replicate 1024 0xFF"
    by (rule read_eqI) (auto simp: assms in_sector [OF fat_addr(1)] in_range_def)
  from fat_pg.holds_load [OF blank_tables_hold(1) [OF this]] erased_empty show ?thesis
    by (auto simp: init_commands_def blob_store_init_def power_on_def blob_reset_def occupied_def slot_occupied_iff
        slot_is_empty_def valid_slot)
qed

section \<open>At any moment\<close>

text \<open>What a boot finds of the table: each entry outside slot \<open>s\<close> as it was, or empty.\<close>

definition table_cut :: "byte \<Rightarrow> blob_state \<Rightarrow> flash_dev \<Rightarrow> bool" where
  "table_cut s b fl \<longleftrightarrow> (\<forall>k < 8. k \<noteq> unat s \<longrightarrow>
     read_fat fl ! k = g_fat b ! k \<or> fat_flash_addr (read_fat fl ! k) = SECURE_BLOB_EMPTY_U32)"

lemma table_cut_holds: "fat_pg.holds (g_fat b) fl \<Longrightarrow> table_cut s b fl"
  by (simp add: table_cut_def fat_pg.holds_load)

lemma cut_commit_table:
  assumes P: "flash_ok P" "flash_clean P" and b: "blob_ok b" "fat_pg.holds (g_fat b) fl"
    and s: "slot_is_valid s" "length (fat_uuid e) = 16"
    and c: "commit_fat_entry P s e fl b = (rc, fl', b')"
  shows "table_cut s b fl'"
proof -
  let ?fat = "(g_fat b)[unat s := e]"
  have fat: "fat_ok ?fat" using b(1) s(2) by (simp add: blob_ok_def fat_ok_update)
  obtain r where f: "fat_flush P ?fat fl = (r, fl')"
    using c commit_fat_entry_flush [OF b(1) s(2,1), of P fl] by (auto split: prod.splits if_splits)
  have "read_fat fl' ! k = g_fat b ! k \<or> fat_flash_addr (read_fat fl' ! k) = SECURE_BLOB_EMPTY_U32"
    if "k < 8" "k \<noteq> unat s" for k
    using clean_fat_flush [OF P fat f that(1)] fat_pg.holds_load [OF b(2)] that(2) by auto
  then show ?thesis by (simp add: table_cut_def)
qed

lemma cut_step_table:
  assumes P: "secrets_ok P" "gcm_ok P" "flash_ok P" "flash_clean P" and b: "blob_ok b" "fat_pg.holds (g_fat b) fl"
    and st: "store_step s (power_cut n P, fl, b) (power_cut n P, fl', b')"
  shows "table_cut s b fl'"
proof -
  note ok = cut_ok [OF P(3), of n] and clean = cut_clean [OF P(4), of n]
  have P': "secrets_ok (power_cut n P)" using P(1) by (simp add: secrets_ok_def)
  have keep: "fat_pg.holds (g_fat b) f" if "slot_is_valid s" "\<And>a. \<not> in_slot s a \<Longrightarrow> flash_mem f a = flash_mem fl a" for f
    using slot_not_fat [OF that(1)] that(2) by (intro fat_pg.holds_frame [OF b(2)]) blast
  from st consider (store_write) slot uuid owner data g tr rc tr' where "find_write_slot slot b = Inr s" "length uuid = 16"
      "length owner = 32" "length data \<le> 8192" "blob_write (power_cut n P) slot data uuid owner g fl tr b = Some (rc, fl', tr', b')"
    | (store_delete) rc where "blob_delete (power_cut n P) s fl b = (rc, fl', b')"
    by (rule store_stepE) blast+
  then show ?thesis
  proof cases
    case store_write
    note v = find_write_slot_valid [OF store_write(1)]
    from P' store_write(4,1,5) show ?thesis
    proof (cases rule: blob_write_steps)
      case 1
      with b(2) show ?thesis by (simp add: table_cut_holds)
    next
      case (2 nonce h rc1 fl1)
      have h: "header_ok h" using store_write(3,4) 2 by (simp add: new_header_ok)
      have k: "fat_pg.holds (g_fat b) fl1"
        by (rule keep [OF v]) (rule blob_store_data_frame [OF ok _ h store_write(4) 2(5)], use P(2) in simp_all)
      let ?b = "b\<lparr>g_aad := build_aad h\<rparr>"
      have "table_cut s ?b fl'"
      proof (cases "rc1 = SECURE_BLOB_STORE_OK")
        case True
        with 2(6) cut_commit_table [OF ok clean _ _ v, of ?b fl1 "blob_entry s uuid (length data)" rc fl' b'] b(1) k store_write(2)
        show ?thesis by (simp add: blob_ok_def)
      qed (use 2(6) k in \<open>simp add: table_cut_holds\<close>)
      then show ?thesis by (simp add: table_cut_def)
    qed
  next
    case store_delete
    show ?thesis
    proof (cases "slot_is_valid s \<and> \<not> slot_is_empty s b")
      case True
      from store_delete True [THEN conjunct1] True [THEN conjunct2] show ?thesis
      proof (cases rule: blob_delete_cases)
        case 1
        then show ?thesis using keep True erase_slot_frame [OF ok 1(1)] by (blast intro: table_cut_holds)
      next
        case (2 fl1)
        have "fat_pg.holds (g_fat b) fl1" using keep True erase_slot_frame [OF ok 2(1)] by blast
        from cut_commit_table [OF ok clean b(1) this _ fat_erased_sel(1) 2(2)] True show ?thesis by blast
      qed
    qed (use store_delete b(2) in \<open>auto simp: blob_delete_def table_cut_holds split: if_splits\<close>)
  qed
qed

lemma ref_clean: "flash_clean ref_platform"
  by (rule reliable_clean [OF ref_reliable])

section \<open>Properties\<close>

text \<open>
  C14: Whenever the power goes in a write or delete of one slot, between any two flash commands,
  every other slot holds after the reset the file it held, or its table entry is erased and it
  is empty; an empty slot stays empty. No other file is ever changed.
\<close>

theorem power_loss_keeps_others:
  assumes "secrets_ok P" "gcm_ok P" "flash_ok P" "flash_clean P" "blob_ok b" "fat_pg.holds (g_fat b) fl"
    and "store_step s (power_cut n P, fl, b) (power_cut n P, fl', b')" "blob_store_init fl' blob_reset = (rc, b1)"
    and "k \<noteq> s" "slot_is_valid k"
  shows "(slot_is_empty k b \<longrightarrow> slot_is_empty k b1) \<and>
    (\<forall>u own g d. blob_holds P fl b k u own g d \<longrightarrow> blob_holds P fl' b1 k u own g d \<or> slot_is_empty k b1)"
proof -
  have b1: "g_fat b1 = read_fat fl'" using assms(8) by (auto simp: blob_store_init_def blob_reset_def)
  have "unat k \<noteq> unat s" using assms(9) by (simp add: word_unat_eq_iff)
  with cut_step_table [OF assms(1-7)] assms(10) b1
  have e: "g_fat b1 ! unat k = g_fat b ! unat k \<or> slot_is_empty k b1"
    by (auto simp: table_cut_def slot_is_empty_def valid_slot)
  have "store_good (power_cut n P, fl, b)" using assms(1,2,5) cut_ok [OF assms(3)] by (simp add: secrets_ok_def)
  with assms(7) have "other_slots_kept s fl b fl' b'"
    by (auto elim!: store_stepE simp del: cut_secrets(1) dest: blob_write_others blob_delete_others)
  then have mem: "flash_mem fl' a = flash_mem fl a" if "in_slot k a" for a
    using that slots_disjoint [of k a s] slot_not_fat [OF assms(10) that] assms(9) by (auto simp: other_slots_kept_def)
  have "blob_stored P fl' k h d" if "blob_stored P fl k h d" for h d
    by (rule blob_stored_frame [OF that mem])
  with e show ?thesis by (auto simp: blob_holds_def slot_is_empty_def)
qed

lemma power_loss_keeps_others_witness:
  "\<exists>fl b rc fl' tr' b' b1. blob_holds ref_platform fl b 2 (replicate 16 1) (replicate 32 4) 5 [10, 20, 30] \<and>
     blob_write (power_cut (flash_tick fl + 12) ref_platform) 3 [7] (replicate 16 2) (replicate 32 4) 5 fl ref_trng b
       = Some (rc, fl', tr', b') \<and> blob_store_init fl' blob_reset = (SECURE_BLOB_STORE_OK, b1) \<and>
     (blob_holds ref_platform fl' b1 2 (replicate 16 1) (replicate 32 4) 5 [10, 20, 30] \<or> slot_is_empty 2 b1)"
proof -
  obtain fl tr b where w: "blob_write ref_platform 2 [10, 20, 30] (replicate 16 1) (replicate 32 4) 5 ref_flash_dev ref_trng ref_blob
    = Some (SECURE_BLOB_STORE_OK, fl, tr, b)" by (rule ref_blob_write)
  note st = blob_write_stores [OF ref_ok(1-3) ref_blob_ok _ _ _ ref_slot(1) w, simplified]
  let ?P = "power_cut (flash_tick fl + 12) ref_platform"
  obtain rc fl' tr' b' where c: "blob_write ?P 3 [7] (replicate 16 2) (replicate 32 4) 5 fl ref_trng b = Some (rc, fl', tr', b')"
    using blob_write_returns [OF ref_trng_words] by (metis prod_cases4)
  have "slot_is_valid 3" and ne: "(2 :: byte) \<noteq> 3" by (simp_all add: valid_slot)
  then have "store_step 3 (?P, fl, b) (?P, fl', b')" by (intro store_write [OF find_own_slot _ _ _ c]) simp_all
  moreover obtain b1 where i: "blob_store_init fl' blob_reset = (SECURE_BLOB_STORE_OK, b1)"
    by (simp add: blob_store_init_def blob_reset_def)
  ultimately have "(slot_is_empty 2 b \<longrightarrow> slot_is_empty 2 b1) \<and> (\<forall>u own g d. blob_holds ref_platform fl b 2 u own g d \<longrightarrow>
      blob_holds ref_platform fl' b1 2 u own g d \<or> slot_is_empty 2 b1)"
    by (rule power_loss_keeps_others [OF ref_ok(1-3) ref_clean st(4,3) _ _ ne ref_slot(2)])
  with st(1) c i show ?thesis by blast
qed

text \<open>
  C16: Whenever the power goes in a write over a file, between any two flash commands, what can be
  read of the slot after the reset is the old file or the new one, whole, for its own owner and
  group: never a mixture, and never one file under the other's rights.
\<close>

theorem interrupted_write_old_or_new:
  assumes "secrets_ok P" "gcm_ok P" "flash_ok P" "flash_clean P" "slot_is_valid s" "blob_ok b" "blob_holds P fl b s uuid0 owner0 g0 old"
    and "length owner = 32" "length uuid = 16" "length data \<le> 8192"
    and w: "blob_write (power_cut n P) s data uuid owner g fl tr b = Some (rc, fl', tr', b')"
    and i: "blob_store_init fl' blob_reset = (rc1, b1)"
    and r: "blob_read_all P s reader m cap fl' b1 = (SECURE_BLOB_STORE_OK, out, k, b2)" "cap \<le> 8192"
  shows "out = data \<and> reader = owner \<and> m AND g \<noteq> 0 \<or> out = old \<and> reader = owner0 \<and> m AND g0 \<noteq> 0"
proof -
  have "blob_ok b1" using i read_fat_ok by (auto simp: blob_store_init_def blob_reset_def blob_ok_def)
  from blob_read_all_iff [OF assms(1,2) this r(2), of s reader m fl' out k] r(1) obtain hd where
    hd: "reader_allowed (Some reader) m hd" "blob_stored P fl' s hd out" by blast
  from assms(7) obtain h0 where h0: "blob_stored P fl s h0 old" "hdr_owner_pin_hash h0 = owner0" "hdr_group_mask h0 = g0"
    by (auto simp: blob_holds_def)
  from cut_write_slot [OF assms(1-6,8-10) w hd(2)] show ?thesis
  proof
    assume "blob_stored P fl s hd out"
    from blob_stored_unique [OF assms(1,2,5) h0(1) this] hd(1) h0(2,3) show ?thesis by (simp add: reader_allowed_def)
  qed (use hd(1) in \<open>simp add: reader_allowed_def\<close>)
qed

lemma interrupted_write_old_or_new_witness:
  "\<exists>fl b rc fl' tr' b' b1 b2. blob_write (power_cut (flash_tick fl) ref_platform) 2 [7] (replicate 16 2) (replicate 32 8) 6 fl ref_trng b
       = Some (rc, fl', tr', b') \<and> blob_store_init fl' blob_reset = (SECURE_BLOB_STORE_OK, b1) \<and>
     blob_read_all ref_platform 2 (replicate 32 4) 5 8192 fl' b1 = (SECURE_BLOB_STORE_OK, [10, 20, 30], 3, b2) \<and>
     ([10, 20, 30] = [7 :: byte] \<and> replicate 32 4 = replicate 32 (8 :: byte) \<and> 5 AND (6 :: u32) \<noteq> 0 \<or>
      [10, 20, 30] = [10, 20, 30 :: byte] \<and> replicate 32 4 = replicate 32 (4 :: byte) \<and> 5 AND (5 :: u32) \<noteq> 0)"
proof -
  obtain fl tr b where w: "blob_write ref_platform 2 [10, 20, 30] (replicate 16 1) (replicate 32 4) 5 ref_flash_dev ref_trng ref_blob
    = Some (SECURE_BLOB_STORE_OK, fl, tr, b)" by (rule ref_blob_write)
  note st = blob_write_stores [OF ref_ok(1-3) ref_blob_ok _ _ _ ref_slot(1) w, simplified]
  let ?P = "power_cut (flash_tick fl) ref_platform"
  obtain rc fl' tr' b' where c: "blob_write ?P 2 [7] (replicate 16 2) (replicate 32 8) 6 fl ref_trng b = Some (rc, fl', tr', b')"
    using blob_write_returns [OF ref_trng_words] by (metis prod_cases4)
  have mem: "flash_mem fl' = flash_mem fl" by (rule cut_write_nothing(2) [OF ref_ok(1) ref_slot(2) _ order_refl c]) simp
  then have i: "blob_store_init fl' blob_reset = (SECURE_BLOB_STORE_OK, rebooted b)"
    by (intro reboot_loads fat_pg.holds_frame [OF st(3)]) simp
  have ok: "blob_ok (rebooted b)" using st(4) reset_state by (simp add: blob_ok_def)
  have "blob_stored ref_platform fl' 2 h d" if "blob_stored ref_platform fl 2 h d" for h d
    by (rule blob_stored_frame [OF that]) (simp add: mem)
  with st(1) have "blob_holds ref_platform fl' (rebooted b) 2 (replicate 16 1) (replicate 32 4) 5 [10, 20, 30]"
    by (auto simp: blob_holds_def)
  from blob_write_read_all(1) [OF ref_ok(1,2) ok ref_slot(2) this, of 5 8192] obtain b2 where
    r: "blob_read_all ref_platform 2 (replicate 32 4) 5 8192 fl' (rebooted b) = (SECURE_BLOB_STORE_OK, [10, 20, 30], 3, b2)" by auto
  have "[10, 20, 30] = [7 :: byte] \<and> replicate 32 4 = replicate 32 (8 :: byte) \<and> 5 AND (6 :: u32) \<noteq> 0 \<or>
      [10, 20, 30] = [10, 20, 30 :: byte] \<and> replicate 32 4 = replicate 32 (4 :: byte) \<and> 5 AND (5 :: u32) \<noteq> 0"
    by (rule interrupted_write_old_or_new [OF ref_ok(1-3) ref_clean ref_slot(2) st(4,1) _ _ _ c i r]) simp_all
  with c i r show ?thesis by blast
qed

text \<open>
  C18: A new version of a file is written over the old one, so a power loss after the slot's
  twelve pages are erased leaves neither: after the reset the table still lists the old file,
  but reading it fails as corrupt. The files of the other slots are as before.
\<close>

theorem power_loss_destroys_old:
  assumes "secrets_ok P" "gcm_ok P" "flash_ok P" "flash_reliable P" "slot_is_valid s"
    and "fat_pg.holds (g_fat b) fl" "blob_holds P fl b s uuid0 owner0 g0 old"
    and "length owner = 32" "length data \<le> 8192" "g \<le> 0xFFFF" "3 \<le> length (trng_words (trng_polls tr))"
  shows "\<exists>rc fl' tr' b' b1. blob_write (power_cut (flash_tick fl + 12) P) s data uuid owner g fl tr b = Some (rc, fl', tr', b') \<and>
    blob_store_init fl' blob_reset = (SECURE_BLOB_STORE_OK, b1) \<and> g_fat b1 ! unat s = blob_entry s uuid0 (length old) \<and>
    (\<forall>reader m cap. fst (blob_read_all P s reader m cap fl' b1) = SECURE_BLOB_STORE_CORRUPT) \<and>
    (\<forall>k u o_hash m d. k \<noteq> s \<and> slot_is_valid k \<and> blob_holds P fl b k u o_hash m d \<longrightarrow> blob_holds P fl' b1 k u o_hash m d)"
proof -
  let ?P = "power_cut (flash_tick fl + 12) P"
  obtain rc fl' tr' b' where w: "blob_write ?P s data uuid owner g fl tr b = Some (rc, fl', tr', b')"
    using blob_write_returns [OF assms(11)] by (metis prod_cases4)
  note c = cut_write_blank [OF assms(1-5,8-10) refl w]
  have "flash_mem fl' a = flash_mem fl a" if "sector_of SECURE_BLOB_STORE_FAT_ADDR a" for a
    using c(3) slot_not_fat [OF assms(5)] that by blast
  then have i: "blob_store_init fl' blob_reset = (SECURE_BLOB_STORE_OK, rebooted b)"
    by (rule reboot_loads [OF fat_pg.holds_frame [OF assms(6)]])
  have e: "g_fat b ! unat s = blob_entry s uuid0 (length old)" using assms(7) by (simp add: blob_holds_def)
  then have "\<not> slot_is_empty s (rebooted b)"
    using slot_base_word [OF assms(5)] by (simp add: slot_is_empty_def blob_entry_def)
  from blank_slot_corrupt [OF assms(1,5) this c(2)]
  have "\<forall>reader m cap. fst (blob_read_all P s reader m cap fl' (rebooted b)) = SECURE_BLOB_STORE_CORRUPT" by blast
  moreover have "blob_holds P fl' (rebooted b) k u own m d"
    if k: "k \<noteq> s" "slot_is_valid k" "blob_holds P fl b k u own m d" for k u own m d
  proof -
    have "blob_stored P fl' k hd d" if "blob_stored P fl k hd d" for hd
      by (rule blob_stored_frame [OF that]) (use c(3) slots_disjoint k(1) in blast)
    with k(3) show ?thesis by (auto simp: blob_holds_def)
  qed
  ultimately show ?thesis using w i e by (intro exI conjI) auto
qed

lemma power_loss_destroys_old_witness:
  "\<exists>fl b fl' b1. blob_holds ref_platform fl b 2 (replicate 16 1) (replicate 32 4) 5 [10, 20, 30] \<and>
     blob_store_init fl' blob_reset = (SECURE_BLOB_STORE_OK, b1) \<and>
     fst (blob_read_all ref_platform 2 (replicate 32 4) 5 8192 fl' b1) = SECURE_BLOB_STORE_CORRUPT"
proof -
  obtain fl tr b where w: "blob_write ref_platform 2 [10, 20, 30] (replicate 16 1) (replicate 32 4) 5 ref_flash_dev ref_trng ref_blob
    = Some (SECURE_BLOB_STORE_OK, fl, tr, b)" by (rule ref_blob_write)
  note st = blob_write_stores [OF ref_ok(1-3) ref_blob_ok _ _ _ ref_slot(1) w, simplified]
  from power_loss_destroys_old [OF ref_ok ref_slot(2) st(3) st(1) _ _ _ ref_trng_words,
      of "replicate 32 4" "[7]" 5 "replicate 16 2"]
  obtain fl' b1 where "blob_store_init fl' blob_reset = (SECURE_BLOB_STORE_OK, b1)"
    and "\<forall>reader m cap. fst (blob_read_all ref_platform 2 reader m cap fl' b1) = SECURE_BLOB_STORE_CORRUPT"
    by auto
  with st(1) show ?thesis by blast
qed

text \<open>
  C19: A power loss between the erase and the rewrite of the file table, in any write or delete,
  loses every file: all data pages are intact, but after the reset no slot is in use.
\<close>

theorem power_loss_empties_table:
  assumes "flash_ok P" "flash_reliable P" "blob_ok b" "slot_is_valid s" "length (fat_uuid e) = 16"
  shows "\<exists>fl' b'. commit_fat_entry (power_cut (flash_tick fl + 1) P) s e fl b = (SECURE_BLOB_STORE_IO_ERROR, fl', b') \<and>
    (\<forall>a. \<not> sector_of SECURE_BLOB_STORE_FAT_ADDR a \<longrightarrow> flash_mem fl' a = flash_mem fl a) \<and>
    (\<forall>tr u k. \<not> occupied k (snd (init_commands (power_on fl' tr u))))"
proof -
  obtain rc fl' b' where c: "commit_fat_entry (power_cut (flash_tick fl + 1) P) s e fl b = (rc, fl', b')" by (metis prod_cases3)
  note k = cut_commit_blank [OF assms c]
  with c blank_table_no_files [of fl'] show ?thesis by blast
qed

lemma power_loss_empties_table_witness:
  "\<exists>fl b. commit_fat_entry (power_cut 1 ref_platform) 2 (blob_entry 2 (replicate 16 1) 3) ref_flash_dev ref_blob
      = (SECURE_BLOB_STORE_IO_ERROR, fl, b) \<and> \<not> occupied 2 (snd (init_commands (power_on fl ref_trng (ref_line []))))"
  using power_loss_empties_table [OF ref_ok(3,4) ref_blob_ok ref_slot(2), of "blob_entry 2 (replicate 16 1) 3" ref_flash_dev]
  by (auto simp: blob_entry_def ref_flash_dev_def)

end
