(* ===== verification/TornCommand.thy ===== *)
theory TornCommand
  imports PowerLoss
begin

text \<open>
  A loss of power inside a flash command. In \<^verbatim>\<open>PowerLoss\<close> the supply fails between two commands;
  here the command that it interrupts leaves anything at all in the page it erases or the words it
  programs (\<open>power_torn\<close>, whose \<open>junk\<close> is arbitrary), so the table page that the next boot reads
  may hold any bytes. The table is trusted for no contents: whatever it says of a slot, reading
  the slot gives the file that its header and its tags authenticate, or fails.
\<close>

definition power_torn :: "nat \<Rightarrow> flash_mem \<Rightarrow> platform \<Rightarrow> platform" where
  "power_torn n junk P = P\<lparr>
     dl_erase := (\<lambda>t mem a. if t < n then dl_erase P t mem a
       else (False, if t = n then (\<lambda>x. if sector_of a x then junk x else mem x) else mem)),
     dl_program := (\<lambda>t mem a data. if t < n then dl_program P t mem a data
       else (False, if t = n then (\<lambda>x. if in_range a (length data) x then junk x else mem x) else mem)),
     dl_wait := (\<lambda>t. t < n \<and> dl_wait P t)\<rparr>"

lemma torn_keys: "same_keys (power_torn n junk P) P"
  by (simp add: same_keys_def power_torn_def)

lemmas torn_secrets [simp] = same_keys_secrets [OF torn_keys]
lemmas torn_stored [simp] = same_keys_stored [OF torn_keys]

lemma torn_ok:
  assumes "flash_ok P"
  shows "flash_ok (power_torn n junk P)"
  unfolding flash_ok_def
proof (intro conjI allI impI)
  fix t mem addr ok mem'
  assume e: "dl_erase (power_torn n junk P) t mem addr = (ok, mem')"
  then show "mem' a = mem a" if "\<not> sector_of addr a" for a
    using flash_ok_eraseD [OF assms, of t mem addr ok mem'] that by (auto simp: power_torn_def split: if_splits)
  show "mem' a = 0xFF" if "ok \<and> dl_wait (power_torn n junk P) t" "sector_of addr a" for a
    using e flash_ok_eraseD [OF assms, of t mem addr ok mem'] that by (auto simp: power_torn_def split: if_splits)
next
  fix t mem addr data ok mem'
  assume e: "dl_program (power_torn n junk P) t mem addr data = (ok, mem')"
  then show "mem' a = mem a" if "\<not> in_range addr (length data) a" for a
    using flash_ok_programD [OF assms, of t mem addr data ok mem'] that by (auto simp: power_torn_def split: if_splits)
  show "mem' (addr + i) = data ! i"
    if "ok \<and> dl_wait (power_torn n junk P) t \<and> (\<forall>a. in_range addr (length data) a \<longrightarrow> mem a = 0xFF)" "i < length data" for i
    using e flash_ok_programD [OF assms, of t mem addr data ok mem'] that by (auto simp: power_torn_def split: if_splits)
qed

section \<open>Reading by an arbitrary table\<close>

lemma load_header_errors:
  "slot_is_valid k \<Longrightarrow> load_header k fl b = Inl rc \<Longrightarrow> rc \<in> {SECURE_BLOB_STORE_NOT_FOUND, SECURE_BLOB_STORE_CORRUPT}"
  by (auto simp: load_header_def Let_def split: if_splits)

lemma load_header_unique:
  assumes "blob_stored P fl k h d" "load_header k fl b = Inr h'"
  shows "h' = h"
  using assms(1) load_header_sound(1,5) [OF assms(2)] hdrc.enc_inject by (auto simp: blob_stored_def)

text \<open>The only thing that an entry of the table decides is whether its slot can be read at all.\<close>

lemma any_table_read:
  assumes P: "secrets_ok P" "gcm_ok P" and b: "blob_ok b" and k: "slot_is_valid k"
    and st: "blob_stored P fl k h d" and m: "m AND hdr_group_mask h \<noteq> 0" and cap: "length d \<le> cap" "cap \<le> 8192"
  shows "fst (blob_read_all P k (hdr_owner_pin_hash h) m cap fl b) \<in> {SECURE_BLOB_STORE_NOT_FOUND, SECURE_BLOB_STORE_CORRUPT} \<or>
    (\<exists>b'. blob_read_all P k (hdr_owner_pin_hash h) m cap fl b = (SECURE_BLOB_STORE_OK, d, length d, b'))"
proof (cases "load_header k fl b")
  case (Inl rc)
  with load_header_errors [OF k Inl] k show ?thesis
    by (simp add: blob_read_all_def blob_read_init_def blob_read_init_cases [OF P(1)] blob_read_rest_def)
next
  case (Inr h')
  with load_header_unique [OF st Inr] st m cap
  have "\<exists>b'. blob_read_all P k (hdr_owner_pin_hash h) m cap fl b = (SECURE_BLOB_STORE_OK, d, length d, b')"
    by (subst blob_read_all_iff [OF P b cap(2)]) (auto simp: reader_allowed_def)
  then show ?thesis ..
qed

lemma any_table_only:
  assumes P: "secrets_ok P" "gcm_ok P" and b: "blob_ok b" and k: "slot_is_valid k"
    and st: "blob_stored P fl k h d" and cap: "cap \<le> 8192"
    and r: "blob_read_all P k reader m cap fl b = (SECURE_BLOB_STORE_OK, out, j, b')"
  shows "out = d \<and> reader = hdr_owner_pin_hash h \<and> m AND hdr_group_mask h \<noteq> 0"
proof -
  from blob_read_all_iff [OF P b cap, of k reader m fl out j] r obtain h' where
    "reader_allowed (Some reader) m h'" "blob_stored P fl k h' out" by blast
  with blob_stored_unique [OF P k st] show ?thesis by (auto simp: reader_allowed_def)
qed

section \<open>The other slots\<close>

lemma torn_others:
  assumes P: "secrets_ok P" "gcm_ok P" "flash_ok P" and b: "blob_ok b"
    and st: "store_step s (power_torn n junk P, fl, b) (power_torn n junk P, fl', b')" and k: "k \<noteq> s" "slot_is_valid k"
    and a: "in_slot k a"
  shows "flash_mem fl' a = flash_mem fl a"
proof -
  have "store_good (power_torn n junk P, fl, b)" using P(1,2) b torn_ok [OF P(3)] by simp
  with st have "other_slots_kept s fl b fl' b'"
    by (auto elim!: store_stepE simp del: torn_secrets dest: blob_write_others blob_delete_others)
  with slots_disjoint [of k a s] slot_not_fat [OF k(2) a] k(1) a show ?thesis by (auto simp: other_slots_kept_def)
qed

text \<open>
  C15: Wherever the power goes in a write or delete of one slot, also inside a flash command that
  leaves arbitrary bytes in its page or words, every other slot's file is read by its owner after
  the reset whole, as long as the slot's row of the table was spared, and otherwise whole or not
  at all, as not found or corrupt. No reader ever gets anything else from that slot.
\<close>

theorem torn_command_keeps_others:
  assumes "secrets_ok P" "gcm_ok P" "flash_ok P" "blob_ok b"
    and "store_step s (power_torn n junk P, fl, b) (power_torn n junk P, fl', b')"
    and "blob_store_init fl' blob_reset = (rc, b1)" "k \<noteq> s" "slot_is_valid k"
    and "blob_holds P fl b k u owner g d" "m AND g \<noteq> 0" "length d \<le> cap" "cap \<le> 8192"
  shows "(fst (blob_read_all P k owner m cap fl' b1) \<in> {SECURE_BLOB_STORE_NOT_FOUND, SECURE_BLOB_STORE_CORRUPT} \<or>
      (\<exists>b2. blob_read_all P k owner m cap fl' b1 = (SECURE_BLOB_STORE_OK, d, length d, b2))) \<and>
    (g_fat b1 ! unat k = g_fat b ! unat k \<longrightarrow>
      (\<exists>b2. blob_read_all P k owner m cap fl' b1 = (SECURE_BLOB_STORE_OK, d, length d, b2))) \<and>
    (\<forall>reader mask out j b2. blob_read_all P k reader mask cap fl' b1 = (SECURE_BLOB_STORE_OK, out, j, b2) \<longrightarrow>
      out = d \<and> reader = owner \<and> mask AND g \<noteq> 0)"
proof -
  from assms(9) obtain h where h: "blob_stored P fl k h d" "hdr_owner_pin_hash h = owner" "hdr_group_mask h = g"
    by (auto simp: blob_holds_def)
  have st: "blob_stored P fl' k h d"
    by (rule blob_stored_frame [OF h(1) torn_others [OF assms(1-5,7,8)]])
  have b1: "blob_ok b1" using assms(6) read_fat_ok by (auto simp: blob_store_init_def blob_reset_def blob_ok_def)
  have spared: "\<exists>b2. blob_read_all P k owner m cap fl' b1 = (SECURE_BLOB_STORE_OK, d, length d, b2)"
    if "g_fat b1 ! unat k = g_fat b ! unat k"
  proof -
    have "blob_holds P fl' b1 k u owner g d" using that st h(2,3) assms(9) by (auto simp: blob_holds_def)
    from blob_write_read_all(1) [OF assms(1,2) b1 assms(8) this assms(10-12)] show ?thesis .
  qed
  from any_table_read [OF assms(1,2) b1 assms(8) st _ assms(11,12)] any_table_only [OF assms(1,2) b1 assms(8) st assms(12)]
    h(2,3) assms(10) spared show ?thesis by blast
qed

lemma torn_command_keeps_others_witness:
  "\<exists>fl b rc fl' tr' b' b1. blob_holds ref_platform fl b 2 (replicate 16 1) (replicate 32 4) 5 [10, 20, 30] \<and>
     blob_write (power_torn (flash_tick fl + 16) (\<lambda>_. 0x5A) ref_platform) 3 [7] (replicate 16 2) (replicate 32 4) 5 fl ref_trng b
       = Some (rc, fl', tr', b') \<and> blob_store_init fl' blob_reset = (SECURE_BLOB_STORE_OK, b1) \<and>
     (fst (blob_read_all ref_platform 2 (replicate 32 4) 5 8192 fl' b1) \<in> {SECURE_BLOB_STORE_NOT_FOUND, SECURE_BLOB_STORE_CORRUPT} \<or>
      (\<exists>b2. blob_read_all ref_platform 2 (replicate 32 4) 5 8192 fl' b1 = (SECURE_BLOB_STORE_OK, [10, 20, 30], 3, b2)))"
proof -
  obtain fl tr b where w: "blob_write ref_platform 2 [10, 20, 30] (replicate 16 1) (replicate 32 4) 5 ref_flash_dev ref_trng ref_blob
    = Some (SECURE_BLOB_STORE_OK, fl, tr, b)" by (rule ref_blob_write)
  note st = blob_write_stores [OF ref_ok(1-3) ref_blob_ok _ _ _ ref_slot(1) w, simplified]
  let ?P = "power_torn (flash_tick fl + 16) (\<lambda>_. 0x5A) ref_platform"
  obtain rc fl' tr' b' where c: "blob_write ?P 3 [7] (replicate 16 2) (replicate 32 4) 5 fl ref_trng b = Some (rc, fl', tr', b')"
    using blob_write_returns [OF ref_trng_words] by (metis prod_cases4)
  have "slot_is_valid 3" and ne: "(2 :: byte) \<noteq> 3" by (simp_all add: valid_slot)
  then have s: "store_step 3 (?P, fl, b) (?P, fl', b')" by (intro store_write [OF find_own_slot _ _ _ c]) simp_all
  obtain b1 where i: "blob_store_init fl' blob_reset = (SECURE_BLOB_STORE_OK, b1)"
    by (simp add: blob_store_init_def blob_reset_def)
  from torn_command_keeps_others [OF ref_ok(1-3) st(4) s i ne ref_slot(2) st(1), of 5 8192]
  have "fst (blob_read_all ref_platform 2 (replicate 32 4) 5 8192 fl' b1) \<in> {SECURE_BLOB_STORE_NOT_FOUND, SECURE_BLOB_STORE_CORRUPT} \<or>
      (\<exists>b2. blob_read_all ref_platform 2 (replicate 32 4) 5 8192 fl' b1 = (SECURE_BLOB_STORE_OK, [10, 20, 30], 3, b2))"
    by (simp add: numeral_3_eq_3)
  with st(1) c i show ?thesis by blast
qed

end
