(* ===== verification/LongBlob.thy ===== *)
theory LongBlob
  imports BlobRead
begin

text \<open>
  Blobs longer than the tag area. \<^verbatim>\<open>blob_write\<close> accepts up to 11680 bytes, which is 46 chunks, but
  the 512 bytes at the end of a slot hold 32 tags: the tag of chunk 32 is written to the first
  bytes of the next slot, where that slot's header is. The commands stay below: they store at most
  \<^verbatim>\<open>MAX_CONTENTS_SIZE\<close> bytes, 32 chunks.
\<close>

lemma chunk_area_beyond:
  assumes "32 < idx" "256 * idx + len \<le> 11680" "in_range (base + 12288) 16 a"
  shows "\<not> chunk_area base idx len a"
proof -
  have "pad8 len \<le> pad8 (11680 - 256 * idx)" using assms(2) by (intro pad8_mono) simp
  also have "\<dots> = 11680 - 256 * idx"
  proof (rule pad8_dvd)
    have "11680 - 256 * idx = 8 * (1460 - 32 * idx)" by simp
    then show "8 dvd 11680 - 256 * idx" by (metis dvd_triv_left)
  qed
  finally show ?thesis using assms by (auto simp: chunk_area_def in_range_def)
qed

text \<open>The loop, from any chunk up to the one whose tag falls out of the slot.\<close>

lemma loop_spill:
  assumes P: "flash_ok P" "gcm_ok P" "length nonce = 12"
  shows "idx + k = 32 \<Longrightarrow> 256 * k < length data \<Longrightarrow> 256 * idx + length data \<le> 11680 \<Longrightarrow>
    \<forall>a. in_range (base + 12288) 16 a \<longrightarrow> flash_mem fl a = 0xFF \<Longrightarrow>
    blob_write_loop P base master nonce aad (256 * idx) idx data sha fl = (SECURE_BLOB_STORE_OK, sha', fl') \<Longrightarrow>
    \<exists>ct tag. secure_crypto_aes_gcm_encrypt P (chunk_key master 32) nonce aad (take 256 (drop (256 * k) data)) 16 = Some (ct, tag) \<and>
      length tag = 16 \<and> (\<forall>a. in_range (base + 12288) 16 a \<longrightarrow> flash_mem fl' a = tag ! (a - (base + 12288)))"
proof (induction k arbitrary: idx data sha fl)
  case (0 idx data sha fl)
  then have ne: "data \<noteq> []" and idx: "idx = 32" by auto
  from P(2,3) ne "0.prems"(5) show ?case
  proof (cases rule: write_loop_cases)
    case (1 ct tag rc1 fl1)
    from 1(4,5) obtain fl2 where w1: "flash_simple_write P (base + 96 + 256 * idx) ct fl = (0, fl1)"
      and w2: "flash_simple_write P (base + 11776 + 16 * idx) tag fl1 = (0, fl2)"
      and r: "blob_write_loop P base master nonce aad (256 * idx + length (take 256 data)) (Suc idx) (drop 256 data)
             (sha256_raw_ctx_update sha tag) fl2 = (SECURE_BLOB_STORE_OK, sha', fl')" by (auto split: if_splits)
    have pad: "pad8 (length ct) \<le> 256" "pad8 (length tag) = 16"
      using 1(2,3) pad8_mono [of "length ct" 256] by (simp_all add: pad8_def)
    have "flash_mem fl1 a = 0xFF" if "in_range (base + 12288) 16 a" for a
      using write_frame [OF P(1) w1, of a] "0.prems"(4) that pad(1) idx by (auto simp: in_range_def)
    then have tag: "flash_simple_read (base + 12288) 16 fl2 = tag"
      using write_data [OF P(1) w2] pad(2) 1(3) idx by (simp add: add.commute)
    have keep: "flash_mem fl' a = flash_mem fl2 a" if "in_range (base + 12288) 16 a" for a
    proof (cases "256 < length data")
      case True
      then have "\<not> chunk_area base (Suc idx) (length (drop 256 data)) a"
        using "0.prems"(3) idx by (intro chunk_area_beyond [OF _ _ that]) auto
      with True show ?thesis by (intro blob_write_loop_frame [OF P _ r]) auto
    qed (use r in \<open>simp add: blob_write_loop.simps\<close>)
    have "flash_mem fl' a = tag ! (a - (base + 12288))" if a: "in_range (base + 12288) 16 a" for a
      using keep [OF a] read_nth [of "a - (base + 12288)" 16 "base + 12288" fl2] tag a by (auto simp: in_range_def)
    with 1(1,3) idx show ?thesis by auto
  qed
next
  case (Suc k)
  then have ne: "data \<noteq> []" and idx: "idx < 32" and long: "256 < length data" by auto
  from P(2,3) ne Suc.prems(5) show ?case
  proof (cases rule: write_loop_cases)
    case (1 ct tag rc1 fl1)
    from 1(4,5) long obtain fl2 where w1: "flash_simple_write P (base + 96 + 256 * idx) ct fl = (0, fl1)"
      and w2: "flash_simple_write P (base + 11776 + 16 * idx) tag fl1 = (0, fl2)"
      and r: "blob_write_loop P base master nonce aad (256 * Suc idx) (Suc idx) (drop 256 data)
             (sha256_raw_ctx_update sha tag) fl2 = (SECURE_BLOB_STORE_OK, sha', fl')"
      by (auto simp: add.commute split: if_splits)
    have pad: "pad8 (length ct) \<le> 256" "pad8 (length tag) = 16"
      using 1(2,3) pad8_mono [of "length ct" 256] by (simp_all add: pad8_def)
    have "\<forall>a. in_range (base + 12288) 16 a \<longrightarrow> flash_mem fl2 a = 0xFF"
      using write_frame [OF P(1) w1] write_frame [OF P(1) w2] Suc.prems(4) pad idx by (auto simp: in_range_def)
    from Suc.IH [OF _ _ _ this r] Suc.prems(1-3) long show ?thesis by (simp add: add.commute)
  qed
qed

text \<open>
  C24: A blob of more than 8192 bytes is accepted and reported as written, and the tag of its 33rd
  chunk is then in the first 16 bytes of the next slot.
\<close>

theorem long_blob_spills:
  assumes "secrets_ok P" "gcm_ok P" "flash_ok P" "flash_reliable P" "blob_ok b"
    and "length uuid = 16" "length owner = 32" "8192 < length data" "length data \<le> 11680" "g \<le> 0xFFFF"
    and "find_write_slot slot b = Inr s" "unat s < 7" "3 \<le> length (trng_words (trng_polls tr))"
    and "\<forall>a. in_range (blob_slot_base (s + 1)) 16 a \<longrightarrow> flash_mem fl a = 0xFF"
  shows "\<exists>fl' tr' b' nonce ct tag.
    blob_write P slot data uuid owner g fl tr b = Some (SECURE_BLOB_STORE_OK, fl', tr', b') \<and>
    secure_crypto_aes_gcm_encrypt P (chunk_key (file_key P g) 32) nonce
      (build_aad (blob_new_header s owner g nonce (length data))) (take 256 (drop 8192 data)) 16 = Some (ct, tag) \<and>
    flash_simple_read (blob_slot_base (s + 1)) 16 fl' = tag"
proof -
  have sc: "unat (s + 1) = Suc (unat s)" using assms(12) by (simp add: unat_word_ariths)
  then have nx: "blob_slot_base (s + 1) = blob_slot_base s + 12288" by (simp add: slot_base_eq)
  note valid = find_write_slot_valid [OF assms(11)]
  obtain fl' tr' b' where w: "blob_write P slot data uuid owner g fl tr b = Some (SECURE_BLOB_STORE_OK, fl', tr', b')"
    by (rule blob_write_succeeds_any [OF assms(1,2,4,5,6,7,9-11,13)])
  from assms(1,9,11) w obtain nonce h fl1 where
    h: "length nonce = 12" "h = blob_new_header s owner g nonce (length data)"
    and d: "blob_store_data P s h (build_aad h) (file_key P g) data fl = (SECURE_BLOB_STORE_OK, fl1)"
    and c: "commit_fat_entry P s (blob_entry s uuid (length data)) fl1 (b\<lparr>g_aad := build_aad h\<rparr>) = (SECURE_BLOB_STORE_OK, fl', b')"
    by (cases rule: blob_write_steps_any) (auto split: if_splits)
  have hk: "header_ok h" using new_header_valid [OF assms(7) h(1)] by (simp add: h(2))
  let ?key = "file_key P g" and ?base = "blob_slot_base s"
  from d obtain fl2 sha fl3 dg cx where e: "erase_slot_pages P s fl = (SECURE_BLOB_STORE_OK, fl2)"
    and l: "blob_write_loop P ?base ?key (hdr_nonce h) (build_aad h) (256 * 0) 0 data (sha256_raw_ctx_init sha256_ctx_zero) fl2
      = (SECURE_BLOB_STORE_OK, sha, fl3)"
    and wh: "flash_simple_write P ?base (header_bytes (h\<lparr>hdr_blob_tag := hmac_spec ?key dg\<rparr>)) fl3 = (0, fl1)"
    by (auto simp: blob_store_data_def Let_def secure_crypto_hmac_sha256_def hmac_sha256_raw_spec split: if_splits prod.splits)
  have out: "\<not> in_slot s a" if "in_range (?base + 12288) 16 a" for a using that by (auto simp: in_slot_def in_range_def)
  have "\<forall>a. in_range (?base + 12288) 16 a \<longrightarrow> flash_mem fl2 a = 0xFF"
    using erase_slot_frame [OF assms(3) e out] assms(14) by (simp add: nx)
  from loop_spill [OF assms(3,2) _ _ _ _ this l, of 32] assms(8,9) h obtain ct tag where
    t: "secure_crypto_aes_gcm_encrypt P (chunk_key ?key 32) nonce (build_aad h) (take 256 (drop 8192 data)) 16 = Some (ct, tag)"
    "length tag = 16" "\<And>a. in_range (?base + 12288) 16 a \<Longrightarrow> flash_mem fl3 a = tag ! (a - (?base + 12288))" by auto
  have len96: "length (header_bytes (h\<lparr>hdr_blob_tag := hmac_spec ?key dg\<rparr>)) = 96"
    using hk by (intro length_header_bytes) (simp add: header_ok_def)
  have "flash_mem fl' a = flash_mem fl3 a" if a: "in_range (?base + 12288) 16 a" for a
  proof -
    have "in_slot (s + 1) a" using a by (auto simp: in_slot_def nx in_range_def)
    moreover have "slot_is_valid (s + 1)" using assms(12) sc by (simp add: valid_slot)
    ultimately have "\<not> sector_of SECURE_BLOB_STORE_FAT_ADDR a" by (rule slot_not_fat [rotated])
    then have "flash_mem fl' a = flash_mem fl1 a"
      using commit_frame [OF assms(3) _ _ valid c] assms(5,6) by (simp add: blob_entry_def)
    also have "\<dots> = flash_mem fl3 a"
      using a by (intro write_frame [OF assms(3) wh]) (auto simp: len96 pad8_def in_range_def)
    finally show ?thesis .
  qed
  with t have "flash_simple_read (blob_slot_base (s + 1)) 16 fl' = tag"
    by (intro read_eqI) (auto simp: nx in_range_def)
  with w t(1) h(2) show ?thesis by blast
qed

lemma long_blob_spills_witness:
  "\<exists>fl' tr' b' nonce ct tag.
    blob_write ref_platform 2 (replicate 8193 7) (replicate 16 1) (replicate 32 4) 5 ref_flash_dev ref_trng ref_blob
      = Some (SECURE_BLOB_STORE_OK, fl', tr', b') \<and>
    secure_crypto_aes_gcm_encrypt ref_platform (chunk_key (file_key ref_platform 5) 32) nonce
      (build_aad (blob_new_header 2 (replicate 32 4) 5 nonce 8193)) [7] 16 = Some (ct, tag) \<and>
    flash_simple_read (blob_slot_base 3) 16 fl' = tag"
  using long_blob_spills [OF ref_ok ref_blob_ok _ _ _ _ _ ref_slot(1) _ ref_trng_words,
      of "replicate 16 1" "replicate 32 4" "replicate 8193 7" 5 ref_flash_dev]
  by (simp add: ref_flash_dev_def)

end
