(* ===== verification/MixedSlot.thy ===== *)
theory MixedSlot
  imports PowerLoss
begin

text \<open>
  The name table is rewritten before the blob (\<^verbatim>\<open>write\<close> and \<^verbatim>\<open>store_received_blob\<close> of
  \<^verbatim>\<open>commands.c\<close>), and the two are never compared again. If the power goes between the two, the
  slot has the new name and group over the old contents. \<^verbatim>\<open>read\<close> asks for the permission of the
  table's group and reads with a mask of all groups, so it gives out contents of a group the
  device must not read.
\<close>

section \<open>Before the loss\<close>

text \<open>As long as the supply holds, a platform and its cut one do the same.\<close>

lemma cut_before:
  "t < n \<Longrightarrow> dl_program (power_cut n P) t mem addr data = dl_program P t mem addr data"
  "t < n \<Longrightarrow> dl_wait (power_cut n P) t = dl_wait P t"
  by (simp_all add: power_cut_def)

lemma cut_erase_same:
  "flash_tick fl < n \<Longrightarrow> flash_simple_erase_page (power_cut n P) addr fl = flash_simple_erase_page P addr fl"
  by (simp add: flash_simple_erase_page_def power_cut_def Let_def)

lemma chunk_count: "p \<noteq> [] \<Longrightarrow> (length p + 63) div 64 = Suc ((length (drop 64 p) + 63) div 64)"
proof -
  assume "p \<noteq> []"
  then obtain k where k: "length p = Suc k" by (cases p) auto
  have "(k + 64) div 64 = Suc (k div 64)" by simp
  moreover have "(Suc k - 64 + 63) div 64 = k div 64" by (cases "k < 64") (auto simp: not_less dest!: le_Suc_ex)
  ultimately show ?thesis unfolding length_drop k by simp
qed

lemma cut_write_loop_same:
  "flash_tick fl + (length p + 63) div 64 \<le> n \<Longrightarrow> flash_write_loop (power_cut n P) addr p fl = flash_write_loop P addr p fl"
proof (induction "length p" arbitrary: addr p fl rule: less_induct)
  case less
  show ?case
  proof (cases "p = []")
    case True
    then show ?thesis by (simp add: flash_write_loop.simps)
  next
    case False
    then have t: "flash_tick fl < n" and rest: "Suc (flash_tick fl) + (length (drop 64 p) + 63) div 64 \<le> n"
      using less.prems chunk_count [OF False] by simp_all
    obtain ok m where d: "dl_program P (flash_tick fl) (flash_mem fl) addr (program_data (take 64 p)) = (ok, m)" by fastforce
    let ?fl = "fl\<lparr>flash_mem := m, flash_tick := Suc (flash_tick fl)\<rparr>"
    have ih: "flash_write_loop (power_cut n P) (addr + length (take 64 p)) (drop 64 p) ?fl
        = flash_write_loop P (addr + length (take 64 p)) (drop 64 p) ?fl"
    proof (rule less.hyps)
      show "length (drop 64 p) < length p" using False by (cases p) simp_all
      show "flash_tick ?fl + (length (drop 64 p) + 63) div 64 \<le> n" using rest by simp
    qed
    show ?thesis
      unfolding flash_write_loop.simps [of "power_cut n P" addr p fl] flash_write_loop.simps [of P addr p fl] Let_def
        cut_before [OF t] d prod.case by (simp only: ih)
  qed
qed

lemma write_loop_ticks:
  "flash_write_loop P addr p fl = (0, fl') \<Longrightarrow> flash_tick fl' = flash_tick fl + (length p + 63) div 64"
proof (induction "length p" arbitrary: addr p fl rule: less_induct)
  case less
  show ?case
  proof (cases "p = []")
    case True
    with less.prems show ?thesis by (simp add: flash_write_loop.simps)
  next
    case False
    from less.prems False obtain a f where "flash_write_loop P a (drop 64 p) f = (0, fl')" "flash_tick f = Suc (flash_tick fl)"
      by (subst (asm) flash_write_loop.simps) (auto simp: Let_def split: prod.splits if_splits)
    with less.hyps [of "drop 64 p" a f] False show ?thesis by (simp add: chunk_count)
  qed
qed

text \<open>The name table is written by 17 commands.\<close>

lemma cut_flush_names_same:
  assumes P: "flash_reliable P" and n: "names_ok names" and f: "flush_name_table P names fl = (rc, fl')"
  shows "flush_name_table (power_cut (flash_tick fl + 17) P) names fl = (0, fl')" "rc = 0" "flash_tick fl' = flash_tick fl + 17"
proof -
  let ?P = "power_cut (flash_tick fl + 17) P"
  obtain rc1 fl1 where e: "flash_simple_erase_page P BLOB_NAME_TABLE_ADDR fl = (rc1, fl1)" by fastforce
  obtain rc2 fl2 where w: "flash_simple_write P BLOB_NAME_TABLE_ADDR (name_page names) fl1 = (rc2, fl2)" by fastforce
  have ok: "rc1 = 0" "rc2 = 0" using erase_reliable [OF P] write_reliable [OF P] e w by (metis fst_conv)+
  have t: "flash_tick fl1 = Suc (flash_tick fl)" using e by (auto simp: flash_simple_erase_page_def Let_def split: prod.splits if_splits)
  have 1: "flash_simple_erase_page ?P BLOB_NAME_TABLE_ADDR fl = (0, fl1)" using cut_erase_same [of fl "flash_tick fl + 17" P] e ok by simp
  have 2: "flash_simple_write ?P BLOB_NAME_TABLE_ADDR (name_page names) fl1 = (0, fl2)"
    using cut_write_loop_same [of fl1 "name_page names" "flash_tick fl + 17" P] w ok t length_name_page [OF n]
    by (simp add: flash_simple_write_def)
  from f e w ok have r: "rc = 0 \<and> fl' = fl2" by (simp add: flush_name_table_def)
  show "flush_name_table ?P names fl = (0, fl')" using 1 2 r by (simp add: flush_name_table_def)
  show "rc = 0" using r by simp
  show "flash_tick fl' = flash_tick fl + 17"
    using write_loop_ticks [of P BLOB_NAME_TABLE_ADDR "name_page names" fl1 fl2] w ok t r length_name_page [OF n]
    by (simp add: flash_simple_write_def)
qed

text \<open>So a store that loses the supply there has saved the name, and does nothing else to the flash.\<close>

lemma cut_after_name:
  assumes P: "platform_good P" and h: "hsm_ok h" and s: "slot_is_valid s"
    and arg: "length pin = 6" "length name = 32" "length data \<le> 8192"
    and n: "do_save_name P s name g h = (rc1, h1)"
    and r: "store_blob (power_cut (flash_tick (h_flash h) + 17) P) s pin name g uuid data h = Some (rc, h')"
  shows "rc1 = 0" "flash_mem (h_flash h') = flash_mem (h_flash h1)" "rc = - 1"
proof -
  let ?n = "flash_tick (h_flash h) + 17" and ?names = "(h_names h)[unat s := new_name_entry name g]"
  let ?P = "power_cut ?n P"
  note good = platform_goodD [OF P]
  have ok: "names_ok ?names" using h new_name_ok [OF arg(2)] by (simp add: hsm_ok_def names_ok_update)
  obtain fl where f: "flush_name_table P ?names (h_flash h) = (rc1, fl)" and h1: "h1 = h\<lparr>h_flash := fl, h_names := ?names\<rparr>"
    by (rule do_save_name_eq [OF n s])
  note c = cut_flush_names_same [OF good(4) ok f]
  show "rc1 = 0" by (rule c(2))
  have n': "do_save_name ?P s name g h = (0, h1)" by (simp add: do_save_name_def save_name_cases [OF s] c(1) h1)
  have after: "rc2 \<noteq> SECURE_BLOB_STORE_OK \<and> flash_mem (h_flash h2) = flash_mem fl \<and> ?n \<le> flash_tick (h_flash h2)"
    if "do_blob_write ?P s data uuid (pin_hash ?P (take 6 pin)) (ucast g) h1 = Some (rc2, h2)" for rc2 h2
  proof -
    from that obtain fl2 tr b where w: "blob_write ?P s data uuid (pin_hash ?P (take 6 pin)) (ucast g) fl (h_trng h) (h_blob h)
        = Some (rc2, fl2, tr, b)" and h2: "h_flash h2 = fl2" by (auto simp: do_blob_write_def bind_eq_Some_conv h1)
    have "?n \<le> flash_tick fl" using c(3) by simp
    from cut_write_nothing(1-3) [OF good(1) s arg(3) this w] show ?thesis by (simp add: h2)
  qed
  have clear: "flash_mem (h_flash h3) = flash_mem (h_flash h2)" if "do_clear_name ?P s h2 = (rc3, h3)" "?n \<le> flash_tick (h_flash h2)" for h2 h3 rc3
    using that by (auto simp: do_clear_name_def clear_name_cases [OF s] flush_name_table_def cut_erase_after)
  have "secrets_ok ?P" "6 \<le> length pin" using good(1) arg(1) by simp_all
  from this r have "flash_mem (h_flash h') = flash_mem fl \<and> rc = - 1"
  proof (cases rule: store_blob_cases)
    case (1 h1 rc1)
    with n' show ?thesis by simp
  next
    case (2 ha h2 h3 rc2 rc3)
    with n' after [of rc2 h2] clear [OF 2(4)] show ?thesis by simp
  next
    case (3 ha)
    with n' after show ?thesis by fastforce
  qed
  then show "flash_mem (h_flash h') = flash_mem (h_flash h1)" "rc = - 1" by (simp_all add: h1)
qed

section \<open>After the reset\<close>

lemma same_store_blob:
  assumes "same_store h h'" "slot_is_valid s" "blob_holds P (h_flash h) (h_blob h) s uuid owner g data"
  shows "blob_holds P (h_flash h') (h_blob h') s uuid owner g data"
proof -
  have "blob_stored P (h_flash h') s hd dt" if "blob_stored P (h_flash h) s hd dt" for hd dt
    by (rule blob_stored_frame [OF that]) (use assms(1) slot_not_pin [OF assms(2)] in \<open>auto simp: same_store_def same_flash_def\<close>)
  with assms show ?thesis by (auto simp: blob_holds_def same_store_def)
qed

text \<open>The flash then is that of a device which saved the name and stored nothing.\<close>

lemma cut_restarts:
  assumes P: "platform_good P" and pin0: "6 \<le> length (provisioned_pin P)" and h: "represents P h v" "spec_reset P v = v"
    and f: "v_files v s = Some f" and arg: "length pin = 6" "length name = 32" "length data \<le> 8192"
    and r: "store_blob (power_cut (flash_tick (h_flash h) + 17) P) s pin name g uuid data h = Some (rc, h')"
    and b: "boot dbg P (h_flash h') tr u = Some d"
  shows "hsm_ok (d_hsm d)" "g_pin_hash (h_pin (d_hsm d)) = v_pin v" "name_of s (d_hsm d) = new_name_entry name g"
    and "blob_holds P (h_flash (d_hsm d)) (h_blob (d_hsm d)) s (sf_uuid f) (sf_owner f) (ucast (sf_group f)) (sf_data f)"
    and "rc = - 1" "slot_is_valid s"
proof -
  note good = platform_goodD [OF P] and fa = represents_file [OF h(1) f]
  note s = file_at_occupied(2) [OF fa]
  have ok: "hsm_ok h" and sync: "tables_synced h" and kept: "pin_kept h" using h(1) by (simp_all add: represents_def)
  obtain rc1 h1 where n: "do_save_name P s name g h = (rc1, h1)" by fastforce
  note c = cut_after_name [OF P ok s arg n r]
  obtain fl where fn: "flush_name_table P ((h_names h)[unat s := new_name_entry name g]) (h_flash h) = (rc1, fl)"
    and h1: "h1 = h\<lparr>h_flash := fl, h_names := (h_names h)[unat s := new_name_entry name g]\<rparr>" by (rule do_save_name_eq [OF n s])
  have fat: "fat_pg.holds (g_fat (h_blob h)) (h_flash h)" using sync by (simp add: tables_synced_def)
  note k = update_name_keeps [OF good(3) ok new_name_ok [OF arg(2)] s fn h1]
  let ?x = "h1\<lparr>h_flash := h_flash h'\<rparr>"
  have same: "same_store h1 ?x" using c(2) by (simp add: same_store_def same_flash_def)
  have x: "hsm_ok ?x" "tables_synced ?x" "name_of s ?x = new_name_entry name g"
    using k(1,3) tables_synced_same [OF k(4) [OF c(1) fat] same] same_store_name [OF same] by (simp_all add: hsm_ok_def)
  have "same_pin_page h h1" by (rule same_pin_page_save [OF good(3) ok arg(2) n])
  also have "same_pin_page h1 ?x" using c(2) by (simp add: same_pin_page_def)
  finally have sp: "same_pin_page h ?x" .
  have p: "pin_kept ?x" "g_pin_hash (h_pin ?x) = v_pin v"
    using kept same_pin_page_kept [OF sp] sp h(1) by (simp_all add: same_pin_page_def represents_def)
  have "boot dbg P (h_flash ?x) tr u = Some d" using b by simp
  note br = boot_restores [OF P pin0 x(1,2) p(1) this]
  have d: "same_store ?x (d_hsm d)" "hsm_ok (d_hsm d)" using br by simp_all
  have "g_pin_hash (h_pin (d_hsm d)) = v_pin (spec_reset P v)" using br p(2) by (simp add: spec_reset_def)
  then have d3: "g_pin_hash (h_pin (d_hsm d)) = v_pin v" by (simp add: h(2))
  show "hsm_ok (d_hsm d)" "g_pin_hash (h_pin (d_hsm d)) = v_pin v" "rc = - 1" "slot_is_valid s" by (rule d d3 c s)+
  show "name_of s (d_hsm d) = new_name_entry name g" using same_store_name [OF d(1)] x(3) by simp
  have "flash_mem (h_flash (d_hsm d)) a = flash_mem (h_flash h) a" if "in_slot s a" for a
    using that d(1) c(2) slot_not_pin [OF s] name_pg.flush_frame [OF good(3) _ fn slot_not_name [OF s that]]
      names_ok_update [OF hsm_ok_names [OF ok] new_name_ok [OF arg(2)]]
    by (auto simp: same_store_def same_flash_def h1)
  then have "blob_stored P (h_flash (d_hsm d)) s hd dt" if "blob_stored P (h_flash h) s hd dt" for hd dt
    using that by (intro blob_stored_frame [OF that]) blast
  moreover have "g_fat (h_blob (d_hsm d)) = g_fat (h_blob h)" using d(1) by (simp add: same_store_def h1)
  ultimately show "blob_holds P (h_flash (d_hsm d)) (h_blob (d_hsm d)) s (sf_uuid f) (sf_owner f) (ucast (sf_group f)) (sf_data f)"
    using fa by (auto simp: file_at_def holds_file_def blob_holds_def new_name_entry_def)
qed

text \<open>A read goes by the name table's group, whatever the group of the contents.\<close>

lemma read_by_table:
  assumes P: "platform_good P" and h: "hsm_ok h" and s: "slot_is_valid s" and n: "name_of s h = new_name_entry name g"
    and b: "blob_holds P (h_flash h) (h_blob h) s uuid (g_pin_hash (h_pin h)) (ucast g0) data" and g0: "g0 \<noteq> (0 :: u16)"
    and pkt: "7 \<le> length pkt" "pkt ! 6 = s" "pin_matches P (segment 0 6 pkt) (h_pin h)"
    and perm: "validate_permission P g PERM_READ"
  obtains b' where
    "read_cmd P pkt h = return_reply READ_MSG (take 31 name @ [0] @ data) ((attempted P (segment 0 6 pkt) h)\<lparr>h_blob := b'\<rparr>)"
proof -
  let ?h = "attempted P (segment 0 6 pkt) h"
  note good = platform_goodD [OF P] and a = attempted_keeps [OF platform_goodD(3) [OF P] h, of "segment 0 6 pkt"]
  have gate: "pin_gate P (segment 0 6 pkt) h = Some (0, ?h)" using pin_gate_eq [OF good(1) h, of "segment 0 6 pkt"] pkt(3) by simp
  have own: "get_pin_hash P (segment 0 6 pkt) = Some (g_pin_hash (h_pin h))"
    using get_pin_hash_ok [OF good(1), of "segment 0 6 pkt"] pkt(1,3) by (simp add: pin_matches_def)
  have bo: "blob_ok (h_blob ?h)" using a(2) by (simp add: hsm_ok_def)
  note bh = same_store_blob [OF a(1) s b]
  have e: "g_fat (h_blob ?h) ! unat s = blob_entry s uuid (length data)" and len: "length data \<le> 8192"
    using bh by (auto simp: blob_holds_def blob_stored_def)
  have nm: "name_of s ?h = new_name_entry name g" using same_store_name [OF a(1)] n by simp
  have occ: "occupied s ?h"
    using slot_base_word [OF s] nm e s
    by (simp add: occupied_def slot_occupied_iff name_of_def new_name_entry_def slot_is_empty_def blob_entry_def)
  have m: "(0xFFFFFFFF :: u32) AND ucast g0 \<noteq> 0" using full_mask [of g0] g0 by blast
  from blob_write_read_all(1) [OF good(1,2) bo s bh m len order.refl] obtain b' where
    "blob_read_all P s (g_pin_hash (h_pin h)) 0xFFFFFFFF 8192 (h_flash ?h) (h_blob ?h) = (SECURE_BLOB_STORE_OK, data, length data, b')" by blast
  moreover have "name_of s (?h\<lparr>h_blob := b'\<rparr>) = new_name_entry name g" using nm by (simp add: name_of_def)
  ultimately have "read_cmd P pkt h = return_reply READ_MSG (take 31 name @ [0] @ data) (?h\<lparr>h_blob := b'\<rparr>)"
    using pkt(1,2) gate own occ perm nm
    by (simp add: read_cmd_def READ_COMMAND_SIZE_def MAX_CONTENTS_SIZE_def Let_def new_name_entry_def)
  then show thesis by (rule that)
qed

lemma reply_acked:
  assumes "host_acks (length buf) (h_uart h) rest" "needs_ack type"
  shows "return_reply type buf h = Some (0, h\<lparr>h_uart := add_tx 0 (msg_header type (of_nat (length buf)) @ buf) (set_rx 0 rest (h_uart h))\<rparr>)"
  using write_packet_acked [of CONTROL_INTERFACE "h_uart h" "replicate (frame_blocks (length buf)) ack_frame" rest buf type] assms
  by (simp add: return_reply_def send_def host_acks_def)

lemma mixed_read:
  assumes "platform_good P" "6 \<le> length (provisioned_pin P)" "represents P h v" "spec_reset P v = v"
    and "v_files v s = Some f" "sf_owner f = v_pin v" "sf_group f \<noteq> 0" "\<not> validate_permission P (sf_group f) PERM_READ"
    and "length pin = 6" "length name = 32" "length data \<le> 8192" "validate_permission P g PERM_READ"
    and "store_blob (power_cut (flash_tick (h_flash h) + 17) P) s pin name g uuid data h = Some (rc, h1)"
    and "boot dbg P (h_flash h1) tr u = Some d"
    and "7 \<le> length pkt" "pkt ! 6 = s" "opens P (segment 0 6 pkt) v"
  shows "\<exists>b. read_cmd P pkt ((d_hsm d)\<lparr>h_uart := u'\<rparr>) = return_reply READ_MSG (take 31 name @ [0] @ sf_data f)
    ((attempted P (segment 0 6 pkt) ((d_hsm d)\<lparr>h_uart := u'\<rparr>))\<lparr>h_blob := b\<rparr>)"
proof -
  note c = cut_restarts [OF assms(1-5,9-11,13,14)]
  let ?h = "(d_hsm d)\<lparr>h_uart := u'\<rparr>"
  have h: "hsm_ok ?h" "name_of s ?h = new_name_entry name g"
    "blob_holds P (h_flash ?h) (h_blob ?h) s (sf_uuid f) (g_pin_hash (h_pin ?h)) (ucast (sf_group f)) (sf_data f)"
    "pin_matches P (segment 0 6 pkt) (h_pin ?h)"
    using c(1-4) assms(6,17) by (simp_all add: hsm_ok_def name_of_def pin_matches_def opens_def)
  from read_by_table [OF assms(1) h(1) c(6) h(2,3) assms(7,15,16) h(4) assms(12)] show ?thesis by blast
qed

section \<open>Property\<close>

text \<open>
  C17: A loss of power between the name table and the slot, in a write that is permitted, lets the
  next \<^verbatim>\<open>READ\<close> give out the old contents under the new file's name and group, although the
  device may not read the group of these contents and refused them before: the command succeeds,
  and every byte of the contents goes out to a host that acknowledges.
\<close>

theorem power_loss_mixes_groups:
  assumes "platform_good P" "6 \<le> length (provisioned_pin P)" "represents P h v" "spec_reset P v = v"
    and "v_files v s = Some f" "sf_owner f = v_pin v" "sf_group f \<noteq> 0" "\<not> validate_permission P (sf_group f) PERM_READ"
    and "length pin = 6" "length name = 32" "length data \<le> 8192" "validate_permission P g PERM_READ"
    and "store_blob (power_cut (flash_tick (h_flash h) + 17) P) s pin name g uuid data h = Some (rc, h1)"
    and "boot dbg P (h_flash h1) tr u = Some d"
    and "7 \<le> length pkt" "pkt ! 6 = s" "opens P (segment 0 6 pkt) v" "h2 = (d_hsm d)\<lparr>h_uart := u'\<rparr>"
    and "host_acks (32 + length (sf_data f)) u' rest"
  shows "fst (spec_read P pkt v) = Refused ''Invalid permission'' \<and>
    (\<exists>h3. read_cmd P pkt h2 = Some (0, h3) \<and> h_uart h3 = add_tx 0
       (msg_header READ_MSG (of_nat (32 + length (sf_data f))) @ take 31 name @ [0] @ sf_data f) (set_rx 0 rest u'))"
proof
  let ?ans = "take 31 name @ [0] @ sf_data f"
  from mixed_read [OF assms(1-17), of u'] assms(18) obtain b where
    r: "read_cmd P pkt h2 = return_reply READ_MSG ?ans ((attempted P (segment 0 6 pkt) h2)\<lparr>h_blob := b\<rparr>)" by blast
  have n: "length ?ans = 32 + length (sf_data f)" using assms(10) by simp
  have "host_acks (length ?ans) (h_uart ((attempted P (segment 0 6 pkt) h2)\<lparr>h_blob := b\<rparr>)) rest"
    using assms(18,19) unfolding n by simp
  from reply_acked [OF this commands_need_acks(2)] r assms(18)
  show "\<exists>h3. read_cmd P pkt h2 = Some (0, h3) \<and> h_uart h3 = add_tx 0
      (msg_header READ_MSG (of_nat (32 + length (sf_data f))) @ ?ans) (set_rx 0 rest u')" unfolding n by simp
  show "fst (spec_read P pkt v) = Refused ''Invalid permission''"
    using assms(5,8,15-17) by (simp add: spec_read_def)
qed

text \<open>
  Group 7 of the reference platform may be written and not read. Its file in slot 2 is to be
  replaced by one of group 5.
\<close>

lemma store_blob_returns:
  assumes "secrets_ok P" "length pin = 6" "slot_is_valid s" "3 \<le> length (trng_words (trng_polls (h_trng h)))"
  shows "\<exists>r. store_blob P s pin name g uuid data h = Some r"
proof -
  obtain rc h1 where n: "do_save_name P s name g h = (rc, h1)" by fastforce
  then have "h_trng h1 = h_trng h" using assms(3) by (auto elim: do_save_name_eq)
  with assms(4) blob_write_returns obtain r where
    "blob_write P s data uuid (pin_hash P pin) (ucast g) (h_flash h1) (h_trng h1) (h_blob h1) = Some r" by metis
  then show ?thesis
    using n get_pin_hash_ok [OF assms(1), of pin] assms(2)
    by (cases r) (simp add: store_blob_def do_blob_write_def PIN_LENGTH_def split: prod.split)
qed

definition ref_drop :: stored_file where
  "ref_drop = \<lparr>sf_name = replicate 31 98 @ [0], sf_group = 7, sf_uuid = replicate 16 1, sf_owner = g_pin_hash ref_pin,
     sf_data = [10, 20, 30]\<rparr>"

lemma ref_drop_stored:
  obtains h where "represents ref_platform h (put_file 2 ref_drop ref_vault)" "h_trng h = ref_trng"
proof -
  let ?h = "ref_hsm []"
  have pin: "pin_hash ref_platform [49, 50, 51, 52, 53, 54] = g_pin_hash ref_pin" by (simp add: ref_pin_def)
  have "3 \<le> length (trng_words (trng_polls (h_trng ?h)))" using ref_trng_words by (simp add: ref_hsm_def)
  from store_blob_returns [OF ref_ok(1) _ ref_slot_2 this, of "[49, 50, 51, 52, 53, 54]" "replicate 32 98" 7 "replicate 16 1" "[10, 20, 30]"]
  obtain rc h' where "store_blob ref_platform 2 [49, 50, 51, 52, 53, 54] (replicate 32 98) 7 (replicate 16 1) [10, 20, 30] ?h = Some (rc, h')"
    by auto
  from store_sim [OF ref_platform_good ref_represents ref_slot_2 _ _ _ _ this] pin
  have "represents ref_platform h' (put_file 2 ref_drop ref_vault)" by (simp add: ref_drop_def)
  from that [OF represents_trng [OF this, of ref_trng]] show thesis by simp
qed

lemma power_loss_mixes_groups_witness:
  "\<exists>h rc h1 d h2 h3. represents ref_platform h (put_file 2 ref_drop ref_vault) \<and>
     store_blob (power_cut (flash_tick (h_flash h) + 17) ref_platform) 2 [49, 50, 51, 52, 53, 54] (replicate 32 97) 5 (replicate 16 2) [1] h
       = Some (rc, h1) \<and>
     boot False ref_platform (h_flash h1) ref_boot_trng (ref_line []) = Some d \<and> h_flash h2 = h_flash (d_hsm d) \<and>
     read_cmd ref_platform ref_read_pkt h2 = Some (0, h3) \<and>
     uart_tx (h_uart h3) 0 = msg_header READ_MSG 35 @ replicate 31 97 @ [0, 10, 20, 30]"
proof -
  let ?v = "put_file 2 ref_drop ref_vault" and ?acks = "concat (replicate (frame_blocks 35) ack_frame)"
  obtain h where h: "represents ref_platform h ?v" "h_trng h = ref_trng" by (rule ref_drop_stored)
  let ?P = "power_cut (flash_tick (h_flash h) + 17) ref_platform"
  have w: "3 \<le> length (trng_words (trng_polls (h_trng h)))" "secrets_ok ?P" using ref_trng_words h(2) ref_ok(1) by simp_all
  from store_blob_returns [OF w(2) _ ref_slot_2 w(1), of "[49, 50, 51, 52, 53, 54]" "replicate 32 97" 5 "replicate 16 2" "[1]"]
  obtain rc h1 where s: "store_blob ?P 2 [49, 50, 51, 52, 53, 54] (replicate 32 97) 5 (replicate 16 2) [1] h = Some (rc, h1)" by auto
  have t: "trng_polls ref_boot_trng = [TrngReady 1, TrngReady 2, TrngReady 3, TrngReady 4]" by (simp add: ref_boot_trng_def)
  obtain d where b: "boot False ref_platform (h_flash h1) ref_boot_trng (ref_line []) = Some d" using boot_returns [OF t] by blast
  have pins: "provisioned_pin ref_platform = [49, 50, 51, 52, 53, 54]" "v_pin ?v = pin_hash ref_platform [49, 50, 51, 52, 53, 54]"
    by (simp_all add: provisioned_pin_def ref_platform_def PIN_MAX_LEN_def put_file_def ref_vault_def ref_pin_def)
  have f: "v_files ?v 2 = Some ref_drop" "sf_owner ref_drop = v_pin ?v" "sf_group ref_drop \<noteq> 0"
    by (simp_all add: put_file_def ref_drop_def ref_vault_def)
  have p: "\<not> validate_permission ref_platform (sf_group ref_drop) PERM_READ"
    by (simp add: ref_drop_def validate_permission_def ref_platform_def ref_permissions_def MAX_PERMS_def)
  have v: "spec_reset ref_platform ?v = ?v" "opens ref_platform (segment 0 6 ref_read_pkt) ?v"
    using pins by (simp_all add: spec_reset_def opens_def ref_read_parts)
  let ?h2 = "(d_hsm d)\<lparr>h_uart := ref_line ?acks\<rparr>"
  have pkt: "7 \<le> length ref_read_pkt" "ref_read_pkt ! 6 = 2" by (simp_all add: ref_read_parts)
  have arg: "length [49 :: byte, 50, 51, 52, 53, 54] = 6" "length (replicate 32 (97 :: byte)) = 32" "length [1 :: byte] \<le> 8192" by simp_all
  have k: "host_acks (32 + length (sf_data ref_drop)) (ref_line ?acks) []"
    using ref_acks [of ?acks] by (simp add: host_acks_def ref_hsm_def ref_drop_def)
  from power_loss_mixes_groups [OF ref_platform_good ref_provisioned h(1) v(1) f p arg ref_permitted(2) s b pkt v(2) refl k]
  obtain h3 where c: "read_cmd ref_platform ref_read_pkt ?h2 = Some (0, h3)"
    and u: "h_uart h3 = add_tx 0 (msg_header READ_MSG 35 @ take 31 (replicate 32 97) @ [0, 10, 20, 30]) (set_rx 0 [] (ref_line ?acks))"
    by (auto simp: ref_drop_def)
  have "uart_tx (h_uart h3) 0 = msg_header READ_MSG 35 @ replicate 31 97 @ [0, 10, 20, 30]"
    by (simp add: u ref_line_def)
  moreover have "h_flash ?h2 = h_flash (d_hsm d)" by simp
  ultimately show ?thesis using h(1) s b c by blast
qed

end
