(* ===== verification/Ledger.thy ===== *)
theory Ledger
  imports PowerLoss
begin

text \<open>
  The books of a device whose flash may stop at any command, by a power loss after which it
  boots, or for a moment. A \<open>ledger\<close> records the PINs that were ever set and every file whose
  storing was ever permitted; nothing is taken out of it. It is a function of the log of the
  device: \<open>ledger_next\<close> says what each event enters, a write the file of its packet and an
  import the file of the last frame heard. The device keeps within it (\<open>within\<close>): what a slot is
  called, what it reads as and for whom, and which PIN is accepted are in the ledger, after any
  sequence of commands, outages and boots. It may lose files, and show one recorded name over
  another recorded content, but it never makes up or mixes the bytes of a file. A flash command
  that fails is taken to change nothing (\<open>flash_clean\<close>): bytes left at random in the PIN page or
  in the name table are accepted as what they say.
\<close>

record ledger =
  l_pins :: "byte list set"
  l_files :: "(byte \<times> stored_file) set"

definition new_ledger :: "platform \<Rightarrow> ledger" where
  "new_ledger P = \<lparr>l_pins = {pin_hash P (provisioned_pin P)}, l_files = {}\<rparr>"

definition record_file :: "byte \<Rightarrow> stored_file \<Rightarrow> ledger \<Rightarrow> ledger" where
  "record_file slot f L = L\<lparr>l_files := insert (slot, f) (l_files L)\<rparr>"

text \<open>
  What an event enters. A command enters its file before it is known whether the flash holds it,
  and whatever the host is told: the supply may be lost at any point of it.
\<close>

definition enter_write :: "platform \<Rightarrow> byte list \<Rightarrow> ledger \<Rightarrow> ledger" where
  "enter_write P pkt L =
     (let cmd = un_write_command pkt
      in if 59 \<le> length pkt \<and> pin_hash P (wc_pin cmd) \<in> l_pins L \<and> validate_permission P (wc_group_id cmd) PERM_WRITE \<and>
            unat (wc_contents_len cmd) \<le> length pkt - 59 \<and> slot_is_valid (wc_slot cmd)
         then record_file (wc_slot cmd) (written_file P cmd) L else L)"

definition enter_receive :: "platform \<Rightarrow> byte list \<Rightarrow> byte list \<Rightarrow> ledger \<Rightarrow> ledger" where
  "enter_receive P pkt hrd L =
     (case peer_response hrd of
        None \<Rightarrow> L
      | Some resp \<Rightarrow>
          if RECEIVE_COMMAND_SIZE \<le> length pkt \<and> pin_hash P (segment 0 6 pkt) \<in> l_pins L \<and>
             importable P resp \<and> slot_is_valid (pkt ! 7)
          then record_file (pkt ! 7) (imported_file P pkt resp) L else L)"

definition enter_pin :: "platform \<Rightarrow> byte list \<Rightarrow> ledger \<Rightarrow> ledger" where
  "enter_pin P pkt L =
     (if 12 \<le> length pkt \<and> pin_hash P (segment 0 6 pkt) \<in> l_pins L
      then L\<lparr>l_pins := insert (pin_hash P (segment 6 6 pkt)) (l_pins L)\<rparr> else L)"

fun ledger_next :: "bool \<Rightarrow> platform \<Rightarrow> event \<Rightarrow> ledger \<Rightarrow> ledger" where
  "ledger_next dbg P (Command cmd pkt hrd tld) L =
     (if cmd = WRITE_MSG then enter_write P pkt L
      else if cmd = RECEIVE_MSG then enter_receive P pkt hrd L
      else if dbg \<and> cmd = CHANGE_PIN_MSG then enter_pin P pkt L
      else L)"
| "ledger_next dbg P BadFrame L = L"
| "ledger_next dbg P Reset L = L"
| "ledger_next dbg P NewInput L = L"

section \<open>A device within a ledger\<close>

definition platform_clean :: "platform \<Rightarrow> bool" where
  "platform_clean P \<longleftrightarrow> secrets_ok P \<and> gcm_ok P \<and> flash_ok P \<and> flash_clean P"

lemma platform_cleanD:
  "platform_clean P \<Longrightarrow> secrets_ok P" "platform_clean P \<Longrightarrow> gcm_ok P" "platform_clean P \<Longrightarrow> flash_ok P"
  "platform_clean P \<Longrightarrow> flash_clean P"
  by (simp_all add: platform_clean_def)

text \<open>Whatever can be read of a slot is a recorded file's data, under its owner and group.\<close>

definition slot_recorded :: "platform \<Rightarrow> (byte \<times> stored_file) set \<Rightarrow> flash_dev \<Rightarrow> byte \<Rightarrow> bool" where
  "slot_recorded P F fl k \<longleftrightarrow> (\<forall>h d. blob_stored P fl k h d \<longrightarrow>
     (\<exists>f. (k, f) \<in> F \<and> sf_data f = d \<and> sf_owner f = hdr_owner_pin_hash h \<and> ucast (sf_group f) = hdr_group_mask h))"

definition entry_recorded :: "(byte \<times> stored_file) set \<Rightarrow> byte \<Rightarrow> fat_entry \<Rightarrow> bool" where
  "entry_recorded F k e \<longleftrightarrow> fat_flash_addr e = SECURE_BLOB_EMPTY_U32 \<or>
     (\<exists>f. (k, f) \<in> F \<and> e = blob_entry k (sf_uuid f) (length (sf_data f)))"

definition name_recorded :: "(byte \<times> stored_file) set \<Rightarrow> byte \<Rightarrow> name_entry \<Rightarrow> bool" where
  "name_recorded F k e \<longleftrightarrow> ne_in_use e \<noteq> NAME_IN_USE_TAG \<or>
     (\<exists>f. (k, f) \<in> F \<and> e = new_name_entry (sf_name f) (sf_group f))"

text \<open>The tables of a boot, and those in RAM, with the slots they make readable.\<close>

definition table_recorded :: "platform \<Rightarrow> (byte \<times> stored_file) set \<Rightarrow> flash_dev \<Rightarrow> fat_entry list \<Rightarrow> name_entry list \<Rightarrow> bool" where
  "table_recorded P F fl fat names \<longleftrightarrow> (\<forall>k. slot_is_valid k \<longrightarrow>
     entry_recorded F k (fat ! unat k) \<and> name_recorded F k (names ! unat k) \<and>
     (fat_flash_addr (fat ! unat k) \<noteq> SECURE_BLOB_EMPTY_U32 \<longrightarrow> slot_recorded P F fl k))"

lemma slot_recorded_frame:
  assumes "slot_recorded P F fl k" "\<And>a. in_slot k a \<Longrightarrow> flash_mem fl' a = flash_mem fl a"
  shows "slot_recorded P F fl' k"
  unfolding slot_recorded_def
proof (intro allI impI)
  fix h d assume "blob_stored P fl' k h d"
  then have "blob_stored P fl k h d" by (rule blob_stored_frame) (simp add: assms(2))
  with assms(1) show "\<exists>f. (k, f) \<in> F \<and> sf_data f = d \<and> sf_owner f = hdr_owner_pin_hash h \<and> ucast (sf_group f) = hdr_group_mask h"
    by (simp add: slot_recorded_def)
qed

lemma recorded_mono:
  assumes "F \<subseteq> G"
  shows "slot_recorded P F fl k \<Longrightarrow> slot_recorded P G fl k" "entry_recorded F k e \<Longrightarrow> entry_recorded G k e"
    "name_recorded F k n \<Longrightarrow> name_recorded G k n"
  using assms unfolding slot_recorded_def entry_recorded_def name_recorded_def by blast+

lemma table_recordedD:
  assumes "table_recorded P F fl fat names" "slot_is_valid k"
  shows "entry_recorded F k (fat ! unat k)" "name_recorded F k (names ! unat k)"
    and "fat_flash_addr (fat ! unat k) \<noteq> SECURE_BLOB_EMPTY_U32 \<Longrightarrow> slot_recorded P F fl k"
  using assms by (simp_all add: table_recorded_def)

lemma table_recorded_mono:
  assumes "F \<subseteq> G" "table_recorded P F fl fat names"
  shows "table_recorded P G fl fat names"
  using table_recordedD [OF assms(2)] recorded_mono [OF assms(1)] by (simp add: table_recorded_def)

text \<open>
  Tables whose entries come from two recorded pairs of tables, or are empty, over slots that
  did not change.
\<close>

lemma table_recorded_mix:
  assumes t: "table_recorded P F fl fat0 names0" "table_recorded P F fl fat1 names1"
    and mem: "\<And>k a. slot_is_valid k \<Longrightarrow> in_slot k a \<Longrightarrow> flash_mem fl' a = flash_mem fl a"
    and fat: "\<And>k. k < 8 \<Longrightarrow> fat ! k = fat0 ! k \<or> fat ! k = fat1 ! k \<or> fat_flash_addr (fat ! k) = SECURE_BLOB_EMPTY_U32"
    and names: "\<And>k. k < 8 \<Longrightarrow> names ! k = names0 ! k \<or> names ! k = names1 ! k \<or> ne_in_use (names ! k) \<noteq> NAME_IN_USE_TAG"
  shows "table_recorded P F fl' fat names"
  unfolding table_recorded_def
proof (intro allI impI conjI)
  fix k assume k: "slot_is_valid k"
  note d = table_recordedD [OF t(1) k] table_recordedD [OF t(2) k]
  from k have "unat k < 8" by (simp add: valid_slot)
  note c = fat [OF this] names [OF this]
  show "entry_recorded F k (fat ! unat k)" using c(1) d(1,4) by (auto simp: entry_recorded_def)
  show "name_recorded F k (names ! unat k)" using c(2) d(2,5) by (auto simp: name_recorded_def)
  assume "fat_flash_addr (fat ! unat k) \<noteq> SECURE_BLOB_EMPTY_U32"
  with c(1) d(3,6) have "slot_recorded P F fl k" by auto
  then show "slot_recorded P F fl' k" by (rule slot_recorded_frame) (rule mem [OF k])
qed

lemma table_recorded_frame:
  assumes "table_recorded P F fl fat names" "\<And>k a. slot_is_valid k \<Longrightarrow> in_slot k a \<Longrightarrow> flash_mem fl' a = flash_mem fl a"
  shows "table_recorded P F fl' fat names"
  by (rule table_recorded_mix [OF assms(1,1,2)]) simp_all

text \<open>One slot rewritten.\<close>

lemma table_recorded_slot:
  assumes t: "table_recorded P F fl fat names" and s: "slot_recorded P F fl' s"
    and mem: "\<And>k a. slot_is_valid k \<Longrightarrow> k \<noteq> s \<Longrightarrow> in_slot k a \<Longrightarrow> flash_mem fl' a = flash_mem fl a"
  shows "table_recorded P F fl' fat names"
  unfolding table_recorded_def
proof (intro allI impI conjI)
  fix k assume k: "slot_is_valid k"
  note d = table_recordedD [OF t k]
  show "entry_recorded F k (fat ! unat k)" "name_recorded F k (names ! unat k)" by (rule d)+
  assume "fat_flash_addr (fat ! unat k) \<noteq> SECURE_BLOB_EMPTY_U32"
  from d(3) [OF this] have "slot_recorded P F fl k" .
  with s show "slot_recorded P F fl' k" using slot_recorded_frame mem [OF k] by (cases "k = s") blast+
qed

text \<open>One entry replaced by a recorded one.\<close>

lemma table_recorded_entry:
  assumes "table_recorded P F fl fat names" "slot_is_valid s" "length fat = 8" "entry_recorded F s e"
    "fat_flash_addr e \<noteq> SECURE_BLOB_EMPTY_U32 \<Longrightarrow> slot_recorded P F fl s"
  shows "table_recorded P F fl (fat[unat s := e]) names"
  using assms by (auto simp: table_recorded_def valid_slot nth_list_update dest!: word_unat_eq_iff [THEN iffD2])

lemma table_recorded_name:
  assumes "table_recorded P F fl fat names" "slot_is_valid s" "length names = 8" "name_recorded F s e"
  shows "table_recorded P F fl fat (names[unat s := e])"
  using assms by (auto simp: table_recorded_def valid_slot nth_list_update dest!: word_unat_eq_iff [THEN iffD2])

text \<open>The tables in flash and the tables in RAM.\<close>

definition store_recorded :: "platform \<Rightarrow> (byte \<times> stored_file) set \<Rightarrow> flash_dev \<Rightarrow> blob_state \<Rightarrow> name_entry list \<Rightarrow> bool" where
  "store_recorded P F fl b names \<longleftrightarrow> blob_ok b \<and> names_ok names \<and>
     table_recorded P F fl (read_fat fl) (load_name_table fl) \<and> table_recorded P F fl (g_fat b) names"

lemma store_recordedI:
  "blob_ok b \<Longrightarrow> names_ok names \<Longrightarrow> table_recorded P F fl (read_fat fl) (load_name_table fl) \<Longrightarrow>
   table_recorded P F fl (g_fat b) names \<Longrightarrow> store_recorded P F fl b names"
  by (simp add: store_recorded_def)

lemma store_recordedD:
  assumes "store_recorded P F fl b names"
  shows "blob_ok b" "names_ok names" "table_recorded P F fl (read_fat fl) (load_name_table fl)"
    "table_recorded P F fl (g_fat b) names" "length (g_fat b) = 8" "length names = 8"
  using assms by (simp_all add: store_recorded_def blob_ok_def fat_ok_def names_ok_def)

lemma store_recorded_mono: "F \<subseteq> G \<Longrightarrow> store_recorded P F fl b names \<Longrightarrow> store_recorded P G fl b names"
  using table_recorded_mono [of F G] by (auto simp: store_recorded_def)

lemma store_recorded_mem:
  assumes "store_recorded P F fl b names" "flash_mem fl' = flash_mem fl"
  shows "store_recorded P F fl' b names"
proof -
  have "read_fat fl' = read_fat fl" "load_name_table fl' = load_name_table fl"
    using read_fat_cong [of fl' fl] load_names_cong [of fl' fl] assms(2) by simp_all
  moreover have "table_recorded P F fl' fat ns" if "table_recorded P F fl fat ns" for fat ns
    using that by (rule table_recorded_frame) (simp add: assms(2))
  ultimately show ?thesis using assms(1) by (simp add: store_recorded_def)
qed

section \<open>Updates within the ledger\<close>

lemma recorded_flush_names:
  assumes P: "flash_ok P" "flash_clean P" and r: "store_recorded P F fl b names"
    and s: "slot_is_valid s" "name_ok e" "name_recorded F s e"
    and f: "flush_name_table P (names[unat s := e]) fl = (rc, fl')"
  shows "store_recorded P F fl' b (names[unat s := e])" "pin_load fl' = pin_load fl"
proof -
  let ?names = "names[unat s := e]"
  note d = store_recordedD [OF r]
  have ok: "names_ok ?names" by (rule names_ok_update [OF d(2) s(2)])
  note fr = name_pg.flush_frame [OF P(1) ok f]
  have ram: "table_recorded P F fl (g_fat b) ?names" by (rule table_recorded_name [OF d(4) s(1) d(6) s(3)])
  have mem: "flash_mem fl' a = flash_mem fl a" if "slot_is_valid k" "in_slot k a" for k a
    using fr slot_not_name [OF that] .
  have fat: "read_fat fl' = read_fat fl"
    by (rule read_fat_cong, rule fr) (simp add: sector_of_def SECURE_BLOB_STORE_FAT_ADDR_def)
  show "store_recorded P F fl' b ?names"
  proof (rule store_recordedI [OF d(1) ok])
    show "table_recorded P F fl' (read_fat fl') (load_name_table fl')"
    proof (rule table_recorded_mix [OF d(3) ram mem])
      show "load_name_table fl' ! k = load_name_table fl ! k \<or> load_name_table fl' ! k = ?names ! k \<or>
          ne_in_use (load_name_table fl' ! k) \<noteq> NAME_IN_USE_TAG" if "k < 8" for k
        using clean_name_flush [OF P ok f that] by (auto simp: NAME_IN_USE_TAG_def)
    qed (simp_all add: fat)
    show "table_recorded P F fl' (g_fat b) ?names" using ram mem by (rule table_recorded_frame)
  qed
  show "pin_load fl' = pin_load fl" by (rule pin_load_cong, rule fr) (rule pin_page_apart)
qed

lemma recorded_commit:
  assumes P: "flash_ok P" "flash_clean P" and r: "store_recorded P F fl b names"
    and s: "slot_is_valid s" "length (fat_uuid e) = 16" "entry_recorded F s e"
      "fat_flash_addr e \<noteq> SECURE_BLOB_EMPTY_U32 \<Longrightarrow> slot_recorded P F fl s"
    and c: "commit_fat_entry P s e fl b = (rc, fl', b')"
  shows "store_recorded P F fl' b' names" "pin_load fl' = pin_load fl"
proof -
  let ?fat = "(g_fat b)[unat s := e]"
  note d = store_recordedD [OF r]
  have ok: "fat_ok ?fat" using d(1) s(2) by (simp add: blob_ok_def fat_ok_update)
  from c commit_fat_entry_flush [OF d(1) s(2,1), of P fl] obtain rc1 where f: "fat_flush P ?fat fl = (rc1, fl')"
    and b': "b' = b \<or> b' = b\<lparr>g_fat := ?fat\<rparr>" by (auto split: prod.splits if_splits)
  note fr = fat_pg.flush_frame [OF P(1) ok f]
  have ram: "table_recorded P F fl ?fat names" by (rule table_recorded_entry [OF d(4) s(1) d(5) s(3,4)])
  have mem: "flash_mem fl' a = flash_mem fl a" if "slot_is_valid k" "in_slot k a" for k a
    using fr slot_not_fat [OF that] .
  have names: "load_name_table fl' = load_name_table fl"
    by (rule load_names_cong, rule fr) (simp add: sector_of_def SECURE_BLOB_STORE_FAT_ADDR_def)
  show "store_recorded P F fl' b' names"
  proof (rule store_recordedI [OF _ d(2)])
    show "blob_ok b'" using b' d(1) ok by (auto simp: blob_ok_def)
    show "table_recorded P F fl' (read_fat fl') (load_name_table fl')"
      by (rule table_recorded_mix [OF d(3) ram mem _ disjI1]) (use clean_fat_flush [OF P ok f] in \<open>simp_all add: names\<close>)
    show "table_recorded P F fl' (g_fat b') names"
      using b' table_recorded_frame [OF ram mem] table_recorded_frame [OF d(4) mem] by auto
  qed
  show "pin_load fl' = pin_load fl" by (rule pin_load_cong, rule fr) (rule pin_page_apart)
qed

text \<open>The data pages of one slot.\<close>

lemma recorded_slot:
  assumes r: "store_recorded P F fl b names" and s: "slot_is_valid s"
    and w: "flash_mem fl' = flash_mem fl \<or> slot_recorded P F fl' s"
    and fr: "\<And>a. \<not> in_slot s a \<Longrightarrow> flash_mem fl' a = flash_mem fl a"
  shows "store_recorded P F fl' b names" "pin_load fl' = pin_load fl"
proof -
  note d = store_recordedD [OF r]
  have mem: "flash_mem fl' a = flash_mem fl a" if "slot_is_valid k" "k \<noteq> s" "in_slot k a" for k a
    using fr slots_disjoint [OF that(3), of s] that(2) by blast
  have same: "read_fat fl' = read_fat fl" "load_name_table fl' = load_name_table fl"
    by (rule read_fat_cong, rule fr, use slot_not_fat [OF s] in blast)
       (rule load_names_cong, rule fr, use slot_not_name [OF s] in blast)
  show "store_recorded P F fl' b names"
  proof (cases "flash_mem fl' = flash_mem fl")
    case True
    then show ?thesis by (rule store_recorded_mem [OF r])
  next
    case False
    with w have "table_recorded P F fl' fat ns" if "table_recorded P F fl fat ns" for fat ns
      using that mem by (blast intro: table_recorded_slot)
    with d same show ?thesis by (simp add: store_recorded_def)
  qed
  show "pin_load fl' = pin_load fl" by (rule pin_load_cong, rule fr) (use slot_not_pin [OF s] in blast)
qed

text \<open>Only the PIN page changes.\<close>

lemma recorded_pin_page:
  assumes r: "store_recorded P F fl b names" and fr: "\<And>a. \<not> sector_of PIN_STATE_FLASH_ADDR a \<Longrightarrow> flash_mem fl' a = flash_mem fl a"
  shows "store_recorded P F fl' b names"
proof -
  note d = store_recordedD [OF r]
  have "table_recorded P F fl' fat ns" if "table_recorded P F fl fat ns" for fat ns
    using that by (rule table_recorded_frame) (use fr slot_not_pin in blast)
  moreover have "read_fat fl' = read_fat fl"
    by (rule read_fat_cong, rule fr) (simp add: sector_of_def SECURE_BLOB_STORE_FAT_ADDR_def)
  moreover have "load_name_table fl' = load_name_table fl" by (rule load_names_cong, rule fr) (simp add: sector_of_def)
  ultimately show ?thesis using d by (simp add: store_recorded_def)
qed

lemma recorded_data:
  assumes P: "platform_clean P" and r: "store_recorded P F fl b names"
    and s: "slot_is_valid s" and f: "(s, f) \<in> F" "length (sf_owner f) = 32" "length (sf_data f) \<le> 8192"
    and h: "h = blob_new_header s (sf_owner f) (ucast (sf_group f)) nonce (length (sf_data f))" "length nonce = 12"
    and w: "blob_store_data P s h (build_aad h) (file_key P (ucast (sf_group f))) (sf_data f) fl = (rc, fl')"
  shows "store_recorded P F fl' b names \<and> pin_load fl' = pin_load fl" "rc = SECURE_BLOB_STORE_OK \<Longrightarrow> slot_recorded P F fl' s"
proof -
  note ok = platform_cleanD [OF P] and hd = new_header_ok [OF f(2) h(2) f(3), of s "ucast (sf_group f)", folded h(1)]
  have k: "file_key P (hdr_group_mask h) = file_key P (ucast (sf_group f))" by (simp add: h(1))
  have t: "rc \<noteq> SECURE_BLOB_STORE_OK \<and> flash_mem fl' = flash_mem fl \<or> slot_recorded P F fl' s"
    using torn_slot [OF ok(3,4,2) f(3) hd w [folded k]] f(1) by (auto simp: slot_recorded_def h(1))
  then show "rc = SECURE_BLOB_STORE_OK \<Longrightarrow> slot_recorded P F fl' s" by blast
  have "flash_mem fl' = flash_mem fl \<or> slot_recorded P F fl' s" using t by blast
  from recorded_slot [OF r s this] blob_store_data_frame [OF ok(3,2) hd(1) f(3) w]
  show "store_recorded P F fl' b names \<and> pin_load fl' = pin_load fl" by blast
qed

lemma recorded_blob_write:
  assumes P: "platform_clean P" and r: "store_recorded P F fl b names"
    and s: "slot_is_valid s" and f: "(s, f) \<in> F" "length (sf_owner f) = 32" "length (sf_data f) \<le> 8192" "length (sf_uuid f) = 16"
    and w: "blob_write P s (sf_data f) (sf_uuid f) (sf_owner f) (ucast (sf_group f)) fl tr b = Some (rc, fl', tr', b')"
  shows "store_recorded P F fl' b' names \<and> pin_load fl' = pin_load fl"
  using platform_cleanD(1) [OF P] f(3) find_own_slot [OF s] w
proof (cases rule: blob_write_steps)
  case (2 nonce h rc1 fl1)
  let ?b = "b\<lparr>g_aad := build_aad h\<rparr>"
  note d = recorded_data [OF P r s f(1-3) 2(4,3,5)]
  have r1: "store_recorded P F fl1 ?b names" using d(1) by (simp add: store_recorded_def)
  show ?thesis
  proof (cases "rc1 = SECURE_BLOB_STORE_OK")
    case True
    have e: "entry_recorded F s (blob_entry s (sf_uuid f) (length (sf_data f)))" using f(1) by (auto simp: entry_recorded_def)
    have "length (fat_uuid (blob_entry s (sf_uuid f) (length (sf_data f)))) = 16" using f(4) by (simp add: blob_entry_def)
    from recorded_commit [OF platform_cleanD(3,4) [OF P] r1 s this e d(2) [OF True]] True 2(6) d(1) show ?thesis by simp
  next
    case False
    with 2(6) r1 d(1) show ?thesis by simp
  qed
qed (use r in simp)

lemma recorded_delete:
  assumes P: "platform_clean P" and r: "store_recorded P F fl b names" and d: "blob_delete P s fl b = (rc, fl', b')"
  shows "store_recorded P F fl' b' names \<and> pin_load fl' = pin_load fl"
proof (cases "slot_is_valid s \<and> \<not> slot_is_empty s b")
  case True
  note ok = platform_cleanD [OF P]
  have e: "store_recorded P F fl1 b names" "pin_load fl1 = pin_load fl" if "erase_slot_pages P s fl = (rc1, fl1)" for rc1 fl1
  proof -
    have "flash_mem fl1 = flash_mem fl \<or> slot_recorded P F fl1 s"
      using clean_erase_slot [OF ok(3,4) that] blank_header by (auto simp: slot_recorded_def)
    from recorded_slot [OF r _ this] True erase_slot_frame [OF ok(3) that]
    show "store_recorded P F fl1 b names" "pin_load fl1 = pin_load fl" by blast+
  qed
  from d True [THEN conjunct1] True [THEN conjunct2] show ?thesis
  proof (cases rule: blob_delete_cases)
    case (2 fl1)
    from recorded_commit [OF ok(3,4) e(1) [OF 2(1)] True [THEN conjunct1] _ _ _ 2(2)] e(2) [OF 2(1)]
    show ?thesis by (simp add: entry_recorded_def)
  qed (use e in simp)
qed (use d r in \<open>auto simp: blob_delete_def split: if_splits\<close>)

section \<open>Commands within the ledger\<close>

definition pin_recorded :: "ledger \<Rightarrow> pin_state \<Rightarrow> bool" where
  "pin_recorded L s \<longleftrightarrow> length (g_pin_hash s) = 32 \<and> (g_initialized s \<longrightarrow> g_pin_hash s \<in> l_pins L)"

definition pins_recorded :: "platform \<Rightarrow> ledger \<Rightarrow> flash_dev \<Rightarrow> bool" where
  "pins_recorded P L fl \<longleftrightarrow> pin_hash P (provisioned_pin P) \<in> l_pins L \<and>
     fst (pin_load fl) \<in> insert (replicate 32 0xFF) (l_pins L)"

definition within :: "platform \<Rightarrow> ledger \<Rightarrow> hsm \<Rightarrow> bool" where
  "within P L h \<longleftrightarrow> platform_clean P \<and> replay_inv (h_replay h) \<and> pin_recorded L (h_pin h) \<and> pins_recorded P L (h_flash h) \<and>
     store_recorded P (l_files L) (h_flash h) (h_blob h) (h_names h)"

lemma withinI:
  "platform_clean P \<Longrightarrow> replay_inv (h_replay h) \<Longrightarrow> pin_recorded L (h_pin h) \<Longrightarrow> pins_recorded P L (h_flash h) \<Longrightarrow>
   store_recorded P (l_files L) (h_flash h) (h_blob h) (h_names h) \<Longrightarrow> within P L h"
  by (simp add: within_def)

lemma withinD:
  assumes "within P L h"
  shows "platform_clean P" "replay_inv (h_replay h)" "pin_recorded L (h_pin h)" "pins_recorded P L (h_flash h)"
    "store_recorded P (l_files L) (h_flash h) (h_blob h) (h_names h)"
  using assms by (simp_all add: within_def)

lemma within_files:
  assumes "within P L h"
  shows "within P (record_file slot f L) h"
proof -
  have "l_files L \<subseteq> insert (slot, f) (l_files L)" by blast
  from store_recorded_mono [OF this] assms show ?thesis
    by (simp add: within_def record_file_def pins_recorded_def pin_recorded_def)
qed

lemma within_write_entered: "within P L h \<Longrightarrow> within P (enter_write P pkt L) h"
  by (simp add: enter_write_def Let_def within_files)

lemma within_receive_entered: "within P L h \<Longrightarrow> within P (enter_receive P pkt hrd L) h"
  by (simp add: enter_receive_def within_files split: option.split)

lemma within_pins: "within P L h \<Longrightarrow> within P (L\<lparr>l_pins := insert p (l_pins L)\<rparr>) h"
  by (auto simp: within_def pins_recorded_def pin_recorded_def)

text \<open>Storing, and the name before and after it.\<close>

lemma within_store:
  assumes "within P L h" "store_recorded P (l_files L) fl b ns" "pin_load fl = pin_load (h_flash h)"
  shows "within P L (h\<lparr>h_flash := fl, h_trng := tr, h_blob := b, h_names := ns\<rparr>)"
    and "ns = h_names h \<Longrightarrow> within P L (h\<lparr>h_flash := fl, h_trng := tr, h_blob := b\<rparr>)"
    and "ns = h_names h \<Longrightarrow> within P L (h\<lparr>h_flash := fl, h_blob := b\<rparr>)"
    and "b = h_blob h \<Longrightarrow> within P L (h\<lparr>h_flash := fl, h_names := ns\<rparr>)"
  using assms by (simp_all add: within_def pins_recorded_def)

lemma within_say [simp]: "within P L (say m h) = within P L h"
  by (simp add: within_def say_def)

lemma within_name:
  assumes h: "within P L h" and s: "slot_is_valid s" "name_ok e" "name_recorded (l_files L) s e"
    and f: "flush_name_table P ((h_names h)[unat s := e]) (h_flash h) = (rc, fl)"
  shows "within P L (h\<lparr>h_flash := fl, h_names := (h_names h)[unat s := e]\<rparr>)"
  using recorded_flush_names [OF platform_cleanD(3,4) [OF withinD(1) [OF h]] withinD(5) [OF h] s f] within_store(4) [OF h] by blast

lemma within_clear:
  assumes "within P L h" "slot_is_valid s" "do_clear_name P s h = (rc, h')"
  shows "within P L h'"
  using assms(3,2)
proof (rule do_clear_name_eq)
  fix fl assume "flush_name_table P ((h_names h)[unat s := name_erased]) (h_flash h) = (rc, fl)"
    and h': "h' = h\<lparr>h_flash := fl, h_names := (h_names h)[unat s := name_erased]\<rparr>"
  from within_name [OF assms(1,2) _ _ this(1)] h' show "within P L h'" by (simp add: name_recorded_def NAME_IN_USE_TAG_def)
qed

lemma within_save:
  assumes "within P L h" "slot_is_valid s" "(s, f) \<in> l_files L" "sf_name f = take 31 name @ [0]" "length name = 32"
    and "do_save_name P s name (sf_group f) h = (rc, h')"
  shows "within P L h'"
  using assms(6,2)
proof (rule do_save_name_eq)
  let ?e = "new_name_entry name (sf_group f)"
  have "?e = new_name_entry (sf_name f) (sf_group f)" using assms(4,5) by (simp add: new_name_entry_def)
  with assms(3) have e: "name_recorded (l_files L) s ?e" by (auto simp: name_recorded_def)
  fix fl assume "flush_name_table P ((h_names h)[unat s := ?e]) (h_flash h) = (rc, fl)"
    and h': "h' = h\<lparr>h_flash := fl, h_names := (h_names h)[unat s := ?e]\<rparr>"
  from within_name [OF assms(1,2) new_name_ok [OF assms(5)] e this(1)] h' show "within P L h'" by simp
qed

lemma within_blob_write:
  assumes h: "within P L h" and s: "slot_is_valid s" and f: "(s, f) \<in> l_files L" "length (sf_owner f) = 32" "length (sf_data f) \<le> 8192"
      "length (sf_uuid f) = 16"
    and w: "do_blob_write P s (sf_data f) (sf_uuid f) (sf_owner f) (ucast (sf_group f)) h = Some (rc, h')"
  shows "within P L h'"
proof -
  from w obtain fl tr b where w': "blob_write P s (sf_data f) (sf_uuid f) (sf_owner f) (ucast (sf_group f)) (h_flash h) (h_trng h) (h_blob h)
      = Some (rc, fl, tr, b)" and h': "h' = h\<lparr>h_flash := fl, h_trng := tr, h_blob := b\<rparr>"
    by (auto simp: do_blob_write_def bind_eq_Some_conv)
  from recorded_blob_write [OF withinD(1) [OF h] withinD(5) [OF h] s f w'] within_store(2) [OF h] show ?thesis by (simp add: h')
qed

lemma within_store_blob:
  assumes h: "within P L h" and s: "slot_is_valid slot"
    and arg: "length pin = 6" "length name = 32" "length uuid = 16" "length data \<le> 8192"
    and f: "f = \<lparr>sf_name = take 31 name @ [0], sf_group = g, sf_uuid = uuid, sf_owner = pin_hash P pin, sf_data = data\<rparr>"
    and r: "store_blob P slot pin name g uuid data h = Some (rc, h')"
  shows "within P (record_file slot f L) h'"
proof -
  let ?L = "record_file slot f L"
  have hh: "within P ?L h" by (rule within_files [OF h])
  have m: "(slot, f) \<in> l_files ?L" by (simp add: record_file_def)
  have sel: "sf_name f = take 31 name @ [0]" "sf_group f = g" "sf_owner f = pin_hash P (take 6 pin)" "sf_uuid f = uuid" "sf_data f = data"
    using f arg(1) by simp_all
  have saved: "within P ?L h1" if "do_save_name P slot name g h = (rc1, h1)" for rc1 h1
    using within_save [OF hh s m sel(1) arg(2)] that sel(2) by simp
  have wrote: "within P ?L h2" if "within P ?L h1" "do_blob_write P slot data uuid (pin_hash P (take 6 pin)) (ucast g) h1 = Some (rc2, h2)"
    for h1 rc2 h2
    using within_blob_write [OF that(1) s m] that(2) sel arg by simp
  have pin: "6 \<le> length pin" using arg(1) by simp
  from platform_cleanD(1) [OF withinD(1) [OF h]] pin r show ?thesis
  proof (cases rule: store_blob_cases)
    case (1 h1 rc1)
    with saved show ?thesis by simp
  next
    case (2 h1 h2 h3 rc2 rc3)
    from within_clear [OF wrote [OF saved [OF 2(1)] 2(2)] s 2(4)] 2(6) show ?thesis by simp
  next
    case (3 h1)
    from wrote [OF saved [OF 3(1)] 3(3)] show ?thesis .
  qed
qed

lemma within_pin_flush:
  assumes h: "within P L h" and x: "x \<in> l_pins L" "length x = 32" and s: "pin_recorded L s"
    and f: "pin_flush P (x, c) (h_flash h) = (rc, fl)"
  shows "within P L (h\<lparr>h_flash := fl, h_pin := s\<rparr>)"
proof -
  note d = withinD [OF h] and ok = platform_cleanD [OF withinD(1) [OF h]]
  have "store_recorded P (l_files L) fl (h_blob h) (h_names h)"
    by (rule recorded_pin_page [OF d(5)]) (rule pin_flush_frame [OF ok(3) _ f], simp_all add: x)
  moreover have "fst (pin_load fl) \<in> {fst (pin_load (h_flash h)), x, replicate 32 0xFF}"
    using clean_pin_flush [OF ok(3,4) _ f] x(2) by simp
  then have "pins_recorded P L fl" using d(4) x(1) by (auto simp: pins_recorded_def)
  ultimately show ?thesis using d s by (simp add: within_def)
qed

lemma within_pin_state:
  "within P L h \<Longrightarrow> pin_recorded L s \<Longrightarrow> within P L (h\<lparr>h_flash := h_flash h, h_pin := s\<rparr>)"
  by (simp add: within_def)

lemma within_check_pin:
  assumes h: "within P L h" and c: "check_pin P pin (h_flash h) (h_pin h) = (ok, fl, s)"
  shows "within P L (h\<lparr>h_flash := fl, h_pin := s\<rparr>)" "ok \<Longrightarrow> pin_hash P (take 6 pin) \<in> l_pins L"
proof -
  have P: "secrets_ok P" using withinD(1) [OF h] by (rule platform_cleanD)
  note rec = withinD(3) [OF h]
  have s: "pin_recorded L s" using rec check_pin_hash [OF c] by (simp add: pin_recorded_def)
  have "within P L (h\<lparr>h_flash := fl, h_pin := s\<rparr>) \<and> (ok \<longrightarrow> pin_hash P (take 6 pin) \<in> l_pins L)"
  proof (cases "g_initialized (h_pin h)")
    case True
    with rec have pin: "pin_ok (h_pin h)" and x: "g_pin_hash (h_pin h) \<in> l_pins L" "length (g_pin_hash (h_pin h)) = 32"
      by (simp_all add: pin_recorded_def pin_ok_def)
    note cc = c [unfolded check_pin_cases [OF P pin]]
    have "ok \<longrightarrow> pin_hash P (take 6 pin) \<in> l_pins L" using cc x(1) by (auto simp: pin_matches_def split: if_splits)
    moreover from cc have "fl = h_flash h \<or> (\<exists>n. fl = snd (pin_flush P (g_pin_hash (h_pin h), n) (h_flash h)))"
      by (auto split: if_splits)
    then have "within P L (h\<lparr>h_flash := fl, h_pin := s\<rparr>)"
      using within_pin_state [OF h s] within_pin_flush [OF h x s] by (metis prod.collapse)
    ultimately show ?thesis by simp
  next
    case False
    with c within_pin_state [OF h s] show ?thesis by (auto simp: check_pin_uninit)
  qed
  then show "within P L (h\<lparr>h_flash := fl, h_pin := s\<rparr>)" "ok \<Longrightarrow> pin_hash P (take 6 pin) \<in> l_pins L" by simp_all
qed

lemma within_gate:
  assumes h: "within P L h" and g: "pin_gate P (segment 0 6 pkt) h = Some (rc, h')"
  shows "within P L h' \<and> (rc = 0 \<longrightarrow> pin_hash P (segment 0 6 pkt) \<in> l_pins L)"
proof -
  obtain ok fl s where c: "check_pin P (segment 0 6 pkt) (h_flash h) (h_pin h) = (ok, fl, s)" by (metis prod_cases3)
  with g within_check_pin [OF h c] show ?thesis by (auto simp: pin_gate_def do_check_pin_def pin_is_locked_def split: if_splits)
qed

text \<open>The PINs that open a device within the ledger are recorded ones: the contract of a session.\<close>

definition pin_in_ledger :: "platform \<Rightarrow> byte list \<Rightarrow> ledger \<Rightarrow> bool" where
  "pin_in_ledger P pin L \<longleftrightarrow> pin_hash P pin \<in> l_pins L"

interpretation ledger_calls: session within pin_in_ledger record_file False
proof
  fix P L h assume h: "within P L h"
  show "within P L (h\<lparr>h_uart := u\<rparr>)" "within P L (h\<lparr>h_trng := tr\<rparr>)" for u tr using h by (simp_all add: within_def)
  show "secrets_ok P \<and> blob_ok (h_blob h) \<and> replay_inv (h_replay h)"
    using withinD [OF h] store_recordedD(1) platform_cleanD(1) by blast
  show "within P L (h\<lparr>h_replay := c\<rparr>)" if "replay_inv c" for c using h that by (simp add: within_def)
  show "within P L (h\<lparr>h_blob := b\<rparr>)" if "blob_ok b" "g_fat b = g_fat (h_blob h)" for b
    using h that by (simp add: within_def store_recorded_def)
  show "within P L h' \<and> (rc = 0 \<longrightarrow> pin_in_ledger P (segment 0 6 pkt) L)" if "pin_gate P (segment 0 6 pkt) h = Some (rc, h')" for pkt rc h'
    using within_gate [OF h that] by (simp add: pin_in_ledger_def)
qed (simp add: within_store_blob)

lemma within_write:
  assumes h: "within P L h" and len: "length pkt \<le> 8251"
  shows "keeps (within P (enter_write P pkt L)) (write_cmd P pkt h)"
  using h refl
proof (rule ledger_calls.keeps_write)
  show "within P (enter_write P pkt L) h" if "within P L h" for h using that by (rule within_write_entered)
  let ?c = "un_write_command pkt"
  let ?data = "take (unat (wc_contents_len ?c)) (wc_contents ?c)"
  fix h1 assume h1: "within P L h1" and pin: "pin_in_ledger P (segment 0 6 pkt) L" and ok: "59 \<le> length pkt"
    "validate_permission P (wc_group_id ?c) PERM_WRITE" "unat (wc_contents_len ?c) \<le> length pkt - 59"
  note parts = write_parts [OF ok(1)]
  have d: "length ?data \<le> 8192" using ok(3) len by (auto simp: min_def)
  show "keeps (within P (enter_write P pkt L))
      (store_blob P (wc_slot ?c) (wc_pin ?c) (wc_name ?c) (wc_group_id ?c) (wc_uuid ?c) ?data h1)"
  proof (cases "slot_is_valid (wc_slot ?c)")
    case True
    then have "enter_write P pkt L = record_file (wc_slot ?c) (written_file P ?c) L"
      using pin ok by (simp add: enter_write_def Let_def pin_in_ledger_def wc_pin_eq)
    with within_store_blob [OF h1 True parts d refl] show ?thesis by (auto simp: keeps_def written_file_def)
  next
    case False
    with store_blob_invalid [of P "wc_slot ?c" "wc_pin ?c"] parts(1) platform_cleanD(1) [OF withinD(1) [OF h1]] h1
    show ?thesis by (auto simp: keeps_def intro: within_write_entered)
  qed
qed

lemma within_delete:
  assumes h: "within P L h"
  shows "keeps (within P L) (delete_file P pkt h)"
proof (rule ledger_calls.keeps_delete [OF h])
  fix h1 rc fl b assume h1: "within P L h1" and d: "blob_delete P (pkt ! 6) (h_flash h1) (h_blob h1) = (rc, fl, b)"
  from recorded_delete [OF withinD(1) [OF h1] withinD(5) [OF h1] d] within_store(3) [OF h1]
  show "within P L (h1\<lparr>h_flash := fl, h_blob := b\<rparr>)" by blast
qed (rule within_clear)

lemma within_pin_entered: "within P L h \<Longrightarrow> within P (enter_pin P pkt L) h"
  by (simp add: enter_pin_def within_pins)

lemma within_pin_change:
  assumes h: "within P L h" and len: "12 \<le> length pkt"
    and c: "pin_change P (segment 0 6 pkt) (segment 6 6 pkt) (h_flash h) (h_pin h) = (rc, fl, s)"
  shows "within P (enter_pin P pkt L) (h\<lparr>h_flash := fl, h_pin := s\<rparr>)"
proof (cases "g_initialized (h_pin h)")
  case True
  let ?x = "g_pin_hash (h_pin h)" and ?y = "pin_hash P (segment 6 6 pkt)"
  from True withinD(3) [OF h] have pin: "pin_ok (h_pin h)" and x: "?x \<in> l_pins L" "length ?x = 32"
    by (simp_all add: pin_recorded_def pin_ok_def)
  have n: "length (segment 0 6 pkt) = 6" "length (segment 6 6 pkt) = 6" using len by simp_all
  note cc = c [unfolded pin_change_cases [OF platform_cleanD(1) [OF withinD(1) [OF h]] pin, of "segment 0 6 pkt" "segment 6 6 pkt",
    simplified n, simplified]]
  show ?thesis
  proof (cases "pin_matches P (segment 0 6 pkt) (h_pin h)")
    case True
    let ?L = "L\<lparr>l_pins := insert ?y (l_pins L)\<rparr>"
    from True x len have "enter_pin P pkt L = ?L" by (simp add: enter_pin_def pin_matches_def)
    moreover have "pin_recorded ?L s" "pin_flush P (?y, 0) (h_flash h) = (rc, fl)"
      using cc True by (auto simp: pin_recorded_def prod_eq_iff)
    from within_pin_flush [OF within_pins [OF h] _ _ this] have "within P ?L (h\<lparr>h_flash := fl, h_pin := s\<rparr>)" by simp
    ultimately show ?thesis by simp
  next
    case False
    have "pin_recorded L s" "fl = snd (pin_flush P (?x, g_fail_count (h_pin h) + 1) (h_flash h))"
      using cc False x by (auto simp: pin_recorded_def)
    then have "within P L (h\<lparr>h_flash := fl, h_pin := s\<rparr>)" using within_pin_flush [OF h x] by (metis prod.collapse)
    then show ?thesis by (rule within_pin_entered)
  qed
next
  case False
  with c have "fl = h_flash h" "s = h_pin h" by (simp_all add: pin_change_def)
  with within_pin_entered [OF within_pin_state [OF h withinD(3) [OF h]]] show ?thesis by simp
qed

lemma within_change_pin:
  assumes h: "within P L h"
  shows "keeps (within P (enter_pin P pkt L)) (change_pin P pkt h)"
  using within_pin_change [OF h] by (intro ledger_calls.keeps_change [OF h]) (auto intro: within_pin_entered)

text \<open>An import enters the file of the last frame heard, whether or not it was stored.\<close>

lemma within_imported:
  assumes "ledger_calls.received P L pkt u0 h"
  shows "within P (enter_receive P pkt (heard 1 u0 (h_uart h)) L) h"
proof -
  from assms obtain bs where t: "took 1 bs u0 (h_uart h)" and c: "within P L h \<or>
      (\<exists>resp. peer_response bs = Some resp \<and> RECEIVE_COMMAND_SIZE \<le> length pkt \<and> pin_hash P (segment 0 6 pkt) \<in> l_pins L \<and>
         importable P resp \<and> slot_is_valid (pkt ! 7) \<and> within P (record_file (pkt ! 7) (imported_file P pkt resp) L) h)"
    by (auto simp: ledger_calls.received_def pin_in_ledger_def)
  from c show ?thesis
    unfolding heard_took [OF t]
  proof
    show "within P (enter_receive P pkt bs L) h" if "within P L h" using that by (rule within_receive_entered)
  qed (auto simp: enter_receive_def)
qed

interpretation ledger: loop_session within pin_in_ledger record_file False dbg "ledger_next dbg" for dbg
proof
  fix P L h pkt rc h' hrd tld dbg assume h: "within P L h"
  show "within P (ledger_next dbg P (Command WRITE_MSG pkt hrd tld) L) h'" if "length pkt \<le> 8251" "write_cmd P pkt h = Some (rc, h')"
    using keepsD [OF within_write [OF h that(1)] that(2)] by simp
  show "within P (ledger_next dbg P (Command DELETE_FILE_MSG pkt hrd tld) L) h'" if "dbg" "delete_file P pkt h = Some (rc, h')"
    using keepsD [OF within_delete [OF h] that(2)] by simp
  show "within P (ledger_next dbg P (Command CHANGE_PIN_MSG pkt hrd tld) L) h'" if "dbg" "change_pin P pkt h = Some (rc, h')"
    using keepsD [OF within_change_pin [OF h] that(2)] that(1) by simp
qed (auto simp: within_imported)

end
