(* ===== verification/Outage.thy ===== *)
theory Outage
  imports Ledger
begin

text \<open>
  The life of a device whose flash may stop at any command, by a loss of power after which it
  boots, or for a moment (\<open>outage_event\<close>). Every boot finds a flash within the ledger and every
  round keeps within what its event enters, so a log of the device determines a ledger that it
  is within. On a release build the ledger holds one PIN and only files of permitted groups,
  each of which came in an event of the log.
\<close>

section \<open>Boot, and outages\<close>

definition flash_recorded :: "platform \<Rightarrow> ledger \<Rightarrow> flash_dev \<Rightarrow> bool" where
  "flash_recorded P L fl \<longleftrightarrow> pins_recorded P L fl \<and> table_recorded P (l_files L) fl (read_fat fl) (load_name_table fl)"

lemma within_flash: "within P L h \<Longrightarrow> flash_recorded P L (h_flash h)"
  by (simp add: within_def flash_recorded_def store_recorded_def)

text \<open>The boot's part of the PIN module keeps the flash, and holds no PIN but a recorded one.\<close>

lemma recorded_pin_init:
  assumes P: "platform_clean P" and r: "flash_recorded P L fl" and i: "pin_init P fl pin_state_reset = (rc, fl', s)"
  shows "flash_recorded P L fl'" "pin_recorded L s"
proof -
  let ?x = "pin_hash P (provisioned_pin P)"
  note ok = platform_cleanD [OF P]
  have x: "?x \<in> l_pins L" "fst (pin_load fl) \<in> insert (replicate 32 0xFF) (l_pins L)"
    using r by (simp_all add: flash_recorded_def pins_recorded_def)
  have len: "length (fst (pin_load fl)) = 32" by (rule pin_load_blank_hash)
  have same: "flash_recorded P L fl1" if f: "pin_flush P (?x, 0) fl = (rc1, fl1)" for rc1 fl1
  proof -
    have fr: "flash_mem fl1 a = flash_mem fl a" if "\<not> sector_of PIN_STATE_FLASH_ADDR a" for a
      by (rule pin_flush_frame [OF ok(3) _ f that]) simp
    have "fst (pin_load fl1) \<in> {fst (pin_load fl), ?x, replicate 32 0xFF}" using clean_pin_flush [OF ok(3,4) _ f] by simp
    with x have "pins_recorded P L fl1" by (auto simp: pins_recorded_def)
    moreover have "read_fat fl1 = read_fat fl"
      by (rule read_fat_cong, rule fr) (simp add: sector_of_def SECURE_BLOB_STORE_FAT_ADDR_def)
    moreover have "load_name_table fl1 = load_name_table fl" by (rule load_names_cong, rule fr) (simp add: sector_of_def)
    moreover have "table_recorded P (l_files L) fl1 (read_fat fl) (load_name_table fl)"
      by (rule table_recorded_frame [OF _ fr [OF slot_not_pin]]) (use r in \<open>simp_all add: flash_recorded_def\<close>)
    ultimately show ?thesis by (simp add: flash_recorded_def)
  qed
  note c = i [unfolded pin_init_cases [OF ok(1)]]
  obtain rc1 fl1 where f: "pin_flush P (?x, 0) fl = (rc1, fl1)" by fastforce
  have "flash_recorded P L fl' \<and> pin_recorded L s"
  proof (cases "fst (pin_load fl) = replicate 32 0xFF")
    case True
    with c f same [OF f] r x show ?thesis
      by (auto simp: pin_recorded_def pin_state_reset_def Let_def split: if_splits)
  next
    case False
    with c r x len show ?thesis by (auto simp: pin_recorded_def)
  qed
  then show "flash_recorded P L fl'" "pin_recorded L s" by simp_all
qed

lemma recorded_init:
  assumes P: "platform_clean P" and r: "flash_recorded P L fl" and i: "init P (power_on fl tr u) = Some d"
  shows "within P L (d_hsm d)"
proof -
  obtain rc fl1 s where p: "pin_init P fl pin_state_reset = (rc, fl1, s)" by (metis prod_cases3)
  note pr = recorded_pin_init [OF P r p]
  define b where "b = blob_reset\<lparr>g_fat := read_fat fl1, blob_initialized := True\<rparr>"
  have b: "blob_ok b" "g_fat b = read_fat fl1" using reset_state read_fat_ok by (simp_all add: b_def blob_ok_def)
  have s: "store_recorded P (l_files L) fl1 b (load_name_table fl1)"
    using pr(1) b load_names_ok by (simp add: flash_recorded_def store_recorded_def)
  have "h_flash (d_hsm d) = fl1 \<and> h_pin (d_hsm d) = s \<and> h_blob (d_hsm d) = b \<and> h_names (d_hsm d) = load_name_table fl1 \<and>
    h_replay (d_hsm d) = replay_reset"
    using i p by (cases "rc = 0") (auto simp: init_def Let_def init_commands_def power_on_def b_def print_error_eq
      blob_store_init_def reset_state split: prod.splits)
  with P pr s reset_state(1) show ?thesis by (simp add: within_def flash_recorded_def)
qed

lemma recorded_boot:
  assumes "platform_clean P" "flash_recorded P L fl" "boot dbg P fl tr u = Some d"
  shows "within P L (d_hsm d)"
  by (rule ledger_calls.inv_boot [OF recorded_init [OF assms(1,2)] assms(3)])

lemma factory_recorded:
  assumes "factory_flash fl"
  shows "flash_recorded P (new_ledger P) fl"
proof -
  note r = factory_read [OF assms]
  have "flash_simple_read SECURE_BLOB_STORE_FAT_ADDR 1024 fl = replicate 1024 0xFF" "flash_simple_read BLOB_NAME_TABLE_ADDR 1024 fl = replicate 1024 0xFF"
    using r by (simp_all add: SECURE_BLOB_STORE_FAT_ADDR_def BLOB_NAME_TABLE_ADDR_def)
  then have "read_fat fl = replicate 8 fat_erased" "load_name_table fl = ref_names"
    using blank_tables_hold [of fl] by (simp_all add: fat_pg.holds_load name_pg.holds_load)
  moreover have "fst (pin_load fl) = replicate 32 0xFF"
    using r [of PIN_STATE_FLASH_ADDR 1024] by (simp add: pin_load_def load_pin_state_def Let_def PIN_STATE_FLASH_ADDR_def segment_def)
  ultimately show ?thesis
    by (simp add: flash_recorded_def pins_recorded_def new_ledger_def table_recorded_def entry_recorded_def name_recorded_def
        ref_names_def valid_slot NAME_IN_USE_TAG_def)
qed

text \<open>
  The supply of a command or a boot: it holds, or it is gone from some flash command on. A
  device that lost its supply does not run on before the next reset; what a round computes
  after the cut is of no effect on the flash, which is all that the reset keeps.
\<close>

definition supplied :: "platform \<Rightarrow> platform \<Rightarrow> bool" where
  "supplied P Q \<longleftrightarrow> Q = P \<or> (\<exists>n. Q = power_cut n P)"

inductive outage_event :: "bool \<Rightarrow> platform \<Rightarrow> device \<Rightarrow> event \<Rightarrow> device \<Rightarrow> bool" for dbg P d where
  out_round: "supplied P Q \<Longrightarrow> round_event dbg Q d e d' \<Longrightarrow> outage_event dbg P d e d'"
| out_reset: "supplied P Q \<Longrightarrow> boot dbg Q (h_flash (d_hsm d)) tr u = Some d' \<Longrightarrow> outage_event dbg P d Reset d'"
| out_input: "outage_event dbg P d NewInput (d\<lparr>d_hsm := with_input rx ps (d_hsm d)\<rparr>)"

inductive_cases outage_eventE: "outage_event dbg P d e d'"

text \<open>What is in the flash, and what may enter the ledger, does not depend on the supply.\<close>

lemma cut_pins [simp]: "pins_recorded (power_cut n P) = pins_recorded P"
  by (simp add: fun_eq_iff pins_recorded_def)

lemma cut_tables [simp]: "table_recorded (power_cut n P) = table_recorded P"
  by (simp add: fun_eq_iff table_recorded_def slot_recorded_def)

lemma cut_stores [simp]: "store_recorded (power_cut n P) = store_recorded P"
  by (simp add: fun_eq_iff store_recorded_def)

lemma cut_platform: "platform_clean P \<Longrightarrow> platform_clean (power_cut n P)"
  by (simp add: platform_clean_def cut_ok cut_clean)

lemma cut_ledger [simp]: "ledger_next dbg (power_cut n P) = ledger_next dbg P"
proof -
  have [simp]: "written_file (power_cut n P) c = written_file P c" "imported_file (power_cut n P) pkt resp = imported_file P pkt resp"
    "importable (power_cut n P) resp = importable P resp" for c pkt resp
    by (simp_all add: written_file_def imported_file_def importable_def)
  have "ledger_next dbg (power_cut n P) e L = ledger_next dbg P e L" for e L
    by (cases e) (auto simp: enter_write_def enter_receive_def enter_pin_def Let_def split: option.split)
  then show ?thesis by (simp add: fun_eq_iff)
qed

lemma supplied_within:
  assumes "supplied P Q" "platform_clean P"
  shows "platform_clean Q" "within Q L h \<longleftrightarrow> within P L h" "flash_recorded Q L fl = flash_recorded P L fl"
    "ledger_next dbg Q = ledger_next dbg P"
  using assms cut_platform [OF assms(2)] by (auto simp: supplied_def within_def flash_recorded_def)

lemma outage_matched:
  assumes w: "within P L (d_hsm d)" and s: "outage_event dbg P d e d'"
  shows "within P (ledger_next dbg P e L) (d_hsm d')"
proof (rule outage_eventE [OF s])
  note P = withinD(1) [OF w]
  show ?thesis if "supplied P Q" "round_event dbg Q d e d'" for Q
  proof -
    note q = supplied_within [OF that(1) P]
    from w have "within Q L (d_hsm d)" by (simp add: q(2))
    from ledger.round_follows [OF this that(2)] show ?thesis by (simp add: q(2,4))
  qed
  show ?thesis if "e = Reset" "supplied P Q" "boot dbg Q (h_flash (d_hsm d)) tr u = Some d'" for Q tr u
  proof -
    note q = supplied_within [OF that(2) P]
    have "flash_recorded Q L (h_flash (d_hsm d))" using within_flash [OF w] by (simp add: q(3))
    from recorded_boot [OF q(1) this that(3)] that(1) show ?thesis by (simp add: q(2))
  qed
  show ?thesis if "e = NewInput" "d' = d\<lparr>d_hsm := with_input rx ps (d_hsm d)\<rparr>" for rx ps
    using w that by (simp add: within_def with_input_def)
qed

interpretation outages: simulation "outage_event dbg P" "ledger_next dbg P" "\<lambda>d L. within P L (d_hsm d)" for dbg P
  by unfold_locales (rule outage_matched)

section \<open>What the ledger says of a device\<close>

text \<open>A read that succeeds, by the owner of a file or, as another device's is served, by the mask alone.\<close>

definition reads :: "platform \<Rightarrow> byte \<Rightarrow> byte list option \<Rightarrow> u32 \<Rightarrow> byte list \<Rightarrow> hsm \<Rightarrow> bool" where
  "reads P slot who m data h \<longleftrightarrow> (\<exists>n b.
     (case who of Some owner \<Rightarrow> blob_read_all P slot owner m 8192 (h_flash h) (h_blob h)
      | None \<Rightarrow> blob_read_all_group_mask P slot m 8192 (h_flash h) (h_blob h)) = (SECURE_BLOB_STORE_OK, data, n, b))"

text \<open>The slot reads as the file and as nothing else: its data, for its owner, with a mask that has its group.\<close>

definition reads_as :: "platform \<Rightarrow> byte \<Rightarrow> stored_file \<Rightarrow> hsm \<Rightarrow> bool" where
  "reads_as P slot f h \<longleftrightarrow> (\<forall>who m data. reads P slot who m data h \<longleftrightarrow>
     data = sf_data f \<and> (who = None \<or> who = Some (sf_owner f)) \<and> m AND ucast (sf_group f) \<noteq> 0)"

definition from_ledger :: "platform \<Rightarrow> ledger \<Rightarrow> hsm \<Rightarrow> bool" where
  "from_ledger P L h \<longleftrightarrow>
     (\<forall>pin. fst (check_pin P pin (h_flash h) (h_pin h)) \<longrightarrow> pin_hash P (take 6 pin) \<in> l_pins L) \<and>
     (\<forall>slot. occupied slot h \<longrightarrow> (\<exists>f. (slot, f) \<in> l_files L \<and> name_of slot h = new_name_entry (sf_name f) (sf_group f))) \<and>
     (\<forall>slot who m data. reads P slot who m data h \<longrightarrow> (\<exists>f. (slot, f) \<in> l_files L \<and> reads_as P slot f h))"

lemma reads_iff:
  assumes "secrets_ok P" "gcm_ok P" "blob_ok (h_blob h)"
  shows "reads P slot who m data h \<longleftrightarrow>
    (\<exists>hd. load_header slot (h_flash h) (h_blob h) = Inr hd \<and> reader_allowed who m hd \<and> blob_stored P (h_flash h) slot hd data)"
proof -
  have le: "length data \<le> 8192" if "blob_stored P (h_flash h) slot hd data" for hd using that by (simp add: blob_stored_def)
  show ?thesis
    unfolding reads_def
    using blob_read_all_iff [OF assms, of 8192] blob_read_group_iff [OF assms, of 8192] le by (cases who) auto
qed

lemma within_reads:
  assumes w: "within P L h" and r: "reads P slot who m data h"
  shows "\<exists>f. (slot, f) \<in> l_files L \<and> reads_as P slot f h"
proof -
  note P = platform_cleanD [OF withinD(1) [OF w]] and st = store_recordedD [OF withinD(5) [OF w]]
  note iff = reads_iff [OF P(1,2) st(1)]
  from r obtain hd where hd: "load_header slot (h_flash h) (h_blob h) = Inr hd" "blob_stored P (h_flash h) slot hd data"
    by (auto simp: iff)
  note v = load_header_sound(6,7) [OF hd(1)]
  then have "slot_recorded P (l_files L) (h_flash h) slot"
    using table_recordedD(3) [OF st(4), of slot] by (simp add: slot_is_empty_def)
  with hd(2) obtain f where f: "(slot, f) \<in> l_files L" "sf_data f = data" "sf_owner f = hdr_owner_pin_hash hd"
    "ucast (sf_group f) = hdr_group_mask hd" by (auto simp: slot_recorded_def)
  have "blob_stored P (h_flash h) slot hd d' \<longleftrightarrow> d' = data" for d'
    using blob_stored_unique [OF P(1,2) v(1) hd(2)] hd(2) by blast
  then have "reads_as P slot f h"
    by (auto simp: reads_as_def iff hd(1) f(2-4) reader_allowed_def split: option.splits)
  with f(1) show ?thesis by blast
qed

lemma within_from_ledger:
  assumes w: "within P L h"
  shows "from_ledger P L h"
  unfolding from_ledger_def
proof (intro conjI allI impI)
  note st = store_recordedD [OF withinD(5) [OF w]]
  show "pin_hash P (take 6 pin) \<in> l_pins L" if "fst (check_pin P pin (h_flash h) (h_pin h))" for pin
    using within_check_pin(2) [OF w] that by (metis prod.collapse)
  show "\<exists>f. (slot, f) \<in> l_files L \<and> name_of slot h = new_name_entry (sf_name f) (sf_group f)" if "occupied slot h" for slot
  proof -
    from that have "slot_is_valid slot" "ne_in_use (h_names h ! unat slot) = NAME_IN_USE_TAG"
      by (simp_all add: occupied_def slot_occupied_iff)
    with table_recordedD(2) [OF st(4), of slot] show ?thesis by (simp add: name_recorded_def name_of_def)
  qed
qed (rule within_reads [OF w])

lemma outage_life:
  assumes P: "platform_clean P" and fl: "factory_flash fl" and b: "supplied P Q" "boot dbg Q fl tr u = Some d0"
    and run: "logged (outage_event dbg P) d0 es d"
  shows "within P (fold (ledger_next dbg P) es (new_ledger P)) (d_hsm d)"
proof -
  note q = supplied_within [OF b(1) P]
  have "flash_recorded Q (new_ledger P) fl" using factory_recorded [OF fl, of P] by (simp add: q(3))
  from recorded_boot [OF q(1) this b(2)] have "within P (new_ledger P) (d_hsm d0)" by (simp add: q(2))
  from outages.run_matched [OF run this] show ?thesis .
qed

text \<open>
  On a release build: the event brings the file for the slot, under the PIN of \<^verbatim>\<open>secrets.h\<close>, as
  a packet to write it or as the answer to a packet to receive it.
\<close>

definition brings :: "platform \<Rightarrow> event \<Rightarrow> byte \<Rightarrow> stored_file \<Rightarrow> bool" where
  "brings P e slot f \<longleftrightarrow>
     (case e of
        Command cmd pkt hrd tld \<Rightarrow>
          pin_hash P (segment 0 6 pkt) = pin_hash P (provisioned_pin P) \<and>
          (cmd = WRITE_MSG \<and> 59 \<le> length pkt \<and>
             slot = wc_slot (un_write_command pkt) \<and> f = written_file P (un_write_command pkt) \<and>
             validate_permission P (sf_group f) PERM_WRITE \<or>
           cmd = RECEIVE_MSG \<and> RECEIVE_COMMAND_SIZE \<le> length pkt \<and>
             slot = pkt ! 7 \<and> (\<exists>resp. peer_response hrd = Some resp \<and> f = imported_file P pkt resp) \<and>
             validate_permission P (sf_group f) PERM_RECEIVE)
      | _ \<Rightarrow> False)"

lemma file_owner [simp]:
  "sf_owner (written_file P (un_write_command pkt)) = pin_hash P (segment 0 6 pkt)"
  "sf_owner (imported_file P pkt resp) = pin_hash P (segment 0 6 pkt)"
  by (simp_all add: written_file_def wc_pin_eq) (simp add: imported_file_def Let_def)

lemma brought_file:
  assumes "brings P e slot f"
  shows "sf_owner f = pin_hash P (provisioned_pin P)" "validate_permission P (sf_group f) PERM_WRITE \<or> validate_permission P (sf_group f) PERM_RECEIVE"
  using assms by (auto simp: brings_def split: event.splits)

lemma release_ledger_next:
  assumes p: "l_pins L = {pin_hash P (provisioned_pin P)}"
  shows "l_pins (ledger_next False P e L) = l_pins L \<and>
    ((slot, f) \<in> l_files (ledger_next False P e L) \<longrightarrow> (slot, f) \<in> l_files L \<or> brings P e slot f)"
proof (cases e)
  case (Command cmd pkt hrd tld)
  have w: "enter_write P pkt L = L \<or> (\<exists>s g. enter_write P pkt L = record_file s g L \<and> brings P (Command WRITE_MSG pkt hrd tld) s g)"
    by (simp add: enter_write_def brings_def Let_def p wc_pin_eq) (simp add: written_file_def)
  have r: "enter_receive P pkt hrd L = L \<or>
      (\<exists>s g. enter_receive P pkt hrd L = record_file s g L \<and> brings P (Command RECEIVE_MSG pkt hrd tld) s g)"
    by (simp add: enter_receive_def brings_def p split: option.split) (simp add: importable_def imported_file_def Let_def)
  have entered: ?thesis if "ledger_next False P e L = record_file s g L" "brings P e s g" for s g
    using that by (auto simp: record_file_def)
  consider "cmd = WRITE_MSG" | "cmd = RECEIVE_MSG" | "cmd \<noteq> WRITE_MSG" "cmd \<noteq> RECEIVE_MSG" by blast
  then show ?thesis
  proof cases
    case 1
    with Command have n: "ledger_next False P e L = enter_write P pkt L" "e = Command WRITE_MSG pkt hrd tld" by simp_all
    from w show ?thesis using entered unfolding n by auto
  next
    case 2
    with Command have n: "ledger_next False P e L = enter_receive P pkt hrd L" "e = Command RECEIVE_MSG pkt hrd tld" by simp_all
    from r show ?thesis using entered unfolding n by auto
  qed (simp add: Command)
qed simp_all

lemma release_ledger_run:
  fixes P es
  defines "L \<equiv> fold (ledger_next False P) es (new_ledger P)"
  shows "l_pins L = {pin_hash P (provisioned_pin P)}" "(slot, f) \<in> l_files L \<Longrightarrow> \<exists>e \<in> set es. brings P e slot f"
proof -
  have "l_pins L = {pin_hash P (provisioned_pin P)} \<and> (\<forall>slot f. (slot, f) \<in> l_files L \<longrightarrow> (\<exists>e \<in> set es. brings P e slot f))"
    unfolding L_def
  proof (induction es rule: rev_induct)
    case Nil
    show ?case by (simp add: new_ledger_def)
  next
    case (snoc e es)
    let ?L = "fold (ledger_next False P) es (new_ledger P)"
    have "l_pins ?L = {pin_hash P (provisioned_pin P)}" using snoc by blast
    note n = release_ledger_next [OF this, of e]
    have "\<exists>x \<in> set (es @ [e]). brings P x slot f" if "(slot, f) \<in> l_files (ledger_next False P e ?L)" for slot f
      using n [of slot f] that snoc by auto
    then show ?case using n snoc by simp
  qed
  then show "l_pins L = {pin_hash P (provisioned_pin P)}" "(slot, f) \<in> l_files L \<Longrightarrow> \<exists>e \<in> set es. brings P e slot f" by blast+
qed

section \<open>Properties\<close>

text \<open>
  C5: The log of a device determines a ledger: the PINs that were set, and for every slot the
  files of the packets and of the peer's answers whose storing was permitted. After any sequence
  of commands and boots, each with its power lost between any two flash commands or with flash
  commands that fail and change nothing, the device knows nothing but that: a PIN that is
  accepted was set, the name, group and tag of a slot in use are those of a file recorded for the
  slot, and a slot of which anything can be read reads as one file recorded for it: its whole
  data and nothing else, with the masks that have its group and no other, as no other owner.
\<close>

theorem outages_invent_nothing:
  assumes "secrets_ok P" "gcm_ok P" "flash_ok P" "flash_clean P" "factory_flash fl"
    and "supplied P Q" "boot dbg Q fl tr u = Some d0" "logged (outage_event dbg P) d0 es d"
  shows "from_ledger P (fold (ledger_next dbg P) es (new_ledger P)) (d_hsm d)"
proof -
  have "platform_clean P" using assms(1-4) by (simp add: platform_clean_def)
  from within_from_ledger [OF outage_life [OF this assms(5-8)]] show ?thesis .
qed

text \<open>A first boot whose supply fails in the middle of provisioning, and the next one.\<close>

lemma ref_interrupted_boot:
  obtains d0 d where "boot False (power_cut 3 ref_platform) ref_flash_dev ref_boot_trng (ref_line []) = Some d0"
    and "supplied ref_platform (power_cut 3 ref_platform)" "logged (outage_event False ref_platform) d0 [Reset] d"
proof -
  have t: "trng_polls ref_boot_trng = [TrngReady 1, TrngReady 2, TrngReady 3, TrngReady 4]" by (simp add: ref_boot_trng_def)
  obtain d0 where 0: "boot False (power_cut 3 ref_platform) ref_flash_dev ref_boot_trng (ref_line []) = Some d0"
    using boot_returns [OF t] by blast
  obtain d where "boot False ref_platform (h_flash (d_hsm d0)) ref_boot_trng (ref_line []) = Some d"
    using boot_returns [OF t] by blast
  then have "outage_event False ref_platform d0 Reset d" by (intro out_reset) (simp_all add: supplied_def)
  with log_start [of "outage_event False ref_platform" d0] have "logged (outage_event False ref_platform) d0 ([] @ [Reset]) d"
    by (rule log_event)
  with that [OF 0] show thesis by (auto simp: supplied_def)
qed

lemma outages_invent_nothing_witness:
  "\<exists>d0 d. boot False (power_cut 3 ref_platform) ref_flash_dev ref_boot_trng (ref_line []) = Some d0 \<and>
     logged (outage_event False ref_platform) d0 [Reset] d \<and> from_ledger ref_platform (new_ledger ref_platform) (d_hsm d)"
proof -
  obtain d0 d where b: "boot False (power_cut 3 ref_platform) ref_flash_dev ref_boot_trng (ref_line []) = Some d0"
    and q: "supplied ref_platform (power_cut 3 ref_platform)" and s: "logged (outage_event False ref_platform) d0 [Reset] d"
    by (rule ref_interrupted_boot)
  from outages_invent_nothing [OF ref_ok(1-3) ref_clean ref_factory q b s] b s show ?thesis by auto
qed

text \<open>
  C6: On a release build no loss of power between two flash commands, and no flash command that
  fails without changing anything, opens the device: no PIN with another MAC than that of
  \<^verbatim>\<open>secrets.h\<close> is ever accepted, and whatever can be read of a slot is the data of a file that an
  event of the log brought for this slot under that PIN, of a group the device may write or
  receive; with a mask that does not have the group of this file, or as another owner, nothing
  can be read of the slot.
\<close>

theorem release_outages_stay_closed:
  assumes "secrets_ok P" "gcm_ok P" "flash_ok P" "flash_clean P" "factory_flash fl"
    and "supplied P Q" "boot False Q fl tr u = Some d0" "logged (outage_event False P) d0 es d" "h = d_hsm d"
  shows "(\<forall>pin. fst (check_pin P pin (h_flash h) (h_pin h)) \<longrightarrow> pin_hash P (take 6 pin) = pin_hash P (provisioned_pin P)) \<and>
    (\<forall>slot who m data. reads P slot who m data h \<longrightarrow>
       (\<exists>f. (\<exists>e \<in> set es. brings P e slot f) \<and> reads_as P slot f h \<and> sf_data f = data \<and> m AND ucast (sf_group f) \<noteq> 0 \<and>
          (validate_permission P (sf_group f) PERM_WRITE \<or> validate_permission P (sf_group f) PERM_RECEIVE) \<and>
          sf_owner f = pin_hash P (provisioned_pin P) \<and> (who = None \<or> who = Some (sf_owner f))))"
proof -
  let ?L = "fold (ledger_next False P) es (new_ledger P)"
  have "platform_clean P" using assms(1-4) by (simp add: platform_clean_def)
  from within_from_ledger [OF outage_life [OF this assms(5-8)]] have l: "from_ledger P ?L h" by (simp add: assms(9))
  note r = release_ledger_run [where P = P and es = es]
  show ?thesis
  proof (intro conjI allI impI)
    show "pin_hash P (take 6 pin) = pin_hash P (provisioned_pin P)" if "fst (check_pin P pin (h_flash h) (h_pin h))" for pin
      using l r(1) that by (simp add: from_ledger_def)
    fix slot who m data assume rd: "reads P slot who m data h"
    with l obtain f where f: "(slot, f) \<in> l_files ?L" "reads_as P slot f h" unfolding from_ledger_def by blast
    from r(2) [OF f(1)] obtain e where e: "e \<in> set es" "brings P e slot f" by blast
    from rd f(2) have "data = sf_data f \<and> (who = None \<or> who = Some (sf_owner f)) \<and> m AND ucast (sf_group f) \<noteq> 0"
      unfolding reads_as_def by blast
    with e f(2) brought_file [OF e(2)]
    show "\<exists>f. (\<exists>e \<in> set es. brings P e slot f) \<and> reads_as P slot f h \<and> sf_data f = data \<and> m AND ucast (sf_group f) \<noteq> 0 \<and>
        (validate_permission P (sf_group f) PERM_WRITE \<or> validate_permission P (sf_group f) PERM_RECEIVE) \<and>
        sf_owner f = pin_hash P (provisioned_pin P) \<and> (who = None \<or> who = Some (sf_owner f))"
      by (intro exI [of _ f]) auto
  qed
qed

text \<open>A life without outages; on the reference platform, a file that was written and is read.\<close>

lemma device_outage: "logged (device_event dbg P) c es d \<Longrightarrow> logged (outage_event dbg P) c es d"
proof (induction rule: logged.induct)
  case log_start
  show ?case by (rule logged.log_start)
next
  case (log_event es d e d')
  have "supplied P P" by (simp add: supplied_def)
  with log_event(2) have "outage_event dbg P d e d'" by (auto elim!: device_eventE intro: outage_event.intros)
  then show ?case by (rule logged.log_event [OF log_event(3)])
qed

lemma represents_reads:
  assumes P: "platform_good P" and h: "represents P h v" and f: "v_files v slot = Some f" "sf_group f \<noteq> 0"
  shows "reads P slot (Some (sf_owner f)) 0xFFFFFFFF (sf_data f) h"
proof -
  have ok: "hsm_ok h" using h by (simp add: represents_def)
  obtain rc out n b where
    r: "blob_read_all P slot (sf_owner f) 0xFFFFFFFF 8192 (h_flash h) (h_blob h) = (rc, out, n, b)" by (metis prod_cases4)
  from read_file [OF P ok represents_file [OF h f(1)] r] f(2) have o: "rc = SECURE_BLOB_STORE_OK" "take n out = sf_data f" by simp_all
  with r blob_read_all_iff [OF platform_goodD(1,2) [OF P], of "h_blob h" 8192 slot "sf_owner f" "0xFFFFFFFF" "h_flash h" out n] ok
  have "n = length out" by (auto simp: hsm_ok_def)
  with o r show ?thesis by (auto simp: reads_def)
qed

lemma release_outages_stay_closed_witness:
  "\<exists>d0 hrd tld d. boot False ref_platform ref_flash_dev ref_boot_trng (ref_line []) = Some d0 \<and>
     logged (outage_event False ref_platform) d0 [NewInput, Command WRITE_MSG ref_write_pkt hrd tld] d \<and>
     reads ref_platform 2 (Some (sf_owner ref_file)) 0xFFFFFFFF [10, 20, 30] (d_hsm d) \<and>
     (\<exists>f. brings ref_platform (Command WRITE_MSG ref_write_pkt hrd tld) 2 f \<and> reads_as ref_platform 2 f (d_hsm d) \<and> sf_data f = [10, 20, 30])"
proof -
  let ?P = ref_platform
  obtain d0 hrd tld d where b: "boot False ?P ref_flash_dev ref_boot_trng (ref_line []) = Some d0"
    and l: "logged (device_event False ?P) d0 [NewInput, Command WRITE_MSG ref_write_pkt hrd tld] d" by (rule ref_write_log)
  from life.run_matched [OF l lives_at_boot [OF ref_platform_good ref_provisioned ref_factory b]]
  have "represents ?P (d_hsm d) (put_file 2 ref_file (new_vault ?P))" unfolding ref_write_vault by (simp add: lives_def)
  from represents_reads [OF ref_platform_good this, of 2 ref_file]
  have r: "reads ?P 2 (Some (sf_owner ref_file)) 0xFFFFFFFF [10, 20, 30] (d_hsm d)"
    by (simp add: put_file_def) (simp add: ref_file_def)
  have q: "supplied ?P ?P" by (simp add: supplied_def)
  from release_outages_stay_closed [OF ref_ok(1-3) ref_clean ref_factory q b device_outage [OF l] refl, THEN conjunct2, rule_format, OF r]
  obtain e f where "e \<in> set [NewInput, Command WRITE_MSG ref_write_pkt hrd tld]" "brings ?P e 2 f"
    "reads_as ?P 2 f (d_hsm d)" "sf_data f = [10, 20, 30]" by blast
  moreover have "\<not> brings ?P NewInput 2 f" by (simp add: brings_def)
  ultimately show ?thesis using b device_outage [OF l] r by auto
qed

end
