(* ===== verification/Board.thy ===== *)
theory Board
  imports Prelude
begin

text \<open>
  The hardware set-up: \<^verbatim>\<open>firmware/src/startup_mspm0l222x_ticlang.c\<close> (vector table and default
  handler), \<^verbatim>\<open>firmware/src/ti_msp_dl_config.c\<close> (power, pins, clocks and both UARTs), the LED
  macros of \<^verbatim>\<open>firmware/inc/status_led.h\<close> and the watchdog calls of \<^verbatim>\<open>firmware/src/HSM.c\<close>
  and of the PIN delay in \<^verbatim>\<open>firmware/src/security.c\<close>. This
  code computes nothing: what it does is the sequence of its DriverLib calls, so each function is
  the list of the calls it makes, with their arguments, on the build for the board (\<^verbatim>\<open>WWDT0\<close>
  defined, no \<^verbatim>\<open>HOST_TEST\<close>). DriverLib's enumeration constants are their names.

  A checker says what an order of calls must respect: a peripheral is reset and powered and the
  power-up delay has passed before its registers are written, and a UART is enabled only after
  its clock, format and divisors are set. The theorems: set-up passes from any state of the board
  (a watchdog reset leaves the peripherals as they were), it ends with both lines at 115200 baud,
  8N1, and the rounds of the main loop pass after it; every exception and interrupt stops the
  device.
\<close>

section \<open>Calls\<close>

type_synonym dl_const = string

datatype periph = GPIOA | GPIOB | UART0 | UART1 | WWDT0

record uart_clock_config =
  clockSel :: dl_const
  divideRatio :: dl_const

record uart_config =
  mode :: dl_const
  direction :: dl_const
  flowControl :: dl_const
  parity :: dl_const
  wordLength :: dl_const
  stopBits :: dl_const

datatype dl_call =
    DL_reset periph
  | DL_enablePower periph
  | delay_cycles nat
  | DL_GPIO_initPeripheralOutputFunction nat dl_const
  | DL_GPIO_initPeripheralInputFunction nat dl_const
  | DL_GPIO_initDigitalOutput nat
  | DL_GPIO_initDigitalInputFeatures nat "dl_const list"
  | DL_GPIO_setPins periph nat
  | DL_GPIO_clearPins periph nat
  | DL_GPIO_enableOutput periph nat
  | DL_SYSCTL_setBORThreshold dl_const
  | DL_SYSCTL_setSYSOSCFreq dl_const
  | DL_SYSCTL_setMCLKDivider dl_const
  | DL_UART_Main_setClockConfig periph uart_clock_config
  | DL_UART_Main_init periph uart_config
  | DL_UART_Main_setOversampling periph dl_const
  | DL_UART_Main_setBaudRateDivisor periph nat nat
  | DL_UART_Main_enable periph
  | DL_WWDT_setCoreHaltBehavior periph dl_const
  | DL_WWDT_initWatchdogMode periph "dl_const list"
  | DL_WWDT_restart periph

section \<open>Power, pins and clocks\<close>

definition POWER_STARTUP_DELAY :: nat where "POWER_STARTUP_DELAY = 16"
definition CPUCLK_FREQ :: nat where "CPUCLK_FREQ = 32000000"
definition UART_0_BAUD_RATE :: nat where "UART_0_BAUD_RATE = 115200"
definition UART_0_IBRD :: nat where "UART_0_IBRD = 17"
definition UART_0_FBRD :: nat where "UART_0_FBRD = 23"
definition UART_1_BAUD_RATE :: nat where "UART_1_BAUD_RATE = 115200"
definition UART_1_IBRD :: nat where "UART_1_IBRD = 17"
definition UART_1_FBRD :: nat where "UART_1_FBRD = 23"
definition UART_0_IOMUX_RX :: nat where "UART_0_IOMUX_RX = 26"
definition UART_0_IOMUX_TX :: nat where "UART_0_IOMUX_TX = 25"
definition UART_1_IOMUX_RX :: nat where "UART_1_IOMUX_RX = 20"
definition UART_1_IOMUX_TX :: nat where "UART_1_IOMUX_TX = 19"
definition STATUS_LED_PIN :: nat where "STATUS_LED_PIN = 14"
definition STATUS_LED_IOMUX :: nat where "STATUS_LED_IOMUX = 35"
definition BUTTONS_S2_IOMUX :: nat where "BUTTONS_S2_IOMUX = 63"

lemmas board_consts = POWER_STARTUP_DELAY_def CPUCLK_FREQ_def UART_0_BAUD_RATE_def UART_0_IBRD_def UART_0_FBRD_def
  UART_1_BAUD_RATE_def UART_1_IBRD_def UART_1_FBRD_def
  UART_0_IOMUX_RX_def UART_0_IOMUX_TX_def UART_1_IOMUX_RX_def UART_1_IOMUX_TX_def
  STATUS_LED_PIN_def STATUS_LED_IOMUX_def BUTTONS_S2_IOMUX_def

definition SYSCFG_DL_initPower :: "dl_call list" where
  "SYSCFG_DL_initPower =
     [DL_reset GPIOA, DL_reset GPIOB, DL_reset UART0, DL_reset UART1,
      DL_enablePower GPIOA, DL_enablePower GPIOB, DL_enablePower UART0, DL_enablePower UART1,
      delay_cycles POWER_STARTUP_DELAY]"

definition SYSCFG_DL_GPIO_init :: "dl_call list" where
  "SYSCFG_DL_GPIO_init =
     [DL_GPIO_initPeripheralOutputFunction UART_0_IOMUX_TX ''IOMUX_PINCM25_PF_UART0_TX'',
      DL_GPIO_initPeripheralInputFunction UART_0_IOMUX_RX ''IOMUX_PINCM26_PF_UART0_RX'',
      DL_GPIO_initPeripheralOutputFunction UART_1_IOMUX_TX ''IOMUX_PINCM19_PF_UART1_TX'',
      DL_GPIO_initPeripheralInputFunction UART_1_IOMUX_RX ''IOMUX_PINCM20_PF_UART1_RX'',
      DL_GPIO_initDigitalOutput STATUS_LED_IOMUX,
      DL_GPIO_initDigitalInputFeatures BUTTONS_S2_IOMUX
        [''DL_GPIO_INVERSION_DISABLE'', ''DL_GPIO_RESISTOR_PULL_UP'',
         ''DL_GPIO_HYSTERESIS_DISABLE'', ''DL_GPIO_WAKEUP_DISABLE''],
      DL_GPIO_setPins GPIOB STATUS_LED_PIN,
      DL_GPIO_enableOutput GPIOB STATUS_LED_PIN]"

definition SYSCFG_DL_SYSCTL_init :: "dl_call list" where
  "SYSCFG_DL_SYSCTL_init =
     [DL_SYSCTL_setBORThreshold ''DL_SYSCTL_BOR_THRESHOLD_LEVEL_0'',
      DL_SYSCTL_setSYSOSCFreq ''DL_SYSCTL_SYSOSC_FREQ_BASE'',
      DL_SYSCTL_setMCLKDivider ''DL_SYSCTL_MCLK_DIVIDER_DISABLE'']"

definition gUART_0ClockConfig :: uart_clock_config where
  "gUART_0ClockConfig = \<lparr>clockSel = ''DL_UART_MAIN_CLOCK_BUSCLK'',
     divideRatio = ''DL_UART_MAIN_CLOCK_DIVIDE_RATIO_1''\<rparr>"

definition gUART_0Config :: uart_config where
  "gUART_0Config = \<lparr>mode = ''DL_UART_MAIN_MODE_NORMAL'', direction = ''DL_UART_MAIN_DIRECTION_TX_RX'',
     flowControl = ''DL_UART_MAIN_FLOW_CONTROL_NONE'', parity = ''DL_UART_MAIN_PARITY_NONE'',
     wordLength = ''DL_UART_MAIN_WORD_LENGTH_8_BITS'', stopBits = ''DL_UART_MAIN_STOP_BITS_ONE''\<rparr>"

definition SYSCFG_DL_UART_0_init :: "dl_call list" where
  "SYSCFG_DL_UART_0_init =
     [DL_UART_Main_setClockConfig UART0 gUART_0ClockConfig,
      DL_UART_Main_init UART0 gUART_0Config,
      DL_UART_Main_setOversampling UART0 ''DL_UART_OVERSAMPLING_RATE_16X'',
      DL_UART_Main_setBaudRateDivisor UART0 UART_0_IBRD UART_0_FBRD,
      DL_UART_Main_enable UART0]"

definition gUART_1ClockConfig :: uart_clock_config where
  "gUART_1ClockConfig = \<lparr>clockSel = ''DL_UART_MAIN_CLOCK_BUSCLK'',
     divideRatio = ''DL_UART_MAIN_CLOCK_DIVIDE_RATIO_1''\<rparr>"

definition gUART_1Config :: uart_config where
  "gUART_1Config = \<lparr>mode = ''DL_UART_MAIN_MODE_NORMAL'', direction = ''DL_UART_MAIN_DIRECTION_TX_RX'',
     flowControl = ''DL_UART_MAIN_FLOW_CONTROL_NONE'', parity = ''DL_UART_MAIN_PARITY_NONE'',
     wordLength = ''DL_UART_MAIN_WORD_LENGTH_8_BITS'', stopBits = ''DL_UART_MAIN_STOP_BITS_ONE''\<rparr>"

definition SYSCFG_DL_UART_1_init :: "dl_call list" where
  "SYSCFG_DL_UART_1_init =
     [DL_UART_Main_setClockConfig UART1 gUART_1ClockConfig,
      DL_UART_Main_init UART1 gUART_1Config,
      DL_UART_Main_setOversampling UART1 ''DL_UART_OVERSAMPLING_RATE_16X'',
      DL_UART_Main_setBaudRateDivisor UART1 UART_1_IBRD UART_1_FBRD,
      DL_UART_Main_enable UART1]"

definition SYSCFG_DL_init :: "dl_call list" where
  "SYSCFG_DL_init = SYSCFG_DL_initPower @ SYSCFG_DL_GPIO_init @ SYSCFG_DL_SYSCTL_init @
     SYSCFG_DL_UART_0_init @ SYSCFG_DL_UART_1_init"

section \<open>Watchdog and LED\<close>

definition init_runtime_watchdog :: "dl_call list" where
  "init_runtime_watchdog =
     [DL_reset WWDT0, DL_enablePower WWDT0, delay_cycles POWER_STARTUP_DELAY,
      DL_WWDT_setCoreHaltBehavior WWDT0 ''DL_WWDT_CORE_HALT_STOP'',
      DL_WWDT_initWatchdogMode WWDT0
        [''DL_WWDT_CLOCK_DIVIDE_8'', ''DL_WWDT_TIMER_PERIOD_15_BITS'',
         ''DL_WWDT_RUN_IN_SLEEP'', ''DL_WWDT_WINDOW_PERIOD_0'', ''DL_WWDT_WINDOW_PERIOD_0''],
      DL_WWDT_restart WWDT0]"

definition platform_watchdog_kick :: "dl_call list" where
  "platform_watchdog_kick = [DL_WWDT_restart WWDT0]"

definition STATUS_LED_ON :: "dl_call list" where
  "STATUS_LED_ON = [DL_GPIO_setPins GPIOB STATUS_LED_PIN]"

definition STATUS_LED_OFF :: "dl_call list" where
  "STATUS_LED_OFF = [DL_GPIO_clearPins GPIOB STATUS_LED_PIN]"

text \<open>
  One round of the main loop: it restarts the watchdog before and after it waits for a packet,
  and turns the LED off on every branch, the read errors and the unknown command included.
\<close>

definition round_calls :: "dl_call list" where
  "round_calls = platform_watchdog_kick @ STATUS_LED_ON @ platform_watchdog_kick @ STATUS_LED_OFF"

text \<open>
  The delay after a wrong PIN (\<^verbatim>\<open>firmware/src/security.c\<close>) restarts the watchdog in every
  millionth of its empty iterations.
\<close>

definition fail_delay_calls :: "dl_call list" where
  "fail_delay_calls =
     concat (map (\<lambda>i. if i mod 1000000 = 0 then [DL_WWDT_restart WWDT0] else []) [0..<12500000])"

section \<open>Vector table\<close>

datatype handler =
    Reset_Handler | NMI_Handler | HardFault_Handler | SVC_Handler | PendSV_Handler | SysTick_Handler
  | GROUP0_IRQHandler | GROUP1_IRQHandler | TIMG12_IRQHandler | UART4_IRQHandler | ADC0_IRQHandler
  | SPI0_IRQHandler | SPI1_IRQHandler | UART2_IRQHandler | UART3_IRQHandler | UART0_IRQHandler
  | UART1_IRQHandler | TIMA0_IRQHandler | TIMG8_IRQHandler | TIMG0_IRQHandler | TIMG4_IRQHandler
  | TIMG5_IRQHandler | I2C0_IRQHandler | I2C1_IRQHandler | I2C2_IRQHandler | AESADV_IRQHandler
  | LCD_IRQHandler | LFSS_IRQHandler | DMA_IRQHandler

datatype vector = STACK_END | Entry handler | Reserved

definition interruptVectors :: "vector list" where
  "interruptVectors =
     [STACK_END, Entry Reset_Handler, Entry NMI_Handler, Entry HardFault_Handler,
      Reserved, Reserved, Reserved, Reserved, Reserved, Reserved, Reserved,
      Entry SVC_Handler, Reserved, Reserved, Entry PendSV_Handler, Entry SysTick_Handler,
      Entry GROUP0_IRQHandler, Entry GROUP1_IRQHandler, Entry TIMG12_IRQHandler,
      Entry UART4_IRQHandler, Entry ADC0_IRQHandler, Reserved, Reserved, Reserved, Reserved,
      Entry SPI0_IRQHandler, Entry SPI1_IRQHandler, Reserved, Reserved,
      Entry UART2_IRQHandler, Entry UART3_IRQHandler, Entry UART0_IRQHandler, Entry UART1_IRQHandler,
      Reserved, Entry TIMA0_IRQHandler, Reserved, Entry TIMG8_IRQHandler, Entry TIMG0_IRQHandler,
      Entry TIMG4_IRQHandler, Entry TIMG5_IRQHandler, Entry I2C0_IRQHandler, Entry I2C1_IRQHandler,
      Entry I2C2_IRQHandler, Reserved, Entry AESADV_IRQHandler, Entry LCD_IRQHandler,
      Entry LFSS_IRQHandler, Entry DMA_IRQHandler]"

text \<open>
  What a handler does: jump to the C start-up code, or make some calls and then spin for ever.
  No source of the firmware defines a handler, so each weak alias is the default handler.
\<close>

datatype handler_run = Branch_c_int00 | Spin_after "dl_call list"

definition Default_Handler :: handler_run where
  "Default_Handler = Spin_after STATUS_LED_OFF"

fun handler_code :: "handler \<Rightarrow> handler_run" where
  "handler_code Reset_Handler = Branch_c_int00"
| "handler_code _ = Default_Handler"

text \<open>The exception numbers of the core, and the interrupts of the device after them.\<close>

definition on_exception :: "nat \<Rightarrow> handler_run option" where
  "on_exception n =
     (if n < length interruptVectors
      then case interruptVectors ! n of Entry h \<Rightarrow> Some (handler_code h) | _ \<Rightarrow> None
      else None)"

lemma handler_code_default: "h \<noteq> Reset_Handler \<Longrightarrow> handler_code h = Spin_after STATUS_LED_OFF"
  by (cases h) (simp_all add: Default_Handler_def)

theorem every_exception_stops:
  assumes "1 < n" "on_exception n = Some r"
  shows "r = Spin_after STATUS_LED_OFF"
proof -
  obtain m where n: "n = 2 + m" using assms(1) by (metis Suc_1 Suc_leI le_add_diff_inverse)
  then have l: "2 + m < length interruptVectors"
    using assms by (auto simp: on_exception_def split: if_splits)
  then have "drop 2 interruptVectors ! m \<in> set (drop 2 interruptVectors)" by (intro nth_mem) simp
  with l have "interruptVectors ! n \<in> set (drop 2 interruptVectors)" by (simp add: n nth_drop)
  moreover have "Entry Reset_Handler \<notin> set (drop 2 interruptVectors)"
    by (simp add: interruptVectors_def)
  ultimately show ?thesis
    using assms(2) by (auto simp: on_exception_def split: if_splits vector.splits) (metis handler_code_default)
qed

text \<open>The same at the interrupt of the second UART, exception \<open>16 + 16\<close>.\<close>

lemma every_exception_stops_witness: "on_exception 32 = Some (handler_code UART1_IRQHandler) \<and>
    handler_code UART1_IRQHandler = Spin_after STATUS_LED_OFF"
  using every_exception_stops [of 32 "handler_code UART1_IRQHandler"]
  by (simp add: on_exception_def interruptVectors_def)

section \<open>The order of the calls\<close>

text \<open>
  The registers of a UART since its last reset, and the board: which peripherals have power,
  which of them have had it for the start-up delay, the functions of the pins, the outputs that
  are driven, and whether the watchdog runs.
\<close>

record uart_regs =
  uart_clock :: "uart_clock_config option"
  uart_format :: "uart_config option"
  uart_oversampling :: "dl_const option"
  uart_divisor :: "(nat \<times> nat) option"
  uart_enabled :: bool

definition uart_off :: uart_regs where
  "uart_off = \<lparr>uart_clock = None, uart_format = None, uart_oversampling = None,
               uart_divisor = None, uart_enabled = False\<rparr>"

record board =
  powered :: "periph set"
  settled :: "periph set"
  pin_function :: "nat \<Rightarrow> dl_const option"
  uart_state :: "periph \<Rightarrow> uart_regs"
  pins_high :: "(periph \<times> nat) set"
  wwdt_mode :: "dl_const list option"

definition on_uart :: "periph \<Rightarrow> (uart_regs \<Rightarrow> uart_regs) \<Rightarrow> board \<Rightarrow> board" where
  "on_uart p f b = b\<lparr>uart_state := (uart_state b)(p := f (uart_state b p))\<rparr>"

fun board_step :: "dl_call \<Rightarrow> board \<Rightarrow> board option" where
  "board_step (DL_reset p) b = Some (b\<lparr>powered := powered b - {p}, settled := settled b - {p},
     uart_state := (uart_state b)(p := uart_off), wwdt_mode := (if p = WWDT0 then None else wwdt_mode b),
     pins_high := {x \<in> pins_high b. fst x \<noteq> p}\<rparr>)"
| "board_step (DL_enablePower p) b = Some (b\<lparr>powered := insert p (powered b)\<rparr>)"
| "board_step (delay_cycles n) b = Some (if POWER_STARTUP_DELAY \<le> n then b\<lparr>settled := powered b\<rparr> else b)"
| "board_step (DL_GPIO_initPeripheralOutputFunction c f) b = Some (b\<lparr>pin_function := (pin_function b)(c := Some f)\<rparr>)"
| "board_step (DL_GPIO_initPeripheralInputFunction c f) b = Some (b\<lparr>pin_function := (pin_function b)(c := Some f)\<rparr>)"
| "board_step (DL_GPIO_initDigitalOutput c) b = Some (b\<lparr>pin_function := (pin_function b)(c := Some ''GPIO'')\<rparr>)"
| "board_step (DL_GPIO_initDigitalInputFeatures c fs) b = Some (b\<lparr>pin_function := (pin_function b)(c := Some ''GPIO'')\<rparr>)"
| "board_step (DL_GPIO_setPins p n) b = (if p \<in> settled b then Some (b\<lparr>pins_high := insert (p, n) (pins_high b)\<rparr>) else None)"
| "board_step (DL_GPIO_clearPins p n) b = (if p \<in> settled b then Some (b\<lparr>pins_high := pins_high b - {(p, n)}\<rparr>) else None)"
| "board_step (DL_GPIO_enableOutput p n) b = (if p \<in> settled b then Some b else None)"
| "board_step (DL_SYSCTL_setBORThreshold c) b = Some b"
| "board_step (DL_SYSCTL_setSYSOSCFreq c) b = Some b"
| "board_step (DL_SYSCTL_setMCLKDivider c) b = Some b"
| "board_step (DL_UART_Main_setClockConfig p c) b =
     (if p \<in> settled b then Some (on_uart p (\<lambda>u. u\<lparr>uart_clock := Some c\<rparr>) b) else None)"
| "board_step (DL_UART_Main_init p c) b =
     (if p \<in> settled b then Some (on_uart p (\<lambda>u. u\<lparr>uart_format := Some c\<rparr>) b) else None)"
| "board_step (DL_UART_Main_setOversampling p c) b =
     (if p \<in> settled b then Some (on_uart p (\<lambda>u. u\<lparr>uart_oversampling := Some c\<rparr>) b) else None)"
| "board_step (DL_UART_Main_setBaudRateDivisor p i f) b =
     (if p \<in> settled b then Some (on_uart p (\<lambda>u. u\<lparr>uart_divisor := Some (i, f)\<rparr>) b) else None)"
| "board_step (DL_UART_Main_enable p) b =
     (if p \<in> settled b \<and> uart_clock (uart_state b p) \<noteq> None \<and> uart_format (uart_state b p) \<noteq> None
         \<and> uart_oversampling (uart_state b p) \<noteq> None \<and> uart_divisor (uart_state b p) \<noteq> None
      then Some (on_uart p (\<lambda>u. u\<lparr>uart_enabled := True\<rparr>) b) else None)"
| "board_step (DL_WWDT_setCoreHaltBehavior p c) b = (if p \<in> settled b then Some b else None)"
| "board_step (DL_WWDT_initWatchdogMode p cs) b = (if p \<in> settled b then Some (b\<lparr>wwdt_mode := Some cs\<rparr>) else None)"
| "board_step (DL_WWDT_restart p) b = (if p \<in> settled b \<and> wwdt_mode b \<noteq> None then Some b else None)"

fun board_run :: "dl_call list \<Rightarrow> board \<Rightarrow> board option" where
  "board_run [] b = Some b"
| "board_run (c # cs) b = (case board_step c b of None \<Rightarrow> None | Some b' \<Rightarrow> board_run cs b')"

lemma board_run_append: "board_run (cs @ ds) b = Option.bind (board_run cs b) (board_run ds)"
  by (induction cs arbitrary: b) (auto split: option.splits)

text \<open>The state of a UART that is set to 115200 baud, eight bits, no parity, one stop bit.\<close>

definition uart_115200_8N1 :: uart_regs where
  "uart_115200_8N1 = \<lparr>uart_clock = Some gUART_0ClockConfig, uart_format = Some gUART_0Config,
     uart_oversampling = Some ''DL_UART_OVERSAMPLING_RATE_16X'', uart_divisor = Some (17, 23), uart_enabled = True\<rparr>"

definition board_up :: "board \<Rightarrow> bool" where
  "board_up b \<longleftrightarrow> settled b = UNIV \<and>
     uart_state b UART0 = uart_115200_8N1 \<and> uart_state b UART1 = uart_115200_8N1 \<and>
     pin_function b 25 = Some ''IOMUX_PINCM25_PF_UART0_TX'' \<and> pin_function b 26 = Some ''IOMUX_PINCM26_PF_UART0_RX'' \<and>
     pin_function b 19 = Some ''IOMUX_PINCM19_PF_UART1_TX'' \<and> pin_function b 20 = Some ''IOMUX_PINCM20_PF_UART1_RX'' \<and>
     wwdt_mode b \<noteq> None"

lemmas setup_defs = SYSCFG_DL_init_def SYSCFG_DL_initPower_def SYSCFG_DL_GPIO_init_def SYSCFG_DL_SYSCTL_init_def
  SYSCFG_DL_UART_0_init_def SYSCFG_DL_UART_1_init_def init_runtime_watchdog_def board_consts

lemma all_periphs: "GPIOA \<in> S \<Longrightarrow> GPIOB \<in> S \<Longrightarrow> UART0 \<in> S \<Longrightarrow> UART1 \<in> S \<Longrightarrow> WWDT0 \<in> S \<Longrightarrow> S = UNIV"
  by (metis UNIV_eq_I periph.exhaust)

lemma set_up_ends_up: "\<exists>b'. board_run (SYSCFG_DL_init @ init_runtime_watchdog) b = Some b' \<and> board_up b'"
  by (simp add: setup_defs on_uart_def board_up_def uart_115200_8N1_def uart_off_def all_periphs
      gUART_0ClockConfig_def gUART_1ClockConfig_def gUART_0Config_def gUART_1Config_def)

lemma round_stays_up: "board_up b \<Longrightarrow> \<exists>b'. board_run round_calls b = Some b' \<and> board_up b'"
  by (auto simp: round_calls_def platform_watchdog_kick_def STATUS_LED_ON_def STATUS_LED_OFF_def board_up_def)

lemma rounds_stay_up: "board_up b \<Longrightarrow> \<exists>b'. board_run (concat (replicate n round_calls)) b = Some b' \<and> board_up b'"
  by (induction n arbitrary: b) (use round_stays_up in \<open>fastforce simp: board_run_append\<close>)+

lemma multiples_upt:
  assumes "r < (k::nat)"
  shows "filter (\<lambda>i. i mod k = 0) [0..<k * n + Suc r] = map ((*) k) [0..<Suc n]" (is "?l = ?r")
proof -
  have bound: "k * q \<le> k * n + r \<longleftrightarrow> q \<le> n" for q
  proof
    show "k * q \<le> k * n + r" if "q \<le> n" using mult_le_mono2 [OF that, of k] by linarith
    show "q \<le> n" if "k * q \<le> k * n + r"
    proof (rule ccontr)
      assume "\<not> q \<le> n"
      then have "k * Suc n \<le> k * q" by (intro mult_le_mono) auto
      with that assms show False by simp
    qed
  qed
  have "i \<in> set ?l \<longleftrightarrow> i \<in> set ?r" for i
  proof -
    have "i \<in> set ?l \<longleftrightarrow> (\<exists>q. i = k * q \<and> q \<le> n)"
      by (auto simp: mod_eq_0_iff_dvd less_Suc_eq_le bound elim!: dvdE simp del: upt_Suc)
    then show ?thesis by (auto simp: less_Suc_eq_le simp del: upt_Suc)
  qed
  then have "set ?l = set ?r" by blast
  moreover have "sorted ?r" "distinct ?r"
    using assms by (auto simp: sorted_wrt_map distinct_map inj_on_def sorted_wrt_iff_nth_less simp del: upt_Suc)
  ultimately show ?thesis
    by (intro sorted_distinct_set_unique) (simp_all add: sorted_wrt_filter del: upt_Suc)
qed

lemma concat_if: "concat (map (\<lambda>x. if Q x then [c] else []) xs) = replicate (length (filter Q xs)) c"
  by (induction xs) auto

lemma fail_delay_kicks: "fail_delay_calls = replicate 13 (DL_WWDT_restart WWDT0)"
proof -
  have "1000000 * 12 + Suc 499999 = (12500000::nat)" by simp
  then have "filter (\<lambda>i::nat. i mod 1000000 = 0) [0..<12500000] = map ((*) 1000000) [0..<Suc 12]"
    using multiples_upt [of 499999 1000000 12] by simp
  then have "length (filter (\<lambda>i::nat. i mod 1000000 = 0) [0..<12500000]) = 13"
    by (simp only: length_map length_upt)
  then show ?thesis by (simp only: fail_delay_calls_def concat_if)
qed

lemma fail_delay_stays_up: "board_up b \<Longrightarrow> board_run fail_delay_calls b = Some b"
  by (simp add: fail_delay_kicks board_up_def eval_nat_numeral)

text \<open>
  From any state that a reset leaves, set-up and then any number of rounds call nothing out of
  order, and both UARTs stay as they were set up.
\<close>

theorem board_works:
  "\<exists>b'. board_run (SYSCFG_DL_init @ init_runtime_watchdog @ concat (replicate n round_calls)) b = Some b' \<and> board_up b'"
proof -
  obtain c where "board_run (SYSCFG_DL_init @ init_runtime_watchdog) b = Some c" "board_up c"
    using set_up_ends_up by blast
  with rounds_stay_up [of c n] show ?thesis
    by (metis append.assoc bind.bind_lunit board_run_append)
qed

text \<open>
  The divisors give the rate the comment names, 115211.52 baud, within a hundredth of a percent
  of the target: sixteen samples a bit, and a divisor in units of a sixty-fourth.
\<close>

definition baud_ok :: "nat \<Rightarrow> nat \<Rightarrow> nat \<Rightarrow> bool" where
  "baud_ok ibrd fbrd rate \<longleftrightarrow>
     (let d = 16 * (64 * ibrd + fbrd)
      in 100 * 64 * CPUCLK_FREQ div d = 11521152 \<and> 9999 * (64 * CPUCLK_FREQ - d * rate) \<le> d * rate)"

theorem baud_rate:
  "baud_ok UART_0_IBRD UART_0_FBRD UART_0_BAUD_RATE \<and> baud_ok UART_1_IBRD UART_1_FBRD UART_1_BAUD_RATE"
  by (simp add: baud_ok_def board_consts)

end
