(* ===== verification/Spec2Isabelle.thy ===== *)
theory Spec2Isabelle
  imports Prelude FIPS180 Sha256 Hmac Platform Reference_Platform Crypto Flash Trng Uart Messaging Design Pin
    Blob BlobStore BlobRead Names Commands Peer Vault PeerTransfer Heard Filesystem Storage HSM Session Device
    WellFormed Torn PowerLoss TornCommand LongBlob MixedSlot Ledger Outage Board
begin

text \<open>
  Verification of the firmware of a secure file vault for the eCTF 2026 competition: an HSM on
  an MSPM0L2228 that keeps eight files encrypted in flash, gives them to a host that knows the
  PIN, and exchanges them with other HSMs that hold the same group keys. The C sources are
  under \<^verbatim>\<open>src/firmware\<close>; file names below are relative to it.

  \<^bold>\<open>The program.\<close> \<^verbatim>\<open>main\<close> (\<^verbatim>\<open>src/HSM.c\<close>) boots the modules and then serves packets from
  the host's UART for ever. A handler of \<^verbatim>\<open>src/commands.c\<close> parses the packet, checks the PIN
  (\<^verbatim>\<open>src/security.c\<close>) and the permission of the file's group, works on the blob store
  (\<^verbatim>\<open>src/secure_blob_store.c\<close>) and the name table, and answers. \<^verbatim>\<open>receive\<close>, \<^verbatim>\<open>interrogate\<close> and
  \<^verbatim>\<open>listen\<close> talk over the second UART to another device, with challenges and proofs from
  \<^verbatim>\<open>src/secure_crypto.c\<close> and \<^verbatim>\<open>src/secure_design.c\<close>. Below that are the flash, random number
  and UART drivers.

  \<^bold>\<open>Theories, bottom up.\<close>

  \<^item> \<^verbatim>\<open>Prelude\<close>: C integers as words, little-endian coding, memory segments, and the locales
    \<open>byte_codec\<close> and \<open>exact_codec\<close> of everything that is serialised.
  \<^item> \<^verbatim>\<open>FIPS180\<close>: the hash standard, written without anything of the code: the constants as
    fractional parts of roots of primes, the functions and the schedule by their formulas, padding
    and digest most significant byte first. \<^verbatim>\<open>Sha256\<close>, \<^verbatim>\<open>Hmac\<close> (\<^verbatim>\<open>src/sha256_raw.c\<close>): the streaming
    contexts, equal to FIPS 180-4, RFC 2104 and RFC 5869 for every split of the input; locale
    \<open>stream_hash\<close>. The code's tables, shifts and byte order are proved equal to the standard's.
  \<^item> \<^verbatim>\<open>Platform\<close>: what is not in the repository, as one record \<open>platform\<close> that every operation
    takes: the constants of the generated \<^verbatim>\<open>secrets.h\<close>, wolfSSL's AES-GCM, and DriverLib's flash
    commands (which may fail), with the predicates \<open>secrets_ok\<close>, \<open>gcm_ok\<close>, \<open>flash_ok\<close> and
    \<open>flash_reliable\<close> that say what the theorems assume of it. \<^verbatim>\<open>Reference_Platform\<close> is a concrete
    platform that meets them all; the witnesses run on it.
  \<^item> \<^verbatim>\<open>Crypto\<close> (\<^verbatim>\<open>src/secure_crypto.c\<close>): root secret, group, file and chunk keys, signatures and
    proofs; locale \<open>mac_scheme\<close>.
  \<^item> \<^verbatim>\<open>Flash\<close> (\<^verbatim>\<open>src/simple_flash.c\<close>): erase, read and the padded 64-bit write loop; locale
    \<open>flash_page\<close>, the contract of each of the tables that are kept in one page.
  \<^item> \<^verbatim>\<open>Trng\<close>, \<^verbatim>\<open>Uart\<close> (\<^verbatim>\<open>src/trng.c\<close>, \<^verbatim>\<open>src/simple_uart.c\<close>): the peripherals as scripts of what their
    next polls see.
  \<^item> \<^verbatim>\<open>Messaging\<close> (\<^verbatim>\<open>src/host_messaging.c\<close>): framing, acknowledgements, timeouts. The relation
    \<open>delivers\<close> says which scripts bring a byte sequence in time.
  \<^item> \<^verbatim>\<open>Design\<close> (\<^verbatim>\<open>src/secure_design.c\<close>): nonces and the replay cache; locale \<open>replay_guard\<close>, a
    window of the last eight exchanges.
  \<^item> \<^verbatim>\<open>Pin\<close> (\<^verbatim>\<open>src/security.c\<close>): the PIN state in RAM and flash, check, change, delay, first boot,
    permissions.
  \<^item> \<^verbatim>\<open>Blob\<close>, \<^verbatim>\<open>BlobStore\<close>, \<^verbatim>\<open>BlobRead\<close> (\<^verbatim>\<open>src/secure_blob_store.c\<close>): the operations; what writing
    leaves in flash; what reading gives back, and locale \<open>slot_store\<close>, independence of slots.
  \<^item> \<^verbatim>\<open>Names\<close>, \<^verbatim>\<open>Commands\<close>, \<^verbatim>\<open>Peer\<close> (\<^verbatim>\<open>src/commands.c\<close>): the name table; the host commands; the
    device-to-device commands. The state of all modules together is the record \<open>hsm\<close>.
  \<^item> \<^verbatim>\<open>Vault\<close>: the abstract specification. A vault is a PIN and at most eight files; \<open>spec_write\<close>,
    \<open>spec_read\<close>, \<open>spec_list\<close>, \<open>spec_delete\<close> and \<open>spec_change_pin\<close> give the answer to each packet and
    the new vault. \<open>represents P h v\<close> relates them, and each handler refines its specification.
    \<open>answers\<close> says what goes out: the header whatever the host does, whole blocks of the contents in
    order, and all of them with status 0 if the host acknowledges (\<open>host_acks\<close>).
  \<^item> \<^verbatim>\<open>PeerTransfer\<close>: the guarantees of the protocol between two devices. \<^verbatim>\<open>Heard\<close>: which bytes an
    operation took from a line, and that \<open>receive\<close> acts on the last frame that came.
  \<^item> \<^verbatim>\<open>Filesystem\<close>, \<^verbatim>\<open>Storage\<close> (\<^verbatim>\<open>src/filesystem.c\<close>, \<^verbatim>\<open>src/storage.c\<close>): older tables. Of these
    \<^verbatim>\<open>main\<close> calls only \<^verbatim>\<open>init_fs\<close>.
  \<^item> \<^verbatim>\<open>HSM\<close> (\<^verbatim>\<open>src/HSM.c\<close>): reset, boot, dispatch and the loop as the step relation \<open>device_step\<close>.
    \<open>device_event\<close> is the same relation with what can be observed of a step (\<open>event\<close>): the host's
    packet with the bytes that came from the other device and went to the host in the round, a
    packet that was not accepted, a reset, new input. \<open>vault_next\<close> is the specification of the
    whole device: the vault that an event makes of a vault.
  \<^item> \<^verbatim>\<open>Session\<close>: locales \<open>session\<close> and \<open>loop_session\<close>, the contract of a relation between devices and
    some ghost value that the calls of the handlers respect, and by which every handler does,
    and every round of the loop takes the ghost value to the one that its event determines. It is
    interpreted three times: by the vault (\<^verbatim>\<open>Device\<close>), by the sizes of the tables (\<^verbatim>\<open>WellFormed\<close>),
    and by the ledger (\<^verbatim>\<open>Ledger\<close>).
  \<^item> \<^verbatim>\<open>Device\<close>: runs with their logs (\<open>logged\<close>) and locale \<open>simulation\<close>, by which the log of a device
    determines the vault that it represents. \<^verbatim>\<open>WellFormed\<close>: the sizes, for any contents of the flash and any platform.
  \<^item> \<^verbatim>\<open>Torn\<close>: what an update leaves that stops half way, on flash whose failing commands change
    nothing (\<open>flash_clean\<close>). \<^verbatim>\<open>PowerLoss\<close>: a platform whose flash stops at a given command, and what
    a boot makes of its flash. \<^verbatim>\<open>TornCommand\<close>: a loss inside a command, which leaves any bytes in its
    page or words. \<^verbatim>\<open>MixedSlot\<close>: a loss between the name table and the slot. \<^verbatim>\<open>LongBlob\<close>: blobs that
    are longer than the tag area.
  \<^item> \<^verbatim>\<open>Ledger\<close>, \<^verbatim>\<open>Outage\<close>: the life of a device whose supply may fail at any command (\<open>outage_event\<close>)
    stays within a ledger of the PINs that were ever set and the files whose storing was ever
    permitted; the log determines the ledger (\<open>ledger_next\<close>).
  \<^item> \<^verbatim>\<open>Board\<close> (\<^verbatim>\<open>src/startup_mspm0l222x_ticlang.c\<close>, \<^verbatim>\<open>src/ti_msp_dl_config.c\<close>, \<^verbatim>\<open>inc/status_led.h\<close>,
    and the watchdog of \<^verbatim>\<open>src/HSM.c\<close>): the hardware set-up as the sequence of its DriverLib calls,
    with a checker of their order (\<open>board_works\<close>, \<open>baud_rate\<close>), and the vector table
    (\<open>every_exception_stops\<close>). Nothing else refers to it: the other theories start from working
    peripherals.
  \<^item> this theory: the properties of the whole device.

  \<^bold>\<open>How state and effects appear.\<close> Flash is a function from addresses to bytes with a counter of
  the commands given, so that a command's failure may depend on when it is given. A UART is the
  list of what the next polls of its receiver see (nothing or a byte) and the list of bytes sent.
  Static C variables are fields of the module's record and each operation returns it changed.
  Buffers are byte lists. Integers keep their width (\<open>8\<close>, \<open>16\<close>, \<open>32\<close>, \<open>64 word\<close>) except for
  addresses and lengths, natural numbers that the proofs keep below the sizes of the memory.
  Error codes are datatypes or the code's numbers. \<open>None\<close> at the outside means that the code does
  not return, because a loop waits for input that never comes. An access outside an array is \<open>None\<close>
  in the older tables and \<open>Overrun\<close> in the main loop.

  \<^bold>\<open>Loops and bounds.\<close> There is no fuel. Loops over data are recursive functions with a
  measure. A timed UART read is bounded as the code bounds it: 4000 polls for a millisecond of the
  timeout. The loops without a bound (\<open>uart_wait\<close>, \<open>uart_drain_rx\<close>, \<open>read_sync\<close>, \<open>trng_fill\<close>) are
  partial functions, and theorems say when they return (\<open>trng_read_exact\<close>, \<open>uart_blocking_read\<close>,
  \<open>write_completes\<close>, \<open>transfer_completes\<close>). The PIN delay is the code's number of empty
  iterations, recorded and not run.

  \<^bold>\<open>Properties, by what they protect.\<close> Files and PIN over the life of the device:
  \<open>device_refines_vault\<close>, \<open>release_pin_and_files\<close>; when the supply or the flash fails,
  \<open>outages_invent_nothing\<close>, \<open>release_outages_stay_closed\<close>; sizes, \<open>device_well_formed\<close>. Each host command: \<open>write_refines\<close>,
  \<open>read_refines\<close>, \<open>write_completes\<close>. Between devices: \<open>transfer_completes\<close>,
  \<open>file_needs_proof\<close>, \<open>list_needs_proof\<close>, \<open>proof_needs_pin_and_permission\<close>,
  \<open>interrogation_offers\<close>, \<open>replay_window_refines\<close>. Stored data:
  \<open>blob_read_authentic\<close>, \<open>blob_write_then_read\<close>, \<open>blob_survives_other_slots\<close>,
  \<open>blob_delete_erases\<close>, \<open>blob_read_denied\<close>, \<open>power_loss_keeps_others\<close>, \<open>interrupted_write_old_or_new\<close>,
  \<open>torn_command_keeps_others\<close>.
  PIN: \<open>wrong_pins_counted\<close>, \<open>pin_change_outcomes\<close>, \<open>first_boot_provisions\<close>. Cryptographic code: \<open>sha256_any_split\<close>,
  \<open>hkdf_expand_is_RFC5869\<close>, \<open>verify_iff_signed\<close>. Drivers and framing: \<open>packet_roundtrip\<close>,
  \<open>read_packet_bounded\<close>, \<open>trng_read_exact\<close>. Older tables:
  \<open>file_write_read\<close>, \<open>fat_update_then_get\<close>. Where the code does less than its documentation says or than it should:
  \<open>long_packet_overruns\<close>, \<open>long_blob_spills\<close>, \<open>power_loss_destroys_old\<close>, \<open>power_loss_empties_table\<close>,
  \<open>power_loss_mixes_groups\<close>, \<open>import_from_anyone\<close>.

  Security statements are about the code's use of its MACs: a proof is accepted exactly if it is
  the MAC of the expected message under the group's key. That such a MAC cannot be computed
  without the key is outside the logic. In the same way \<open>gcm_ok\<close> lets decryption accept only what
  encryption produces.

  \<^bold>\<open>Not modelled.\<close>
  \<^item> What the DriverLib calls of the set-up do to the chip, and \<^verbatim>\<open>inc/user_settings.h\<close>, wolfSSL's build
    switches. The watchdog's own expiry: the reset that it causes is one more reset.
  \<^item> \<^verbatim>\<open>src/simple_crypto.c\<close>: an example wrapper, compiled only with \<^verbatim>\<open>CRYPTO_EXAMPLE\<close>, and called
    by nothing. With that switch on it is not valid C (a function declares its parameters again,
    arrays have no size), so there is no behaviour to model.
  \<^item> The diagnostics that the modules print on a debug build, their frames on the host's line
    included; the debug messages of \<^verbatim>\<open>main\<close> are modelled.
  \<^item> \<^verbatim>\<open>security_prepare_local_file_crypto_pool\<close>, an empty hook.
  \<^item> Memory other than the named buffers: what an overrun does, timing, and the clearing of keys
    on the stack.
  \<^item> A reset of \<open>device_event\<close> comes between two commands. In \<open>outage_event\<close> the supply fails between
    any two flash commands of a round or of a boot; a device that is reset while it waits for its
    host is that of the same round on a line where the host goes on, cut where it waited. A flash
    command that fails in such a life changes nothing (\<open>flash_clean\<close>). That a flash command itself
    stops half way, and leaves its page or words with any bytes, is treated for the blob store
    (\<^verbatim>\<open>TornCommand\<close>), not in the life of the whole device: the PIN page and the name table carry no
    tag, so the code believes whatever such bytes say, and nothing like C5 and C6 holds of them.
  \<^item> The host-side Python (\<^verbatim>\<open>ectf26_design\<close>, \<^verbatim>\<open>secrets_to_c_header.py\<close>): its output is the
    generated header, part of \<open>platform\<close>.
\<close>

section \<open>Properties of the whole device\<close>

text \<open>
  C1: The log of a device determines the vault that it represents. After its first boot a device
  sees packets from its host, answers of another device, resets and new input; \<open>vault_next\<close> says
  what each of them makes of a vault: a write packet that is permitted stores its file in its
  slot, an import that is permitted and reported stores the file of the other device's last frame,
  on a debug build a deletion and a change of the PIN do what their packets say, and nothing else,
  a reset included, changes the vault. Starting from the new vault with the PIN of \<^verbatim>\<open>secrets.h\<close>, the
  events of the log in their order make exactly the vault of the device.
\<close>

theorem device_refines_vault:
  assumes "platform_good P" "6 \<le> length (provisioned_pin P)" "factory_flash fl" "boot dbg P fl tr u = Some d0"
    and "logged (device_event dbg P) d0 es d"
  shows "represents P (d_hsm d) (fold (vault_next dbg P) es (new_vault P))"
  using life.run_matched [OF assms(5) lives_at_boot [OF assms(1-4)]] by (simp add: lives_def)

text \<open>A boot, new input, and the packet of a write.\<close>

lemma device_refines_vault_witness:
  "\<exists>d0 hrd tld d. boot False ref_platform ref_flash_dev ref_boot_trng (ref_line []) = Some d0 \<and>
     logged (device_event False ref_platform) d0 [NewInput, Command WRITE_MSG ref_write_pkt hrd tld] d \<and>
     represents ref_platform (d_hsm d) (put_file 2 ref_file (new_vault ref_platform))"
proof -
  obtain d0 hrd tld d where b: "boot False ref_platform ref_flash_dev ref_boot_trng (ref_line []) = Some d0"
    and l: "logged (device_event False ref_platform) d0 [NewInput, Command WRITE_MSG ref_write_pkt hrd tld] d"
    by (rule ref_write_log)
  from device_refines_vault [OF ref_platform_good ref_provisioned ref_factory b l] b l show ?thesis
    unfolding ref_write_vault by blast
qed

text \<open>
  C4: On a release build, for the whole life of the device, the PIN of \<^verbatim>\<open>secrets.h\<close> is accepted and
  no PIN with another MAC, and every slot in use holds a whole file, stored under that PIN, of a
  group the device may write or receive.
\<close>

theorem release_pin_and_files:
  assumes "platform_good P" "6 \<le> length (provisioned_pin P)" "factory_flash fl" "boot False P fl tr u = Some d0"
    and "(device_step False P)\<^sup>*\<^sup>* d0 d" "h = d_hsm d"
  shows "(\<forall>pin. fst (check_pin P pin (h_flash h) (h_pin h)) \<longleftrightarrow> pin_hash P (take 6 pin) = pin_hash P (provisioned_pin P)) \<and>
    (\<forall>slot. occupied slot h \<longrightarrow> (\<exists>f. file_at P h slot f \<and> sf_owner f = pin_hash P (provisioned_pin P) \<and>
       (validate_permission P (sf_group f) PERM_WRITE \<or> validate_permission P (sf_group f) PERM_RECEIVE)))"
proof -
  obtain v where r: "represents P h v" "release_vault P v" using release_run [OF assms(1-5)] assms(6) by blast
  then have p: "pin_ok (h_pin h)" "g_pin_hash (h_pin h) = pin_hash P (provisioned_pin P)"
    by (simp_all add: represents_def hsm_ok_def release_vault_def)
  have "\<exists>f. file_at P h slot f \<and> sf_owner f = pin_hash P (provisioned_pin P) \<and>
      (validate_permission P (sf_group f) PERM_WRITE \<or> validate_permission P (sf_group f) PERM_RECEIVE)"
    if "occupied slot h" for slot
    using that r(2) represents_occupied [OF r(1)] represents_file [OF r(1)] by (fastforce simp: release_vault_def)
  with check_pin_iff [OF platform_goodD(1) [OF assms(1)] p(1)] p(2) show ?thesis by (auto simp: pin_matches_def)
qed

lemma release_pin_and_files_witness:
  "\<exists>d. boot False ref_platform ref_flash_dev ref_boot_trng (ref_line []) = Some d \<and>
     fst (check_pin ref_platform [49, 50, 51, 52, 53, 54] (h_flash (d_hsm d)) (h_pin (d_hsm d)))"
proof -
  obtain d where b: "boot False ref_platform ref_flash_dev ref_boot_trng (ref_line []) = Some d" by (rule ref_boot)
  have "provisioned_pin ref_platform = [49, 50, 51, 52, 53, 54]"
    by (simp add: provisioned_pin_def ref_platform_def PIN_MAX_LEN_def)
  with release_pin_and_files [OF ref_platform_good ref_provisioned ref_factory b _ refl] b show ?thesis by auto
qed

text \<open>
  C22: A release build answers every opcode but L, R, W, C, I and N, the bring-up commands'
  included, with an error message, and changes nothing but the host line.
\<close>

theorem release_refuses_others:
  assumes "length pkt \<le> MAX_MSG_SIZE"
    and "delivers (uart_frame_timeout_ms CONTROL_INTERFACE) (uart_rx (h_uart (d_hsm d)) 0) (msg_header cmd (of_nat (length pkt)) @ pkt) rest"
    and "cmd \<notin> {LIST_MSG, READ_MSG, WRITE_MSG, RECEIVE_MSG, INTERROGATE_MSG, LISTEN_MSG}"
  shows "loop_round False P d = Next (d\<lparr>d_hsm := (d_hsm d)\<lparr>h_uart :=
    add_tx 0 (concat (replicate (frame_blocks (length pkt)) ack_frame) @
        msg_header ERROR_MSG (of_nat (length (invalid_command cmd))) @ invalid_command cmd)
      (set_rx 0 rest (h_uart (d_hsm d)))\<rparr>\<rparr>)"
proof -
  have "length pkt < 65536" using assms(1) by (simp add: MAX_MSG_SIZE_def WRITE_COMMAND_SIZE_def)
  from loop_round_packet [OF this assms(2), of False P] assms(1,3) show ?thesis
    by (auto simp: dispatch_def print_error_eq)
qed

lemma release_refuses_others_witness:
  "\<exists>h. loop_round False ref_platform \<lparr>d_hsm = ref_hsm (msg_header DELETE_FILE_MSG 0), d_file_table = []\<rparr>
      = Next \<lparr>d_hsm = h, d_file_table = []\<rparr> \<and> h_flash h = h_flash (ref_hsm [])"
proof -
  have "delivers (uart_frame_timeout_ms CONTROL_INTERFACE)
      (uart_rx (h_uart (d_hsm \<lparr>d_hsm = ref_hsm (msg_header DELETE_FILE_MSG 0), d_file_table = []\<rparr>)) 0)
      (msg_header DELETE_FILE_MSG (of_nat (length [])) @ []) []"
    using ref_acks [of "msg_header DELETE_FILE_MSG 0"] by simp
  from release_refuses_others [OF _ this, of ref_platform] show ?thesis by (simp add: ref_hsm_def)
qed

text \<open>
  C23: A complete packet from the host overruns the firmware's buffer exactly when it is longer
  than 8251 bytes: the loop passes no limit to \<^verbatim>\<open>read_packet\<close>.
\<close>

theorem long_packet_overruns:
  assumes "length pkt < 65536"
    and "delivers (uart_frame_timeout_ms CONTROL_INTERFACE) (uart_rx (h_uart (d_hsm d)) 0) (msg_header cmd (of_nat (length pkt)) @ pkt) rest"
  shows "loop_round dbg P d = Overrun \<longleftrightarrow> MAX_MSG_SIZE < length pkt"
  using loop_round_packet [OF assms, of dbg P] by (auto split: option.splits if_splits)

lemma long_packet_overruns_witness:
  "loop_round True ref_platform
     \<lparr>d_hsm = ref_hsm (msg_header LIST_MSG (of_nat (length (replicate 9000 (0 :: byte)))) @ replicate 9000 0), d_file_table = []\<rparr> = Overrun"
proof -
  let ?pkt = "replicate 9000 0 :: byte list"
  let ?bs = "msg_header LIST_MSG (of_nat (length ?pkt)) @ ?pkt"
  have "delivers (uart_frame_timeout_ms CONTROL_INTERFACE) (uart_rx (h_uart (d_hsm \<lparr>d_hsm = ref_hsm ?bs, d_file_table = []\<rparr>)) 0) ?bs []"
    using ref_acks [of ?bs] by (simp only: device.simps)
  from long_packet_overruns [OF _ this, of True ref_platform] show ?thesis
    by (simp add: MAX_MSG_SIZE_def WRITE_COMMAND_SIZE_def)
qed

end
